(* ===== verification/Prelude.thy ===== *)
theory Prelude
  imports Complex_Main "HOL-Library.AList"
begin

text \<open>
  What every component of the development shares: the JavaScript values that the sources
  inspect at run time (numbers, UTF-16 strings, untyped values), the exceptions they raise,
  and the execution monad in which the stateful classes are written.  A method of a class is
  a function from the object's state to a result or an exception \<^emph>\<open>and\<close> the state that is
  left behind, so that what an exception leaves half-done is part of the model.
\<close>

section \<open>Collections\<close>

named_theorems exec_simps \<open>unfolding of the execution monad\<close>

section \<open>Numbers\<close>

text \<open>
  A number of the sources is a finite double or one of the three non-finite values.  The
  finite ones are rationals: the sources compare them, take differences and sums of
  millisecond counts, and test them with \<open>Number.isFinite\<close> and \<open>Number.isSafeInteger\<close>.
\<close>

datatype jsnum = Fin rat | PosInf | NegInf | NaN

type_synonym millis = rat

text \<open>The k-th reading of a clock callback; a clock may return anything at any time.\<close>

type_synonym clock = "nat \<Rightarrow> jsnum"

fun is_finite :: "jsnum \<Rightarrow> bool" where
  "is_finite (Fin _) = True"
| "is_finite _ = False"

fun fin_val :: "jsnum \<Rightarrow> rat" where
  "fin_val (Fin q) = q"
| "fin_val _ = 0"

definition max_safe_integer :: rat where
  "max_safe_integer = 9007199254740991"

fun is_safe_integer :: "jsnum \<Rightarrow> bool" where
  "is_safe_integer (Fin q) \<longleftrightarrow> of_int \<lfloor>q\<rfloor> = q \<and> \<bar>q\<bar> \<le> max_safe_integer"
| "is_safe_integer _ \<longleftrightarrow> False"

text \<open>The comparisons of the language: every comparison with \<open>NaN\<close> is false.\<close>

instantiation jsnum :: ord
begin

fun less_eq_jsnum :: "jsnum \<Rightarrow> jsnum \<Rightarrow> bool" where
  "less_eq_jsnum NaN _ = False"
| "less_eq_jsnum _ NaN = False"
| "less_eq_jsnum NegInf _ = True"
| "less_eq_jsnum _ PosInf = True"
| "less_eq_jsnum (Fin a) (Fin b) = (a \<le> b)"
| "less_eq_jsnum _ _ = False"

fun less_jsnum :: "jsnum \<Rightarrow> jsnum \<Rightarrow> bool" where
  "less_jsnum NaN _ = False"
| "less_jsnum _ NaN = False"
| "less_jsnum (Fin a) (Fin b) = (a < b)"
| "less_jsnum NegInf y = (y \<noteq> NegInf)"
| "less_jsnum x PosInf = (x \<noteq> PosInf)"
| "less_jsnum _ _ = False"

instance ..

end

lemma is_finite_iff: "is_finite x \<longleftrightarrow> (\<exists>q. x = Fin q)"
  by (cases x) auto

lemma is_safe_integer_finite: "is_safe_integer x \<Longrightarrow> is_finite x"
  by (cases x) auto

section \<open>Strings and untyped values\<close>

text \<open>
  Texts whose characters the sources inspect are lists of UTF-16 code units.  Identifiers and
  keys, which are only compared, are HOL strings.
\<close>

type_synonym jstr = "nat list"

definition js :: "string \<Rightarrow> jstr" where
  "js s = map of_char s"

text \<open>
  Untyped values.  An object is the list of its own enumerable string-keyed properties in
  enumeration order; \<open>Opaque\<close> stands for functions, symbols and big integers.
\<close>

datatype jsval =
    Undefined
  | Null
  | Boolean bool
  | Number jsnum
  | Text jstr
  | Array "jsval list"
  | Object "(jstr \<times> jsval) list"
  | Opaque

datatype js_exn =
    RangeErrorExn string
  | TypeErrorExn string
  | ErrorExn string

section \<open>The execution monad\<close>

type_synonym ('s, 'x, 'a) exec = "'s \<Rightarrow> ('x + 'a) \<times> 's"

definition ret :: "'a \<Rightarrow> ('s, 'x, 'a) exec" where [exec_simps]:
  "ret a = (\<lambda>s. (Inr a, s))"

definition throw :: "'x \<Rightarrow> ('s, 'x, 'a) exec" where [exec_simps]:
  "throw x = (\<lambda>s. (Inl x, s))"

definition bindE :: "('s, 'x, 'a) exec \<Rightarrow> ('a \<Rightarrow> ('s, 'x, 'b) exec) \<Rightarrow> ('s, 'x, 'b) exec" where
  "bindE m k = (\<lambda>s. case m s of (Inl x, t) \<Rightarrow> (Inl x, t) | (Inr a, t) \<Rightarrow> k a t)"

definition thenE :: "('s, 'x, 'a) exec \<Rightarrow> ('s, 'x, 'b) exec \<Rightarrow> ('s, 'x, 'b) exec" where [exec_simps]:
  "thenE m k = bindE m (\<lambda>_. k)"

definition getE :: "('s \<Rightarrow> 'a) \<Rightarrow> ('s, 'x, 'a) exec" where [exec_simps]:
  "getE f = (\<lambda>s. (Inr (f s), s))"

definition modE :: "('s \<Rightarrow> 's) \<Rightarrow> ('s, 'x, unit) exec" where [exec_simps]:
  "modE f = (\<lambda>s. (Inr (), f s))"

definition whenE :: "bool \<Rightarrow> ('s, 'x, unit) exec \<Rightarrow> ('s, 'x, unit) exec" where [exec_simps]:
  "whenE b m = (if b then m else ret ())"

text \<open>\<open>try ... catch\<close>: the handler starts from the state the exception left.\<close>

definition catchE :: "('s, 'x, 'a) exec \<Rightarrow> ('x \<Rightarrow> ('s, 'x, 'a) exec) \<Rightarrow> ('s, 'x, 'a) exec" where [exec_simps]:
  "catchE m handler = (\<lambda>s. case m s of (Inl x, t) \<Rightarrow> handler x t | (Inr a, t) \<Rightarrow> (Inr a, t))"

text \<open>Running a method on each element in turn; the first exception stops the loop.\<close>

fun forE :: "'a list \<Rightarrow> ('a \<Rightarrow> ('s, 'x, 'b) exec) \<Rightarrow> ('s, 'x, 'b list) exec" where
  "forE [] f = ret []"
| "forE (x # xs) f = bindE (f x) (\<lambda>y. bindE (forE xs f) (\<lambda>ys. ret (y # ys)))"

lemma bindE_apply [exec_simps]:
  "bindE m k s = (case m s of (Inl x, t) \<Rightarrow> (Inl x, t) | (Inr a, t) \<Rightarrow> k a t)"
  by (simp add: bindE_def)

lemma bindE_ret: "bindE (ret a) k = k a"
  by (simp add: fun_eq_iff exec_simps)

lemma bindE_throw: "bindE (throw x) k = throw x"
  by (simp add: fun_eq_iff exec_simps)

lemma bindE_Inr: "m s = (Inr a, t) \<Longrightarrow> bindE m k s = k a t"
  by (simp add: bindE_def)

lemma bindE_Inl: "m s = (Inl x, t) \<Longrightarrow> bindE m k s = (Inl x, t)"
  by (simp add: bindE_def)

lemma ret_apply: "ret a s = (Inr a, s)"
  by (simp add: ret_def)

lemma bindE_getE: "bindE (getE f) k s = k (f s) s"
  by (simp add: bindE_def getE_def)

lemma thenE_Inr: "m s = (Inr a, t) \<Longrightarrow> thenE m k s = k t"
  by (simp add: thenE_def bindE_def)

lemma bindE_eq_Inr:
  "bindE m k s = (Inr b, u) \<longleftrightarrow> (\<exists>a t. m s = (Inr a, t) \<and> k a t = (Inr b, u))"
  by (auto simp: bindE_def split: prod.splits sum.splits)

section \<open>Step contracts\<close>

text \<open>
  A method obeys a relation when the state before and the state it leaves are related,
  whether it returns or throws.  An invariant \<open>I\<close> is the relation \<open>I s \<longrightarrow> I t\<close>; a property
  such as \<open>a committed record never changes\<close> is a relation proper.  Every relation that is
  reflexive and transitive is closed under the monad, so the contract of a long method is
  the contract of its primitive updates.
\<close>

definition obeys :: "('s \<Rightarrow> 's \<Rightarrow> bool) \<Rightarrow> ('s, 'x, 'a) exec \<Rightarrow> bool" where
  "obeys R m \<longleftrightarrow> (\<forall>s. R s (snd (m s)))"

lemma obeysI: "(\<And>s. R s (snd (m s))) \<Longrightarrow> obeys R m"
  by (simp add: obeys_def)

lemma obeysD: "obeys R m \<Longrightarrow> R s (snd (m s))"
  by (simp add: obeys_def)

lemma obeys_result: "obeys R m \<Longrightarrow> m s = (r, t) \<Longrightarrow> R s t"
  by (metis obeysD snd_conv)

lemma obeys_mono: "obeys R m \<Longrightarrow> (\<And>s t. R s t \<Longrightarrow> Q s t) \<Longrightarrow> obeys Q m"
  by (simp add: obeys_def)

text \<open>A continuation that knows what it has read.\<close>

lemma obeys_getE_bind:
  assumes "\<And>s. R s (snd (k (f s) s))"
  shows "obeys R (bindE (getE f) k)"
  using assms by (simp add: obeys_def exec_simps)

locale step_contract =
  fixes R :: "'s \<Rightarrow> 's \<Rightarrow> bool"
  assumes refl: "R s s"
    and trans: "R s t \<Longrightarrow> R t u \<Longrightarrow> R s u"
begin

lemma ret: "obeys R (ret a)"
  by (simp add: obeys_def exec_simps refl)

lemma throw: "obeys R (throw x)"
  by (simp add: obeys_def exec_simps refl)

lemma getE: "obeys R (getE f)"
  by (simp add: obeys_def exec_simps refl)

lemma modE: "(\<And>s. R s (f s)) \<Longrightarrow> obeys R (modE f)"
  by (simp add: obeys_def exec_simps)

lemma bindE:
  assumes "obeys R m" and "\<And>a. obeys R (k a)"
  shows "obeys R (bindE m k)"
proof (rule obeysI)
  fix s
  show "R s (snd (bindE m k s))"
  proof (cases "m s")
    case (Pair r t)
    then have st: "R s t" using assms(1) by (rule obeys_result [rotated])
    then show ?thesis
      using Pair trans [OF st obeysD [OF assms(2)]]
      by (cases r) (auto simp: exec_simps)
  qed
qed

lemma thenE: "obeys R m \<Longrightarrow> obeys R k \<Longrightarrow> obeys R (thenE m k)"
  by (simp add: thenE_def bindE)

lemma whenE: "(b \<Longrightarrow> obeys R m) \<Longrightarrow> obeys R (whenE b m)"
  by (simp add: whenE_def ret)

lemma catchE:
  assumes "obeys R m" and "\<And>x. obeys R (h x)"
  shows "obeys R (catchE m h)"
proof (rule obeysI)
  fix s
  show "R s (snd (catchE m h s))"
  proof (cases "m s")
    case (Pair r t)
    then have st: "R s t" using assms(1) by (rule obeys_result [rotated])
    then show ?thesis
      using Pair trans [OF st obeysD [OF assms(2)]]
      by (cases r) (auto simp: exec_simps)
  qed
qed

lemma forE: "(\<And>x. x \<in> set xs \<Longrightarrow> obeys R (f x)) \<Longrightarrow> obeys R (forE xs f)"
  by (induction xs) (auto intro!: bindE ret)

lemma if_cases: "(b \<Longrightarrow> obeys R m) \<Longrightarrow> (\<not> b \<Longrightarrow> obeys R k) \<Longrightarrow> obeys R (if b then m else k)"
  by simp

lemma option_cases:
  "(v = None \<Longrightarrow> obeys R m) \<Longrightarrow> (\<And>x. v = Some x \<Longrightarrow> obeys R (k x)) \<Longrightarrow>
   obeys R (case v of None \<Rightarrow> m | Some x \<Rightarrow> k x)"
  by (cases v) auto

lemma sum_cases:
  "(\<And>x. v = Inl x \<Longrightarrow> obeys R (m x)) \<Longrightarrow> (\<And>x. v = Inr x \<Longrightarrow> obeys R (k x)) \<Longrightarrow>
   obeys R (case v of Inl x \<Rightarrow> m x | Inr x \<Rightarrow> k x)"
  by (cases v) auto

lemma let_cases: "obeys R (f x) \<Longrightarrow> obeys R (let y = x in f y)"
  by simp

lemmas closure =
  ret throw getE bindE thenE catchE whenE forE if_cases option_cases sum_cases let_cases

end

text \<open>A contract that also assumes an invariant on the states it starts from.\<close>

definition under :: "('s \<Rightarrow> bool) \<Rightarrow> ('s \<Rightarrow> 's \<Rightarrow> bool) \<Rightarrow> 's \<Rightarrow> 's \<Rightarrow> bool" where
  "under I R s t \<longleftrightarrow> (I s \<longrightarrow> I t \<and> R s t)"

lemma underI: "(I s \<Longrightarrow> I t \<and> R s t) \<Longrightarrow> under I R s t"
  by (simp add: under_def)

lemma obeys_under:
  "obeys (under I R) m \<Longrightarrow> m s = (x, t) \<Longrightarrow> I s \<Longrightarrow> I t \<and> R s t"
  using obeys_result [of "under I R" m s x t] by (simp add: under_def)

lemma under_contract:
  assumes "step_contract R"
  shows "step_contract (under I R)"
  using assms unfolding step_contract_def under_def by blast

section \<open>Triples\<close>

text \<open>
  Partial correctness with two outcomes: from a state with \<open>P\<close>, a normal result satisfies \<open>Q\<close>
  and an exception \<open>E\<close>, each together with the state it leaves.
\<close>

definition hoare ::
  "('s \<Rightarrow> bool) \<Rightarrow> ('s, 'x, 'a) exec \<Rightarrow> ('a \<Rightarrow> 's \<Rightarrow> bool) \<Rightarrow> ('x \<Rightarrow> 's \<Rightarrow> bool) \<Rightarrow> bool" where
  "hoare P m Q E \<longleftrightarrow> (\<forall>s. P s \<longrightarrow> (case m s of (Inl x, t) \<Rightarrow> E x t | (Inr a, t) \<Rightarrow> Q a t))"

lemma hoareI:
  "(\<And>s x t. P s \<Longrightarrow> m s = (Inl x, t) \<Longrightarrow> E x t) \<Longrightarrow> (\<And>s a t. P s \<Longrightarrow> m s = (Inr a, t) \<Longrightarrow> Q a t) \<Longrightarrow>
   hoare P m Q E"
  by (auto simp: hoare_def split: prod.split sum.split)

lemma hoare_Inr: "hoare P m Q E \<Longrightarrow> P s \<Longrightarrow> m s = (Inr a, t) \<Longrightarrow> Q a t"
  by (auto simp: hoare_def)

lemma hoare_Inl: "hoare P m Q E \<Longrightarrow> P s \<Longrightarrow> m s = (Inl x, t) \<Longrightarrow> E x t"
  by (auto simp: hoare_def)

lemma hoare_both:
  "hoare P m (\<lambda>_. Q) (\<lambda>_. Q) \<Longrightarrow> P s \<Longrightarrow> Q (snd (m s))"
  by (cases "m s"; cases "fst (m s)") (auto simp: hoare_def split: prod.splits)

lemma hoare_pre: "hoare P m Q E \<Longrightarrow> (\<And>s. P' s \<Longrightarrow> P s) \<Longrightarrow> hoare P' m Q E"
  by (auto simp: hoare_def)

lemma hoare_post:
  "hoare P m Q E \<Longrightarrow> (\<And>a s. Q a s \<Longrightarrow> Q' a s) \<Longrightarrow> (\<And>x s. E x s \<Longrightarrow> E' x s) \<Longrightarrow> hoare P m Q' E'"
  unfolding hoare_def by (fastforce split: prod.splits sum.splits)

lemma hoare_bind:
  "hoare P m R E \<Longrightarrow> (\<And>a. hoare (R a) (k a) Q E) \<Longrightarrow> hoare P (bindE m k) Q E"
  unfolding hoare_def bindE_def by (fastforce split: prod.splits sum.splits)

lemma hoare_then: "hoare P m (\<lambda>_. R) E \<Longrightarrow> hoare R k Q E \<Longrightarrow> hoare P (thenE m k) Q E"
  unfolding thenE_def by (rule hoare_bind)

lemma hoare_ret: "(\<And>s. P s \<Longrightarrow> Q a s) \<Longrightarrow> hoare P (ret a) Q E"
  by (simp add: hoare_def ret_def)

lemma hoare_throw: "(\<And>s. P s \<Longrightarrow> E x s) \<Longrightarrow> hoare P (throw x) Q E"
  by (simp add: hoare_def throw_def)

lemma hoare_modE: "(\<And>s. P s \<Longrightarrow> Q () (f s)) \<Longrightarrow> hoare P (modE f) Q E"
  by (simp add: hoare_def modE_def)

lemma hoare_getE: "(\<And>s. P s \<Longrightarrow> Q (f s) s) \<Longrightarrow> hoare P (getE f) Q E"
  by (simp add: hoare_def getE_def)

text \<open>A value that is read is known to the continuation.\<close>

lemma hoare_get_bind:
  "(\<And>a. hoare (\<lambda>s. P s \<and> f s = a) (k a) Q E) \<Longrightarrow> hoare P (bindE (getE f) k) Q E"
  by (auto simp: hoare_def bindE_def getE_def)

lemma hoare_if:
  "(b \<Longrightarrow> hoare P m Q E) \<Longrightarrow> (\<not> b \<Longrightarrow> hoare P k Q E) \<Longrightarrow> hoare P (if b then m else k) Q E"
  by simp

lemma hoare_when: "(b \<Longrightarrow> hoare P m (\<lambda>_. Q ()) E) \<Longrightarrow> (\<And>s. \<not> b \<Longrightarrow> P s \<Longrightarrow> Q () s) \<Longrightarrow> hoare P (whenE b m) Q E"
  by (cases b) (auto simp: whenE_def hoare_def ret_def split: prod.splits sum.splits)

lemma hoare_option:
  "(v = None \<Longrightarrow> hoare P m Q E) \<Longrightarrow> (\<And>x. v = Some x \<Longrightarrow> hoare P (k x) Q E) \<Longrightarrow>
   hoare P (case v of None \<Rightarrow> m | Some x \<Rightarrow> k x) Q E"
  by (cases v) auto

lemma hoare_forE:
  "(\<And>x. x \<in> set xs \<Longrightarrow> hoare I (f x) (\<lambda>_. I) E) \<Longrightarrow> hoare I (forE xs f) (\<lambda>_. I) E"
  by (induction xs) (auto intro!: hoare_ret hoare_bind)

section \<open>Maps in insertion order\<close>

text \<open>
  A \<open>Map\<close> of the language is an association list in insertion order: setting a present key
  keeps its place, a new key goes to the end.
\<close>

lemma map_of_update: "map_of (AList.update k v m) = (map_of m)(k \<mapsto> v)"
  by (simp add: update_conv')

lemma map_of_delete: "map_of (AList.delete k m) = (map_of m)(k := None)"
  by (simp add: delete_conv')

lemma distinct_keys_update: "distinct (map fst m) \<Longrightarrow> distinct (map fst (AList.update k v m))"
  by (rule distinct_update)

lemma distinct_keys_delete: "distinct (map fst m) \<Longrightarrow> distinct (map fst (AList.delete k m))"
  by (rule distinct_delete)

lemma set_delete_subset: "set (AList.delete k m) \<subseteq> set m"
  by (auto simp: AList.delete_eq)

lemma set_update_subset: "set (AList.update k v m) \<subseteq> insert (k, v) (set m)"
  by (induction m) auto

lemma map_of_filter_distinct:
  "distinct (map fst m) \<Longrightarrow>
   map_of (filter (\<lambda>(k, v). P v) m) k = (case map_of m k of None \<Rightarrow> None
     | Some v \<Rightarrow> if P v then Some v else None)"
  by (induction m) (auto split: option.splits dest: map_of_SomeD simp: map_of_eq_None_iff)

end
