(* ===== verification/Protocol_Errors.thy ===== *)
theory Protocol_Errors
  imports Prelude
begin

text \<open>
  The stable error payload of the protocol (\<open>src/protocol/errors.ts\<close>): the code taxonomy, the
  sanitizer that makes messages and details safe to put on the wire, and \<open>createProtocolError\<close>.
  The checks that a receiving peer makes on a message (\<open>src/protocol/validation.ts\<close>) are here
  too, because the lemmas relate the two sides.
\<close>

section \<open>Codes\<close>

datatype error_code =
    EC_malformed | EC_incompatible | EC_expired | EC_cross_room | EC_ambiguous | EC_busy
  | EC_unauthorized | EC_oversized | EC_duplicate | EC_cancelled | EC_unreachable
  | EC_not_found | EC_not_cancelable | EC_invalid_content | EC_invalid_reply | EC_internal

definition RETRYABLE_ERROR_CODES :: "error_code list" where
  "RETRYABLE_ERROR_CODES = [EC_busy, EC_unreachable]"

definition isRetryableErrorCode :: "error_code \<Rightarrow> bool" where
  "isRetryableErrorCode code \<longleftrightarrow> list_ex (\<lambda>candidate. candidate = code) RETRYABLE_ERROR_CODES"

record protocol_error =
  pe_code :: error_code
  pe_message :: jstr
  pe_retryable :: bool
  pe_retryAfterMs :: "jsnum option"
  pe_details :: "jsval option"

record error_options =
  eo_retryAfterMs :: "jsnum option"
  eo_details :: "jsval option"
  eo_retryable :: "bool option"

definition no_error_options :: error_options where
  "no_error_options = \<lparr>eo_retryAfterMs = None, eo_details = None, eo_retryable = None\<rparr>"

section \<open>Messages\<close>

definition MAX_PROTOCOL_ERROR_MESSAGE_LENGTH :: nat where
  "MAX_PROTOCOL_ERROR_MESSAGE_LENGTH = 512"

definition MAX_PROTOCOL_ERROR_DETAILS_BYTES :: nat where
  "MAX_PROTOCOL_ERROR_DETAILS_BYTES = 4 * 1024"

text \<open>The white space and line terminators that \<open>String.prototype.trim\<close> removes.\<close>

definition is_space :: "nat \<Rightarrow> bool" where
  "is_space c \<longleftrightarrow> (9 \<le> c \<and> c \<le> 13) \<or> c = 32 \<or> c = 0xA0 \<or> c = 0x1680 \<or>
     (0x2000 \<le> c \<and> c \<le> 0x200A) \<or> c = 0x2028 \<or> c = 0x2029 \<or> c = 0x202F \<or> c = 0x205F \<or>
     c = 0x3000 \<or> c = 0xFEFF"

definition js_trim :: "jstr \<Rightarrow> jstr" where
  "js_trim s = rev (dropWhile is_space (rev (dropWhile is_space s)))"

definition is_control :: "nat \<Rightarrow> bool" where
  "is_control c \<longleftrightarrow> c \<le> 0x1f \<or> c = 0x7f"

definition boundedMessage :: "jstr \<Rightarrow> jstr" where
  "boundedMessage value =
     (let normalized = js_trim (map (\<lambda>c. if is_control c then 32 else c) value);
          safe = (if normalized = [] then js ''protocol error'' else normalized)
      in if length safe \<le> MAX_PROTOCOL_ERROR_MESSAGE_LENGTH then safe
         else take (MAX_PROTOCOL_ERROR_MESSAGE_LENGTH - 1) safe @ [0x2026])"

definition hasControlCharacters :: "jstr \<Rightarrow> bool" where
  "hasControlCharacters value \<longleftrightarrow> list_ex is_control value"

definition isSafeHumanReadableMessage :: "jsval \<Rightarrow> bool" where
  "isSafeHumanReadableMessage v =
     (case v of
        Text value \<Rightarrow>
          length value \<le> MAX_PROTOCOL_ERROR_MESSAGE_LENGTH \<and>
          js_trim value = value \<and> length (js_trim value) > 0 \<and> \<not> hasControlCharacters value
      | _ \<Rightarrow> False)"

section \<open>Details\<close>

text \<open>Iterating a string yields code points: a surrogate pair is one of them.\<close>

fun code_points :: "jstr \<Rightarrow> nat list" where
  "code_points (h # l # cs) =
     (if 0xD800 \<le> h \<and> h \<le> 0xDBFF \<and> 0xDC00 \<le> l \<and> l \<le> 0xDFFF
      then (0x10000 + (h - 0xD800) * 0x400 + (l - 0xDC00)) # code_points cs
      else h # code_points (l # cs))"
| "code_points cs = cs"

text \<open>
  \<open>SECRET_DETAIL_KEY\<close>: an unanchored search, ignoring case under Unicode simple folding (in
  which the long s and the Kelvin sign fold to ASCII letters).
\<close>

definition fold_case :: "nat \<Rightarrow> nat" where
  "fold_case c = (if 65 \<le> c \<and> c \<le> 90 then c + 32
     else if c = 0x17F then 115 else if c = 0x212A then 107 else c)"

definition starts_with :: "jstr \<Rightarrow> jstr \<Rightarrow> bool" where
  "starts_with w xs \<longleftrightarrow> take (length w) xs = w"

definition starts_with_api_key :: "jstr \<Rightarrow> bool" where
  "starts_with_api_key xs \<longleftrightarrow> starts_with (js ''api'') xs \<and>
     (let rest = drop 3 xs in
       starts_with (js ''key'') rest \<or>
       (case rest of [] \<Rightarrow> False
        | c # tail \<Rightarrow> c \<notin> {10, 13, 0x2028, 0x2029} \<and> starts_with (js ''key'') tail))"

fun some_suffix :: "(jstr \<Rightarrow> bool) \<Rightarrow> jstr \<Rightarrow> bool" where
  "some_suffix P [] = P []"
| "some_suffix P (x # xs) = (P (x # xs) \<or> some_suffix P xs)"

definition secret_detail_key :: "jstr \<Rightarrow> bool" where
  "secret_detail_key key \<longleftrightarrow>
     some_suffix
       (\<lambda>xs. list_ex (\<lambda>w. starts_with (js w) xs)
               [''credential'', ''password'', ''secret'', ''token'', ''authorization'']
             \<or> starts_with_api_key xs)
       (map fold_case (code_points key))"

lemma size_list_take [termination_simp]: "size_list f (take n xs) \<le> size_list f xs"
  by (induction xs arbitrary: n) (auto simp: take_Cons split: nat.splits)

text \<open>
  Assigning to the key \<open>__proto__\<close> of an object literal sets its prototype and adds no own
  property, so such a member does not survive.
\<close>

function sanitizeJsonValue :: "nat \<Rightarrow> jsval \<Rightarrow> jsval option"
  and sanitizeItems :: "nat \<Rightarrow> jsval list \<Rightarrow> jsval list"
  and sanitizeMembers :: "nat \<Rightarrow> (jstr \<times> jsval) list \<Rightarrow> (jstr \<times> jsval) list" where
  "sanitizeJsonValue depth value =
     (if depth > 8 then None
      else case value of
        Undefined \<Rightarrow> None
      | Null \<Rightarrow> Some Null
      | Text s \<Rightarrow> Some (Text s)
      | Boolean b \<Rightarrow> Some (Boolean b)
      | Number n \<Rightarrow> Some (if is_finite n then Number n else Null)
      | Array items \<Rightarrow> Some (Array (sanitizeItems (depth + 1) (take 64 items)))
      | Object members \<Rightarrow> Some (Object (sanitizeMembers (depth + 1) (take 64 members)))
      | Opaque \<Rightarrow> None)"
| "sanitizeItems depth [] = []"
| "sanitizeItems depth (item # items) =
     (case sanitizeJsonValue depth item of
        None \<Rightarrow> sanitizeItems depth items
      | Some safe \<Rightarrow> safe # sanitizeItems depth items)"
| "sanitizeMembers depth [] = []"
| "sanitizeMembers depth ((key, item) # members) =
     (if secret_detail_key key then sanitizeMembers depth members
      else case sanitizeJsonValue depth item of
        None \<Rightarrow> sanitizeMembers depth members
      | Some safe \<Rightarrow>
          if key = js ''__proto__'' then sanitizeMembers depth members
          else (key, safe) # sanitizeMembers depth members)"
  by pat_completeness auto
termination
  by (relation "measure (case_sum (\<lambda>(d, v). size v)
        (case_sum (\<lambda>(d, xs). size_list size xs)
                  (\<lambda>(d, ms). size_list (size_prod (\<lambda>_. 0) size) ms)))")
     (auto simp: less_Suc_eq_le size_list_take)

declare sanitizeJsonValue.simps [simp del]

lemma sanitizeJsonValue_cases [simp]:
  "sanitizeJsonValue depth (Text t) = (if depth > 8 then None else Some (Text t))"
  "sanitizeJsonValue depth (Number n) =
     (if depth > 8 then None else Some (if is_finite n then Number n else Null))"
  "sanitizeJsonValue depth (Object members) =
     (if depth > 8 then None else Some (Object (sanitizeMembers (depth + 1) (take 64 members))))"
  by (simp_all add: sanitizeJsonValue.simps)

text \<open>The length of a string as JSON text in UTF-8 (\<open>jsonStringByteLength\<close> of the validator).\<close>

fun json_unit_bytes :: "jstr \<Rightarrow> nat" where
  "json_unit_bytes [] = 0"
| "json_unit_bytes (code # rest) =
     (if code \<in> {0x22, 0x5c, 0x08, 0x09, 0x0a, 0x0c, 0x0d} then 2 + json_unit_bytes rest
      else if code \<le> 0x1f then 6 + json_unit_bytes rest
      else if 0xd800 \<le> code \<and> code \<le> 0xdbff then
        (case rest of
           next # rest' \<Rightarrow>
             if 0xdc00 \<le> next \<and> next \<le> 0xdfff then 4 + json_unit_bytes rest'
             else 6 + json_unit_bytes rest
         | [] \<Rightarrow> 6)
      else if 0xdc00 \<le> code \<and> code \<le> 0xdfff then 6 + json_unit_bytes rest
      else if code \<le> 0x7f then 1 + json_unit_bytes rest
      else if code \<le> 0x7ff then 2 + json_unit_bytes rest
      else 3 + json_unit_bytes rest)"

definition jsonStringByteLength :: "jstr \<Rightarrow> nat" where
  "jsonStringByteLength value = 2 + json_unit_bytes value"

text \<open>
  The UTF-8 length of \<open>JSON.stringify\<close>.  The text of a finite number is the platform's; its
  length is the parameter \<open>numlen\<close>.
\<close>

function json_bytes :: "(rat \<Rightarrow> nat) \<Rightarrow> jsval \<Rightarrow> nat"
  and json_items_bytes :: "(rat \<Rightarrow> nat) \<Rightarrow> jsval list \<Rightarrow> nat"
  and json_members_bytes :: "(rat \<Rightarrow> nat) \<Rightarrow> (jstr \<times> jsval) list \<Rightarrow> nat" where
  "json_bytes numlen value =
     (case value of
        Boolean b \<Rightarrow> (if b then 4 else 5)
      | Number (Fin q) \<Rightarrow> numlen q
      | Text s \<Rightarrow> jsonStringByteLength s
      | Array items \<Rightarrow> 2 + (length items - 1) + json_items_bytes numlen items
      | Object members \<Rightarrow> 2 +
          (length (filter (\<lambda>m. snd m \<noteq> Undefined \<and> snd m \<noteq> Opaque) members) - 1) +
          json_members_bytes numlen members
      | _ \<Rightarrow> 4)"
| "json_items_bytes numlen [] = 0"
| "json_items_bytes numlen (item # items) = json_bytes numlen item + json_items_bytes numlen items"
| "json_members_bytes numlen [] = 0"
| "json_members_bytes numlen ((key, item) # members) =
     (if item = Undefined \<or> item = Opaque then json_members_bytes numlen members
      else jsonStringByteLength key + 1 + json_bytes numlen item +
           json_members_bytes numlen members)"
  by pat_completeness auto
termination
  by (relation "measure (case_sum (\<lambda>(f, v). size v)
        (case_sum (\<lambda>(f, xs). size_list size xs)
                  (\<lambda>(f, ms). size_list (size_prod (\<lambda>_. 0) size) ms)))")
     auto

declare json_bytes.simps [simp del]

lemma json_bytes_cases [simp]:
  "json_bytes numlen (Boolean b) = (if b then 4 else 5)"
  "json_bytes numlen (Number (Fin q)) = numlen q"
  "json_bytes numlen (Text t) = jsonStringByteLength t"
  "json_bytes numlen (Object members) = 2 +
     (length (filter (\<lambda>m. snd m \<noteq> Undefined \<and> snd m \<noteq> Opaque) members) - 1) +
     json_members_bytes numlen members"
  by (simp_all add: json_bytes.simps)

definition truncated_details :: jsval where
  "truncated_details = Object [(js ''truncated'', Boolean True)]"

definition boundedDetails :: "(rat \<Rightarrow> nat) \<Rightarrow> jsval option \<Rightarrow> jsval option" where
  "boundedDetails numlen details =
     (case details of
        None \<Rightarrow> None
      | Some d \<Rightarrow>
          (case sanitizeJsonValue 0 d of
             Some (Object members) \<Rightarrow>
               if json_bytes numlen (Object members) \<le> MAX_PROTOCOL_ERROR_DETAILS_BYTES
               then Some (Object members) else Some truncated_details
           | _ \<Rightarrow> Some truncated_details))"

section \<open>Construction\<close>

definition validateRetryMetadata :: "bool \<Rightarrow> jsnum option \<Rightarrow> js_exn + unit" where
  "validateRetryMetadata retryable retryAfterMs =
     (case retryAfterMs of
        None \<Rightarrow> Inr ()
      | Some n \<Rightarrow>
          if \<not> is_finite n \<or> n \<le> Fin 0
          then Inl (RangeErrorExn ''retryAfterMs must be a finite positive number'')
          else if \<not> retryable
          then Inl (RangeErrorExn ''retryAfterMs is not valid for non-retryable error code'')
          else Inr ())"

definition createProtocolError ::
  "(rat \<Rightarrow> nat) \<Rightarrow> error_code \<Rightarrow> jstr \<Rightarrow> error_options \<Rightarrow> js_exn + protocol_error" where
  "createProtocolError numlen code message options =
     (let retryable = isRetryableErrorCode code in
      if eo_retryable options \<noteq> None \<and> eo_retryable options \<noteq> Some retryable
      then Inl (RangeErrorExn ''retryable must agree with the error code'')
      else case validateRetryMetadata retryable (eo_retryAfterMs options) of
        Inl e \<Rightarrow> Inl e
      | Inr _ \<Rightarrow>
          Inr \<lparr>pe_code = code,
               pe_message = boundedMessage message,
               pe_retryable = retryable,
               pe_retryAfterMs = eo_retryAfterMs options,
               pe_details = boundedDetails numlen (eo_details options)\<rparr>)"

text \<open>
  The components build most errors from a code and a literal message, with no options: that
  call cannot throw.  Where they attach details, the numbers in them are counts, whose text is
  decimal.
\<close>

fun digit_count :: "nat \<Rightarrow> nat" where
  "digit_count n = (if n < 10 then 1 else Suc (digit_count (n div 10)))"

declare digit_count.simps [simp del]

definition count_len :: "rat \<Rightarrow> nat" where
  "count_len q = (if q < 0 then Suc (digit_count (nat \<lfloor>- q\<rfloor>)) else digit_count (nat \<lfloor>q\<rfloor>))"

definition protocol_error :: "error_code \<Rightarrow> string \<Rightarrow> jsval option \<Rightarrow> protocol_error" where
  "protocol_error code message details =
     \<lparr>pe_code = code, pe_message = boundedMessage (js message),
      pe_retryable = isRetryableErrorCode code, pe_retryAfterMs = None,
      pe_details = boundedDetails count_len details\<rparr>"

section \<open>What a receiver may rely on\<close>

lemma js_trim_nonspace:
  assumes "js_trim s \<noteq> []"
  shows "\<not> is_space (hd (js_trim s))" and "\<not> is_space (last (js_trim s))"
proof -
  let ?t = "dropWhile is_space s"
  have r: "dropWhile is_space (rev ?t) \<noteq> []"
    using assms by (simp add: js_trim_def)
  then show "\<not> is_space (last (js_trim s))"
    using hd_dropWhile [OF r] by (simp add: js_trim_def last_rev)
  from r have t: "?t \<noteq> []" by (metis dropWhile.simps(1) rev.simps(1))
  then obtain a as where as: "?t = a # as" by (cases ?t) auto
  then have a: "\<not> is_space a" using hd_dropWhile [OF t] by simp
  have "js_trim s = a # rev (dropWhile is_space (rev as))"
    using a by (simp add: js_trim_def as dropWhile_append3 dropWhile_append)
  with a show "\<not> is_space (hd (js_trim s))" by simp
qed

lemma js_trim_id:
  assumes "s \<noteq> []" "\<not> is_space (hd s)" "\<not> is_space (last s)"
  shows "js_trim s = s"
proof -
  have "dropWhile is_space s = s"
    using assms(1,2) by (cases s) auto
  moreover have "dropWhile is_space (rev s) = rev s"
    using assms(1,3) by (cases "rev s") (auto simp: hd_rev [symmetric])
  ultimately show ?thesis by (simp add: js_trim_def)
qed

lemma set_js_trim: "set (js_trim s) \<subseteq> set s"
  unfolding js_trim_def using set_dropWhileD by (metis set_rev subsetI)

lemma boundedMessage_safe: "isSafeHumanReadableMessage (Text (boundedMessage value))"
proof -
  let ?n = "js_trim (map (\<lambda>c. if is_control c then 32 else c) value)"
  let ?d = "js ''protocol error''"
  define safe where "safe = (if ?n = [] then ?d else ?n)"
  have d: "?d \<noteq> [] \<and> \<not> is_space (hd ?d) \<and> \<not> is_space (last ?d) \<and> list_all (\<lambda>c. \<not> is_control c) ?d"
    by (simp add: js_def is_space_def is_control_def)
  have n: "list_all (\<lambda>c. \<not> is_control c) ?n"
    using set_js_trim [of "map (\<lambda>c. if is_control c then 32 else c) value"]
    by (force simp: list_all_iff is_control_def)
  have ne: "safe \<noteq> []" and hd: "\<not> is_space (hd safe)" and la: "\<not> is_space (last safe)"
    and ctl: "list_all (\<lambda>c. \<not> is_control c) safe"
    using d n js_trim_nonspace by (auto simp: safe_def)
  have bm: "boundedMessage value =
      (if length safe \<le> 512 then safe else take 511 safe @ [0x2026])"
    by (simp add: boundedMessage_def safe_def Let_def MAX_PROTOCOL_ERROR_MESSAGE_LENGTH_def)
  have ctl': "list_all (\<lambda>c. \<not> is_control c) (boundedMessage value)"
    using ctl by (auto simp: bm list_all_iff is_control_def dest: in_set_takeD)
  have "js_trim (boundedMessage value) = boundedMessage value"
    using ne hd la by (intro js_trim_id) (auto simp: bm is_space_def hd_append)
  moreover have "length (boundedMessage value) \<le> 512" "boundedMessage value \<noteq> []"
    using ne by (auto simp: bm)
  ultimately show ?thesis
    using ctl' by (simp add: isSafeHumanReadableMessage_def hasControlCharacters_def
        MAX_PROTOCOL_ERROR_MESSAGE_LENGTH_def list_ex_iff list_all_iff)
qed

text \<open>
  Details that survive the sanitizer: JSON values only, bounded in depth and width, and no
  member whose name suggests a secret.
\<close>

function wire_safe :: "nat \<Rightarrow> jsval \<Rightarrow> bool" where
  "wire_safe depth value \<longleftrightarrow> depth \<le> 8 \<and>
     (case value of
        Null \<Rightarrow> True
      | Boolean _ \<Rightarrow> True
      | Text _ \<Rightarrow> True
      | Number n \<Rightarrow> is_finite n
      | Array items \<Rightarrow> length items \<le> 64 \<and> (\<forall>item \<in> set items. wire_safe (depth + 1) item)
      | Object members \<Rightarrow> length members \<le> 64 \<and>
          (\<forall>member \<in> set members. \<not> secret_detail_key (fst member) \<and>
             fst member \<noteq> js ''__proto__'' \<and> wire_safe (depth + 1) (snd member))
      | _ \<Rightarrow> False)"
  by pat_completeness auto
termination
  by (relation "measure (\<lambda>(d, v). size v)")
     (auto dest: size_list_estimation' [where f = size, OF _ order_refl]
        size_list_estimation' [where f = "size_prod (\<lambda>_. 0) size", OF _ order_refl]
        simp: less_Suc_eq_le intro: le_trans [rotated])

declare wire_safe.simps [simp del]

lemma wire_safe_cases [simp]:
  "wire_safe depth Null \<longleftrightarrow> depth \<le> 8"
  "wire_safe depth (Boolean b) \<longleftrightarrow> depth \<le> 8"
  "wire_safe depth (Text t) \<longleftrightarrow> depth \<le> 8"
  "wire_safe depth (Number n) \<longleftrightarrow> depth \<le> 8 \<and> is_finite n"
  "wire_safe depth (Array items) \<longleftrightarrow> depth \<le> 8 \<and> length items \<le> 64 \<and>
     (\<forall>item \<in> set items. wire_safe (depth + 1) item)"
  "wire_safe depth (Object members) \<longleftrightarrow> depth \<le> 8 \<and> length members \<le> 64 \<and>
     (\<forall>member \<in> set members. \<not> secret_detail_key (fst member) \<and>
        fst member \<noteq> js ''__proto__'' \<and> wire_safe (depth + 1) (snd member))"
  by (subst wire_safe.simps, simp)+

lemma sanitize_sound:
  "sanitizeJsonValue d v = Some w \<Longrightarrow> wire_safe d w"
  "length (sanitizeItems d vs) \<le> length vs \<and> (\<forall>y \<in> set (sanitizeItems d vs). wire_safe d y)"
  "length (sanitizeMembers d ms) \<le> length ms \<and>
     (\<forall>m \<in> set (sanitizeMembers d ms).
        \<not> secret_detail_key (fst m) \<and> fst m \<noteq> js ''__proto__'' \<and> wire_safe d (snd m))"
proof (induction d v and d vs and d ms arbitrary: w
    rule: sanitizeJsonValue_sanitizeItems_sanitizeMembers.induct)
  case (1 depth v)
  then show ?case
    by (subst wire_safe.simps)
       (auto simp: sanitizeJsonValue.simps [of depth v] split: if_splits jsval.splits intro: order_trans)
next
  case (5 depth key item members)
  then show ?case
    by (cases "secret_detail_key key") (auto split: option.splits)
qed (auto split: option.splits)

lemma sanitize_complete:
  "wire_safe d v \<Longrightarrow> sanitizeJsonValue d v = Some v"
  "\<forall>y \<in> set vs. wire_safe d y \<Longrightarrow> sanitizeItems d vs = vs"
  "\<forall>m \<in> set ms. \<not> secret_detail_key (fst m) \<and> fst m \<noteq> js ''__proto__'' \<and> wire_safe d (snd m) \<Longrightarrow>
     sanitizeMembers d ms = ms"
proof (induction d v and d vs and d ms
    rule: sanitizeJsonValue_sanitizeItems_sanitizeMembers.induct)
  case (1 depth v)
  from "1.prems" have "depth \<le> 8" and w: "case v of
        Null \<Rightarrow> True
      | Boolean _ \<Rightarrow> True
      | Text _ \<Rightarrow> True
      | Number n \<Rightarrow> is_finite n
      | Array items \<Rightarrow> length items \<le> 64 \<and> (\<forall>item \<in> set items. wire_safe (depth + 1) item)
      | Object members \<Rightarrow> length members \<le> 64 \<and>
          (\<forall>member \<in> set members. \<not> secret_detail_key (fst member) \<and>
             fst member \<noteq> js ''__proto__'' \<and> wire_safe (depth + 1) (snd member))
      | _ \<Rightarrow> False"
    by (simp_all add: wire_safe.simps [of depth v])
  with "1.IH" show ?case
    by (cases v) (auto simp: sanitizeJsonValue.simps)
qed auto


lemma boundedDetails_safe:
  assumes "boundedDetails numlen details = Some d"
  shows "wire_safe 0 d \<and> json_bytes numlen d \<le> MAX_PROTOCOL_ERROR_DETAILS_BYTES"
proof -
  have "wire_safe 0 truncated_details"
    by (simp add: truncated_details_def secret_detail_key_def js_def
        starts_with_def starts_with_api_key_def fold_case_def)
  moreover have "json_bytes numlen truncated_details \<le> MAX_PROTOCOL_ERROR_DETAILS_BYTES"
    by (simp add: truncated_details_def js_def jsonStringByteLength_def
        MAX_PROTOCOL_ERROR_DETAILS_BYTES_def)
  moreover consider "d = truncated_details" | members where "d = Object members"
      "sanitizeJsonValue 0 (the details) = Some d"
      "json_bytes numlen d \<le> MAX_PROTOCOL_ERROR_DETAILS_BYTES"
    using assms unfolding boundedDetails_def
    by (auto simp del: json_bytes_cases split: option.splits jsval.splits if_splits)
  ultimately show ?thesis
    by cases (auto simp del: json_bytes_cases wire_safe_cases dest: sanitize_sound(1))
qed

text \<open>C0: Every error that \<open>createProtocolError\<close> returns is fit for the wire: the code is the
  requested one, retryability is that of the code, the message passes the receiver's
  human-readable check, a retry delay is present only on a retryable error and is finite and
  positive, and the details are JSON within the byte budget, at most nine levels deep, with no
  secret-bearing key at any level.\<close>

theorem createProtocolError_wire_safe:
  assumes "createProtocolError numlen code message options = Inr e"
  shows "pe_code e = code \<and> pe_retryable e = (code = EC_busy \<or> code = EC_unreachable) \<and>
    isSafeHumanReadableMessage (Text (pe_message e)) \<and>
    (\<forall>n. pe_retryAfterMs e = Some n \<longrightarrow> pe_retryable e \<and> is_finite n \<and> \<not> n \<le> Fin 0) \<and>
    (\<forall>d. pe_details e = Some d \<longrightarrow>
       wire_safe 0 d \<and> json_bytes numlen d \<le> MAX_PROTOCOL_ERROR_DETAILS_BYTES)"
  using assms boundedMessage_safe boundedDetails_safe
  by (auto simp: createProtocolError_def validateRetryMetadata_def isRetryableErrorCode_def
      RETRYABLE_ERROR_CODES_def Let_def split: if_splits sum.splits option.splits)

theorem createProtocolError_wire_safe_witness:
  "\<exists>e. createProtocolError (\<lambda>_. 1) EC_busy (js '' queue full '')
         \<lparr>eo_retryAfterMs = Some (Fin 250),
          eo_details = Some (Object [(js ''apiKey'', Text (js ''x'')), (js ''queued'', Number (Fin 3))]),
          eo_retryable = None\<rparr> = Inr e \<and>
       pe_details e = Some (Object [(js ''queued'', Number (Fin 3))]) \<and> wire_safe 0 (the (pe_details e))"
proof -
  let ?o = "\<lparr>eo_retryAfterMs = Some (Fin 250),
     eo_details = Some (Object [(js ''apiKey'', Text (js ''x'')), (js ''queued'', Number (Fin 3))]),
     eo_retryable = None\<rparr>"
  have "sanitizeMembers 1 [(js ''apiKey'', Text (js ''x'')), (js ''queued'', Number (Fin 3))] =
      [(js ''queued'', Number (Fin 3))]"
    by (simp add: secret_detail_key_def js_def starts_with_def starts_with_api_key_def fold_case_def)
  then obtain e where e: "createProtocolError (\<lambda>_. 1) EC_busy (js '' queue full '') ?o = Inr e"
    and "pe_details e = Some (Object [(js ''queued'', Number (Fin 3))])"
    by (simp add: createProtocolError_def validateRetryMetadata_def isRetryableErrorCode_def
        RETRYABLE_ERROR_CODES_def boundedDetails_def MAX_PROTOCOL_ERROR_DETAILS_BYTES_def
        jsonStringByteLength_def js_def)
  then show ?thesis
    using createProtocolError_wire_safe [OF e] by auto
qed

text \<open>C0: \<open>createProtocolError\<close> throws in exactly three situations: the caller's classification
  contradicts the code, the retry delay is not a finite positive number, or a delay is given
  for a permanent error.\<close>

theorem createProtocolError_throws_iff:
  "(\<exists>x. createProtocolError numlen code message options = Inl x) \<longleftrightarrow>
    (eo_retryable options = Some (\<not> (code = EC_busy \<or> code = EC_unreachable)) \<or>
     (\<exists>n. eo_retryAfterMs options = Some n \<and>
        (\<not> is_finite n \<or> n \<le> Fin 0 \<or> \<not> (code = EC_busy \<or> code = EC_unreachable))))"
  by (cases "eo_retryable options"; cases "eo_retryAfterMs options")
     (auto simp: createProtocolError_def validateRetryMetadata_def isRetryableErrorCode_def
      RETRYABLE_ERROR_CODES_def Let_def)

theorem createProtocolError_throws_iff_witness:
  "(\<exists>x. createProtocolError (\<lambda>_. 1) EC_expired (js ''late'')
      (no_error_options\<lparr>eo_retryAfterMs := Some (Fin 5)\<rparr>) = Inl x) \<and>
   \<not> (\<exists>x. createProtocolError (\<lambda>_. 1) EC_busy (js ''full'')
      (no_error_options\<lparr>eo_retryAfterMs := Some (Fin 5)\<rparr>) = Inl x)"
  unfolding createProtocolError_throws_iff by (simp add: no_error_options_def)

lemma protocol_error_createProtocolError:
  "createProtocolError count_len code (js message) (no_error_options\<lparr>eo_details := details\<rparr>) =
   Inr (protocol_error code message details)"
  by (simp add: createProtocolError_def validateRetryMetadata_def no_error_options_def
      protocol_error_def Let_def)

lemma protocol_error_fields [simp]:
  "pe_code (protocol_error code message details) = code"
  "pe_retryable (protocol_error code message details) = isRetryableErrorCode code"
  "pe_retryAfterMs (protocol_error code message details) = None"
  by (simp_all add: protocol_error_def)

end
