(* ===== verification/Task_State.thy ===== *)
theory Task_State
  imports Prelude
begin

text \<open>
  The task life cycle (\<open>src/protocol/task-state.ts\<close>): the ten states, the table of legal
  transitions and the terminal states, with the facts every store of tasks relies on: a
  terminal state has no way out, a non-terminal one can always expire, and the table is
  acyclic, so a task makes at most five transitions.
\<close>

section \<open>States\<close>

datatype task_state =
    St_created | St_accepted | St_queued | St_working | St_cancelling
  | St_completed | St_failed | St_rejected | St_cancelled | St_expired

definition TASK_STATES :: "task_state list" where
  "TASK_STATES = [St_created, St_accepted, St_queued, St_working, St_cancelling,
     St_completed, St_failed, St_rejected, St_cancelled, St_expired]"

definition TERMINAL_OUTCOMES :: "task_state list" where
  "TERMINAL_OUTCOMES = [St_completed, St_failed, St_rejected, St_cancelled, St_expired]"

fun TASK_STATE_TRANSITIONS :: "task_state \<Rightarrow> task_state list" where
  "TASK_STATE_TRANSITIONS St_created = [St_accepted, St_rejected, St_expired]"
| "TASK_STATE_TRANSITIONS St_accepted =
     [St_queued, St_working, St_rejected, St_cancelling, St_cancelled, St_expired]"
| "TASK_STATE_TRANSITIONS St_queued =
     [St_working, St_rejected, St_cancelling, St_cancelled, St_expired]"
| "TASK_STATE_TRANSITIONS St_working =
     [St_completed, St_failed, St_rejected, St_cancelling, St_expired]"
| "TASK_STATE_TRANSITIONS St_cancelling = [St_cancelled, St_completed, St_failed, St_expired]"
| "TASK_STATE_TRANSITIONS St_completed = []"
| "TASK_STATE_TRANSITIONS St_failed = []"
| "TASK_STATE_TRANSITIONS St_rejected = []"
| "TASK_STATE_TRANSITIONS St_cancelled = []"
| "TASK_STATE_TRANSITIONS St_expired = []"

definition canTransitionTaskState :: "task_state \<Rightarrow> task_state \<Rightarrow> bool" where
  "canTransitionTaskState from_state to_state \<longleftrightarrow>
     to_state \<in> set (TASK_STATE_TRANSITIONS from_state)"

definition isTerminalTaskState :: "task_state \<Rightarrow> bool" where
  "isTerminalTaskState state \<longleftrightarrow> list_ex (\<lambda>outcome. outcome = state) TERMINAL_OUTCOMES"

section \<open>The shape of the life cycle\<close>

lemma terminal_simps [simp]:
  "\<not> isTerminalTaskState St_created" "\<not> isTerminalTaskState St_accepted"
  "\<not> isTerminalTaskState St_queued" "\<not> isTerminalTaskState St_working"
  "\<not> isTerminalTaskState St_cancelling"
  "isTerminalTaskState St_completed" "isTerminalTaskState St_failed"
  "isTerminalTaskState St_rejected" "isTerminalTaskState St_cancelled"
  "isTerminalTaskState St_expired"
  by (simp_all add: isTerminalTaskState_def TERMINAL_OUTCOMES_def)

lemma terminal_no_transition:
  "canTransitionTaskState a b \<Longrightarrow> \<not> isTerminalTaskState a"
  by (cases a) (auto simp: canTransitionTaskState_def)

lemma can_expire: "\<not> isTerminalTaskState a \<Longrightarrow> canTransitionTaskState a St_expired"
  by (cases a) (auto simp: canTransitionTaskState_def)

lemma expire_transition_iff [simp]:
  "canTransitionTaskState a St_expired \<longleftrightarrow> \<not> isTerminalTaskState a"
  using can_expire terminal_no_transition by blast

text \<open>How many transitions a state can still make.\<close>

fun transitions_left :: "task_state \<Rightarrow> nat" where
  "transitions_left St_created = 5"
| "transitions_left St_accepted = 4"
| "transitions_left St_queued = 3"
| "transitions_left St_working = 2"
| "transitions_left St_cancelling = 1"
| "transitions_left _ = 0"

lemma transition_decreases:
  "canTransitionTaskState a b \<Longrightarrow> transitions_left b < transitions_left a"
  by (cases a) (auto simp: canTransitionTaskState_def)

text \<open>Later states of a task: zero or more legal transitions.\<close>

inductive later_state :: "task_state \<Rightarrow> task_state \<Rightarrow> bool" where
  same: "later_state a a"
| advance: "canTransitionTaskState a b \<Longrightarrow> later_state b c \<Longrightarrow> later_state a c"

inductive_cases later_state_cases: "later_state a c"

lemma later_state_one: "canTransitionTaskState a b \<Longrightarrow> later_state a b"
  by (blast intro: later_state.intros)

lemma later_state_trans: "later_state a b \<Longrightarrow> later_state b c \<Longrightarrow> later_state a c"
  by (induction rule: later_state.induct) (auto intro: later_state.intros)

lemma later_state_terminal: "later_state a b \<Longrightarrow> isTerminalTaskState a \<Longrightarrow> b = a"
  by (auto elim: later_state_cases dest: terminal_no_transition)

lemma later_state_left: "later_state a b \<Longrightarrow> transitions_left b \<le> transitions_left a"
  by (induction rule: later_state.induct) (auto dest: transition_decreases)

lemma later_state_antisym: "later_state a b \<Longrightarrow> later_state b a \<Longrightarrow> a = b"
  by (metis later_state_cases later_state_left leD order.trans transition_decreases)

interpretation life_cycle: step_contract later_state
  by unfold_locales (blast intro: later_state.intros later_state_trans)+

fun legal_run :: "task_state \<Rightarrow> task_state list \<Rightarrow> bool" where
  "legal_run a [] = True"
| "legal_run a (b # bs) = (canTransitionTaskState a b \<and> legal_run b bs)"

text \<open>C28: The life cycle is bounded and never stuck: a run of legal transitions from any state
  has at most five steps and never returns to its start; the states it cannot leave are exactly the
  terminal outcomes; and every other state can expire at once.\<close>

theorem task_life_cycle_bounded:
  "(legal_run a bs \<longrightarrow> length bs \<le> 5 \<and> a \<notin> set bs) \<and>
   (isTerminalTaskState a \<longleftrightarrow> (\<forall>b. \<not> canTransitionTaskState a b)) \<and>
   (\<not> isTerminalTaskState a \<longrightarrow> canTransitionTaskState a St_expired)"
proof -
  have left: "legal_run a bs \<Longrightarrow> length bs \<le> transitions_left a \<and>
      (\<forall>b \<in> set bs. transitions_left b < transitions_left a)" for a bs
  proof (induction bs arbitrary: a)
    case (Cons b bs)
    then show ?case using transition_decreases [of a b] by fastforce
  qed simp
  moreover have "transitions_left a \<le> 5" by (cases a) auto
  ultimately show ?thesis
    using terminal_no_transition can_expire by (metis nat_less_le order_trans)
qed

theorem task_life_cycle_bounded_witness:
  "legal_run St_created [St_accepted, St_queued, St_working, St_cancelling, St_expired] \<and>
   length [St_accepted, St_queued, St_working, St_cancelling, St_expired] \<le> 5"
  using task_life_cycle_bounded
    [of St_created "[St_accepted, St_queued, St_working, St_cancelling, St_expired]"]
  by (simp add: canTransitionTaskState_def)

end
