(* ===== verification/Frame_Codec.thy ===== *)
theory Frame_Codec
  imports Prelude "HOL-Library.Word"
begin

text \<open>
  The frame format of the local transport (\<open>src/transport/frame-codec.ts\<close>): the encoder and the
  incremental decoder, written with its buffers, counters and failure latch.  The decoder is
  related to a specification on the whole byte sequence, so its result does not depend on how
  the stream is cut into chunks.  The texts of the error messages are left out; their codes
  and structured details are kept.
\<close>

section \<open>Data\<close>

type_synonym u8 = "8 word"
type_synonym bytes = "u8 list"

definition FRAME_HEADER_BYTES :: nat where
  "FRAME_HEADER_BYTES = 4"

definition MAX_UINT32 :: nat where
  "MAX_UINT32 = 0xffffffff"

definition DEFAULT_MAX_PAYLOAD_BYTES :: nat where
  "DEFAULT_MAX_PAYLOAD_BYTES = 1024 * 1024"

datatype frame_code =
    Invalid_max_payload | Invalid_payload | Invalid_chunk
  | Oversized_frame | Truncated_frame | Trailing_data

record frame_error =
  fe_code :: frame_code
  fe_declaredLength :: "nat option"
  fe_maxPayloadBytes :: "nat option"
  fe_receivedBytes :: "nat option"

definition frame_error_of :: "frame_code \<Rightarrow> frame_error" where
  "frame_error_of code = \<lparr>fe_code = code, fe_declaredLength = None,
     fe_maxPayloadBytes = None, fe_receivedBytes = None\<rparr>"

text \<open>The options of encoder and decoder: absent, a bare number, or an object.\<close>

datatype frame_options = No_options | Limit jsnum | Options "jsnum option"

definition normalizeMaxPayloadBytes :: "frame_options \<Rightarrow> frame_error + nat" where
  "normalizeMaxPayloadBytes options =
     (let configured = (case options of
          Limit n \<Rightarrow> n
        | Options (Some n) \<Rightarrow> n
        | _ \<Rightarrow> Fin (of_nat DEFAULT_MAX_PAYLOAD_BYTES))
      in if \<not> is_safe_integer configured \<or> configured < Fin 0 \<or>
            Fin (of_nat MAX_UINT32) < configured
         then Inl (frame_error_of Invalid_max_payload)
         else Inr (nat \<lfloor>fin_val configured\<rfloor>))"

section \<open>Buffers\<close>

definition buffer_alloc :: "nat \<Rightarrow> bytes" where
  "buffer_alloc n = replicate n 0"

definition buffer_set :: "bytes \<Rightarrow> bytes \<Rightarrow> nat \<Rightarrow> bytes" where
  "buffer_set buffer source offset =
     take offset buffer @ source @ drop (offset + length source) buffer"

definition subarray :: "bytes \<Rightarrow> nat \<Rightarrow> nat \<Rightarrow> bytes" where
  "subarray bs i j = take (j - i) (drop i bs)"

definition uint32_be :: "nat \<Rightarrow> bytes" where
  "uint32_be n = [word_of_nat (n div 2 ^ 24), word_of_nat (n div 2 ^ 16),
     word_of_nat (n div 2 ^ 8), word_of_nat n]"

fun readUInt32BE :: "bytes \<Rightarrow> nat" where
  "readUInt32BE (a # b # c # d # _) = ((unat a * 256 + unat b) * 256 + unat c) * 256 + unat d"
| "readUInt32BE _ = 0"

section \<open>Encoding\<close>

text \<open>A payload that is not a byte array is \<open>None\<close>.\<close>

definition encodeFrame :: "bytes option \<Rightarrow> frame_options \<Rightarrow> frame_error + bytes" where
  "encodeFrame payload options =
     (case payload of
        None \<Rightarrow> Inl (frame_error_of Invalid_payload)
      | Some bs \<Rightarrow>
          (case normalizeMaxPayloadBytes options of
             Inl e \<Rightarrow> Inl e
           | Inr maxPayloadBytes \<Rightarrow>
               if length bs > maxPayloadBytes
               then Inl ((frame_error_of Oversized_frame)
                      \<lparr>fe_declaredLength := Some (length bs),
                       fe_maxPayloadBytes := Some maxPayloadBytes\<rparr>)
               else
                 (let frame = buffer_alloc (FRAME_HEADER_BYTES + length bs);
                      frame = buffer_set frame (uint32_be (length bs)) 0
                  in Inr (buffer_set frame bs FRAME_HEADER_BYTES))))"

section \<open>The incremental decoder\<close>

record frame_decoder =
  maxPayloadBytes :: nat
  header :: bytes
  headerBytes :: nat
  body :: "bytes option"
  bodyBytes :: nat
  declaredLength :: "nat option"
  completedPayload :: "bytes option"
  failure :: "frame_error option"

definition new_decoder :: "frame_options \<Rightarrow> frame_error + frame_decoder" where
  "new_decoder options =
     (case normalizeMaxPayloadBytes options of
        Inl e \<Rightarrow> Inl e
      | Inr n \<Rightarrow> Inr \<lparr>maxPayloadBytes = n, header = buffer_alloc FRAME_HEADER_BYTES,
          headerBytes = 0, body = None, bodyBytes = 0, declaredLength = None,
          completedPayload = None, failure = None\<rparr>)"

definition receivedBytes :: "frame_decoder \<Rightarrow> nat" where
  "receivedBytes d = headerBytes d + bodyBytes d"

text \<open>A step of the decoder leaves a decoder and throws an error or returns a payload, if any.\<close>

type_synonym push_result = "(frame_error + bytes option) \<times> frame_decoder"

definition fail_with :: "frame_error \<Rightarrow> frame_decoder \<Rightarrow> push_result" where
  "fail_with e d = (Inl e, d\<lparr>failure := Some e\<rparr>)"

definition trailing_error :: "frame_decoder \<Rightarrow> frame_error" where
  "trailing_error d = (frame_error_of Trailing_data)\<lparr>fe_receivedBytes := Some (receivedBytes d)\<rparr>"

text \<open>Filling the body from the chunk; \<open>None\<close> in the last place means that the loop goes on.\<close>

definition copy_body :: "bytes \<Rightarrow> nat \<Rightarrow> frame_decoder \<Rightarrow> push_result + (frame_decoder \<times> nat)" where
  "copy_body bs offset d =
     (case (body d, declaredLength d) of
        (Some buffer, Some declared) \<Rightarrow>
          (let bodyBytesToCopy = min (declared - bodyBytes d) (length bs - offset);
               buffer = buffer_set buffer (subarray bs offset (offset + bodyBytesToCopy)) (bodyBytes d);
               d = d\<lparr>body := Some buffer, bodyBytes := bodyBytes d + bodyBytesToCopy\<rparr>;
               offset = offset + bodyBytesToCopy
           in if bodyBytes d = declared
              then (let d = d\<lparr>completedPayload := Some buffer\<rparr>
                    in Inl (if offset < length bs then fail_with (trailing_error d) d
                            else (Inr (Some buffer), d)))
              else Inr (d, offset))
      | _ \<Rightarrow> Inl (fail_with (frame_error_of Truncated_frame) d))"

text \<open>Filling the header; when it is complete the declared length is checked before the body
  buffer is allocated.\<close>

definition copy_header :: "bytes \<Rightarrow> nat \<Rightarrow> frame_decoder \<Rightarrow> push_result + (frame_decoder \<times> nat)" where
  "copy_header bs offset d =
     (let headerBytesToCopy = min (FRAME_HEADER_BYTES - headerBytes d) (length bs - offset);
          d = d\<lparr>header := buffer_set (header d)
                  (subarray bs offset (offset + headerBytesToCopy)) (headerBytes d),
                headerBytes := headerBytes d + headerBytesToCopy\<rparr>;
          offset = offset + headerBytesToCopy
      in if headerBytes d < FRAME_HEADER_BYTES then Inl (Inr None, d)
         else
           (let declared = readUInt32BE (header d);
                d = d\<lparr>declaredLength := Some declared\<rparr>
            in if declared > maxPayloadBytes d
               then Inl (fail_with ((frame_error_of Oversized_frame)
                      \<lparr>fe_declaredLength := Some declared,
                       fe_maxPayloadBytes := Some (maxPayloadBytes d)\<rparr>) d)
               else
                 (let buffer = buffer_alloc declared; d = d\<lparr>body := Some buffer\<rparr>
                  in if declared = 0
                     then (let d = d\<lparr>completedPayload := Some buffer\<rparr>
                           in Inl (if offset < length bs then fail_with (trailing_error d) d
                                   else (Inr (Some buffer), d)))
                     else Inr (d, offset))))"

text \<open>The loop of \<open>push\<close>; \<open>None\<close> would mean that it does not end.\<close>

partial_function (option) push_loop :: "bytes \<Rightarrow> nat \<Rightarrow> frame_decoder \<Rightarrow> push_result option" where
  "push_loop bs offset d =
     (if \<not> offset < length bs then Some (Inr None, d)
      else
        (case (if headerBytes d < FRAME_HEADER_BYTES then copy_header bs offset d
               else Inr (d, offset)) of
           Inl result \<Rightarrow> Some result
         | Inr (d', offset') \<Rightarrow>
             (case copy_body bs offset' d' of
                Inl result \<Rightarrow> Some result
              | Inr (d'', offset'') \<Rightarrow> push_loop bs offset'' d'')))"

definition push :: "bytes option \<Rightarrow> frame_decoder \<Rightarrow> push_result option" where
  "push chunk d =
     (case failure d of
        Some e \<Rightarrow> Some (Inl e, d)
      | None \<Rightarrow>
          (case chunk of
             None \<Rightarrow> Some (Inl (frame_error_of Invalid_chunk), d)
           | Some bs \<Rightarrow>
               (case completedPayload d of
                  Some _ \<Rightarrow>
                    Some (if length bs \<noteq> 0 then fail_with (trailing_error d) d else (Inr None, d))
                | None \<Rightarrow> push_loop bs 0 d)))"

definition finish :: "frame_decoder \<Rightarrow> (frame_error + bytes) \<times> frame_decoder" where
  "finish d =
     (case failure d of
        Some e \<Rightarrow> (Inl e, d)
      | None \<Rightarrow>
          (case completedPayload d of
             Some p \<Rightarrow> (Inr p, d)
           | None \<Rightarrow>
               (let e = (frame_error_of Truncated_frame)\<lparr>fe_receivedBytes := Some (receivedBytes d)\<rparr>
                in (Inl e, d\<lparr>failure := Some e\<rparr>))))"

definition decodeFrame :: "bytes option \<Rightarrow> frame_options \<Rightarrow> (frame_error + bytes) option" where
  "decodeFrame encoded options =
     (case new_decoder options of
        Inl e \<Rightarrow> Some (Inl e)
      | Inr d \<Rightarrow>
          (case push encoded d of
             None \<Rightarrow> None
           | Some (Inl e, _) \<Rightarrow> Some (Inl e)
           | Some (Inr _, d') \<Rightarrow> Some (fst (finish d'))))"

text \<open>A stream is pushed chunk by chunk until a push throws, and then finished.\<close>

fun push_all :: "bytes list \<Rightarrow> frame_decoder \<Rightarrow> ((frame_error + unit) \<times> frame_decoder) option" where
  "push_all [] d = Some (Inr (), d)"
| "push_all (c # cs) d =
     (case push (Some c) d of
        None \<Rightarrow> None
      | Some (Inl e, d') \<Rightarrow> Some (Inl e, d')
      | Some (Inr _, d') \<Rightarrow> push_all cs d')"

definition decode_stream :: "bytes list \<Rightarrow> frame_decoder \<Rightarrow> (frame_error + bytes) option" where
  "decode_stream chunks d =
     (case push_all chunks d of
        None \<Rightarrow> None
      | Some (Inl e, _) \<Rightarrow> Some (Inl e)
      | Some (Inr _, d') \<Rightarrow> Some (fst (finish d')))"

section \<open>Specification on the whole byte sequence\<close>

datatype frame_status = Incomplete | Complete bytes | Rejected frame_error

definition oversized_error :: "nat \<Rightarrow> nat \<Rightarrow> frame_error" where
  "oversized_error n limit = (frame_error_of Oversized_frame)
     \<lparr>fe_declaredLength := Some n, fe_maxPayloadBytes := Some limit\<rparr>"

definition frame_status :: "nat \<Rightarrow> bytes \<Rightarrow> frame_status" where
  "frame_status limit bs =
     (if length bs < 4 then Incomplete
      else let n = readUInt32BE bs in
        if n > limit then Rejected (oversized_error n limit)
        else if length bs < 4 + n then Incomplete
        else if length bs = 4 + n then Complete (drop 4 bs)
        else Rejected ((frame_error_of Trailing_data)\<lparr>fe_receivedBytes := Some (4 + n)\<rparr>))"

text \<open>The decoder has accepted exactly the bytes \<open>bs\<close>.\<close>

definition holds_bytes :: "frame_decoder \<Rightarrow> bytes \<Rightarrow> bool" where
  "holds_bytes d bs \<longleftrightarrow> failure d = None \<and> headerBytes d = min 4 (length bs) \<and>
     header d = take 4 bs @ replicate (4 - length bs) 0 \<and>
     (if length bs < 4
      then declaredLength d = None \<and> body d = None \<and> bodyBytes d = 0 \<and> completedPayload d = None
      else readUInt32BE bs \<le> maxPayloadBytes d \<and> length bs \<le> 4 + readUInt32BE bs \<and>
        declaredLength d = Some (readUInt32BE bs) \<and> bodyBytes d = length bs - 4 \<and>
        body d = Some (drop 4 bs @ replicate (4 + readUInt32BE bs - length bs) 0) \<and>
        completedPayload d =
          (if length bs = 4 + readUInt32BE bs then Some (drop 4 bs) else None))"

definition body_bounded :: "frame_decoder \<Rightarrow> bool" where
  "body_bounded d \<longleftrightarrow> (\<forall>b. body d = Some b \<longrightarrow> length b \<le> maxPayloadBytes d)"

lemma holds_bytes_bounded: "holds_bytes d bs \<Longrightarrow> body_bounded d"
  by (auto simp: holds_bytes_def body_bounded_def split: if_splits)

lemma readUInt32BE_append: "4 \<le> length bs \<Longrightarrow> readUInt32BE (bs @ cs) = readUInt32BE bs"
  by (cases bs rule: readUInt32BE.cases) auto

lemma buffer_set_zeros:
  "length s \<le> k \<Longrightarrow> buffer_set (bs @ replicate k 0) s (length bs) = bs @ s @ replicate (k - length s) 0"
  by (simp add: buffer_set_def)

lemma new_decoder_holds:
  "new_decoder options = Inr d \<Longrightarrow> holds_bytes d []"
  by (auto simp: new_decoder_def holds_bytes_def buffer_alloc_def FRAME_HEADER_BYTES_def
      split: sum.splits)

lemma copy_body_step:
  assumes d: "holds_bytes d bs" and len: "4 \<le> length bs" "length bs < 4 + readUInt32BE bs"
    and off: "offset \<le> length c"
  defines "rest \<equiv> drop offset c"
  shows "case frame_status (maxPayloadBytes d) (bs @ rest) of
      Incomplete \<Rightarrow> (\<exists>d'. copy_body c offset d = Inr (d', length c) \<and> holds_bytes d' (bs @ rest) \<and>
        maxPayloadBytes d' = maxPayloadBytes d)
    | Complete p \<Rightarrow> (\<exists>d'. copy_body c offset d = Inl (Inr (Some p), d') \<and>
        holds_bytes d' (bs @ rest) \<and> maxPayloadBytes d' = maxPayloadBytes d)
    | Rejected e \<Rightarrow> (\<exists>d'. copy_body c offset d = Inl (Inl e, d') \<and> failure d' = Some e \<and>
        body_bounded d' \<and> maxPayloadBytes d' = maxPayloadBytes d)"
proof -
  define n where "n = readUInt32BE bs"
  define k where "k = min (4 + n - length bs) (length c - offset)"
  define s where "s = take k rest"
  have rd: "readUInt32BE (bs @ xs) = n" for xs
    using len by (simp add: readUInt32BE_append n_def)
  have lr: "length rest = length c - offset" by (simp add: rest_def)
  have ls: "length s = k" by (simp add: s_def k_def lr)
  have parts: "body d = Some (drop 4 bs @ replicate (4 + n - length bs) 0)"
    "declaredLength d = Some n" "bodyBytes d = length (drop 4 bs)" "n \<le> maxPayloadBytes d"
    "failure d = None" "headerBytes d = 4" "header d = take 4 bs" "completedPayload d = None"
    using d len by (auto simp: holds_bytes_def n_def)
  have toCopy: "min (n - length (drop 4 bs)) (length c - offset) = k"
    using len by (simp add: k_def n_def)
  have sub: "subarray c offset (offset + k) = s"
    by (simp add: subarray_def s_def rest_def)
  have set: "buffer_set (drop 4 bs @ replicate (4 + n - length bs) 0) s (length (drop 4 bs)) =
      drop 4 bs @ s @ replicate (4 + n - length bs - k) 0"
    using ls by (subst buffer_set_zeros) (auto simp: k_def)
  define buf where "buf = drop 4 bs @ s @ replicate (4 + n - length bs - k) 0"
  define d1 where "d1 = d\<lparr>body := Some buf, bodyBytes := length (drop 4 bs) + k\<rparr>"
  define d2 where "d2 = d1\<lparr>completedPayload := Some buf\<rparr>"
  have cb: "copy_body c offset d =
      (if length (drop 4 bs) + k = n
       then Inl (if offset + k < length c then fail_with (trailing_error d2) d2
                 else (Inr (Some buf), d2))
       else Inr (d1, offset + k))"
    unfolding copy_body_def Let_def parts prod.case option.case toCopy sub set
    by (simp add: d1_def d2_def buf_def)
  consider (less) "length rest < 4 + n - length bs" | (eq) "length rest = 4 + n - length bs"
    | (more) "length rest > 4 + n - length bs" by linarith
  then show ?thesis
  proof cases
    case less
    then have k: "k = length rest" "s = rest" by (auto simp: lr k_def s_def)
    have "holds_bytes d1 (bs @ rest)"
      using parts len less by (auto simp: holds_bytes_def d1_def k rd buf_def n_def [symmetric])
    moreover have "offset + k = length c" using off k lr by simp
    moreover have "length (drop 4 bs) + k \<noteq> n" using less k len n_def by simp
    ultimately show ?thesis
      using cb less len parts k
      by (auto simp: frame_status_def Let_def rd d1_def)
  next
    case eq
    then have k: "k = length rest" "s = rest" by (auto simp: lr k_def s_def)
    have "holds_bytes d2 (bs @ rest)"
      using parts len eq by (auto simp: holds_bytes_def d1_def d2_def k rd buf_def n_def [symmetric])
    moreover have "\<not> offset + k < length c" using off k lr by simp
    moreover have "length (drop 4 bs) + k = n" using eq k len n_def by simp
    moreover have "buf = drop 4 (bs @ rest)" using eq k len by (simp add: buf_def)
    ultimately show ?thesis
      using cb eq len parts k n_def
      by (auto simp: frame_status_def Let_def rd d1_def d2_def)
  next
    case more
    then have k: "k = 4 + n - length bs" by (auto simp: lr k_def)
    have "offset + k < length c" using off more k lr by simp
    moreover have "length (drop 4 bs) + k = n" using k len n_def by simp
    moreover have "receivedBytes d2 = 4 + n"
      using k len parts n_def by (simp add: receivedBytes_def d2_def d1_def)
    ultimately show ?thesis
      using cb more len parts k n_def
      by (auto simp: frame_status_def Let_def rd fail_with_def trailing_error_def body_bounded_def
          d2_def d1_def buf_def ls)
  qed
qed

lemma copy_header_step:
  assumes d: "holds_bytes d bs" and len: "length bs < 4" and off: "offset < length c"
  defines "rest \<equiv> drop offset c"
  defines "h \<equiv> take (4 - length bs) rest"
  shows "if length bs + length rest < 4
    then \<exists>d'. copy_header c offset d = Inl (Inr None, d') \<and> holds_bytes d' (bs @ rest) \<and>
      maxPayloadBytes d' = maxPayloadBytes d
    else if readUInt32BE (bs @ h) > maxPayloadBytes d
    then \<exists>d'. copy_header c offset d =
        Inl (Inl (oversized_error (readUInt32BE (bs @ h)) (maxPayloadBytes d)), d') \<and>
      failure d' = Some (oversized_error (readUInt32BE (bs @ h)) (maxPayloadBytes d)) \<and>
      body_bounded d' \<and> maxPayloadBytes d' = maxPayloadBytes d
    else if readUInt32BE (bs @ h) = 0
    then (if length rest = length h
          then \<exists>d'. copy_header c offset d = Inl (Inr (Some []), d') \<and> holds_bytes d' (bs @ rest) \<and>
            maxPayloadBytes d' = maxPayloadBytes d
          else \<exists>d'. copy_header c offset d =
              Inl (Inl ((frame_error_of Trailing_data)\<lparr>fe_receivedBytes := Some 4\<rparr>), d') \<and>
            failure d' = Some ((frame_error_of Trailing_data)\<lparr>fe_receivedBytes := Some 4\<rparr>) \<and>
            body_bounded d' \<and> maxPayloadBytes d' = maxPayloadBytes d)
    else \<exists>d'. copy_header c offset d = Inr (d', offset + length h) \<and> holds_bytes d' (bs @ h) \<and>
      maxPayloadBytes d' = maxPayloadBytes d"
proof -
  define k where "k = min (4 - length bs) (length c - offset)"
  have lr: "length rest = length c - offset" by (simp add: rest_def)
  have lh: "length h = k" by (simp add: h_def k_def lr)
  have parts: "failure d = None" "headerBytes d = length bs"
    "header d = bs @ replicate (4 - length bs) 0" "declaredLength d = None" "body d = None"
    "bodyBytes d = 0" "completedPayload d = None"
    using d len by (auto simp: holds_bytes_def)
  have sub: "subarray c offset (offset + k) = h"
    by (simp add: subarray_def h_def k_def rest_def min_def)
  have set: "buffer_set (bs @ replicate (4 - length bs) 0) h (length bs) =
      bs @ h @ replicate (4 - length bs - k) 0"
    using lh by (subst buffer_set_zeros) (auto simp: k_def)
  define d1 where "d1 = d\<lparr>header := bs @ h @ replicate (4 - length bs - k) 0,
      headerBytes := length bs + k\<rparr>"
  define d2 where "d2 = d1\<lparr>declaredLength := Some (readUInt32BE (header d1))\<rparr>"
  define d3 where "d3 = d2\<lparr>body := Some (buffer_alloc (readUInt32BE (header d1)))\<rparr>"
  define d4 where "d4 = d3\<lparr>completedPayload := Some (buffer_alloc (readUInt32BE (header d1)))\<rparr>"
  have ch: "copy_header c offset d =
      (if length bs + k < 4 then Inl (Inr None, d1)
       else if readUInt32BE (header d1) > maxPayloadBytes d
       then Inl (fail_with (oversized_error (readUInt32BE (header d1)) (maxPayloadBytes d)) d2)
       else if readUInt32BE (header d1) = 0
       then Inl (if offset + k < length c then fail_with (trailing_error d4) d4
                 else (Inr (Some (buffer_alloc (readUInt32BE (header d1)))), d4))
       else Inr (d3, offset + k))"
    unfolding copy_header_def Let_def FRAME_HEADER_BYTES_def parts k_def [symmetric] sub set
    by (simp add: d1_def d2_def d3_def d4_def oversized_error_def)
  show ?thesis
  proof (cases "length bs + length rest < 4")
    case True
    then have k: "k = length rest" "h = rest" by (auto simp: lr k_def h_def)
    have "holds_bytes d1 (bs @ rest)"
      using parts True by (auto simp: holds_bytes_def d1_def k)
    then show ?thesis
      using ch True by (auto simp: k d1_def)
  next
    case False
    then have k: "length bs + k = 4" using len lr by (auto simp: k_def)
    then have hd: "header d1 = bs @ h" by (simp add: d1_def)
    let ?n = "readUInt32BE (bs @ h)"
    have rec: "receivedBytes d4 = 4"
      using k parts by (simp add: receivedBytes_def d4_def d3_def d2_def d1_def)
    have h3: "holds_bytes d3 (bs @ h)" if "?n \<noteq> 0" "?n \<le> maxPayloadBytes d"
      using that k parts lh len
      by (simp add: holds_bytes_def d3_def d2_def d1_def hd buffer_alloc_def)
    have h4: "holds_bytes d4 (bs @ h)" if "?n = 0"
      using that k parts lh len
      by (simp add: holds_bytes_def d4_def d3_def d2_def d1_def hd buffer_alloc_def)
    have eq: "offset + k < length c \<longleftrightarrow> length rest \<noteq> length h" "length rest = length h \<Longrightarrow> rest = h"
      using off by (auto simp: lr lh k_def h_def)
    show ?thesis
      using ch k hd rec h3 h4 eq lh False
      by (auto simp: fail_with_def trailing_error_def buffer_alloc_def d4_def d3_def d2_def d1_def
          body_bounded_def parts)
  qed
qed


text \<open>One push: the loop ends in its first round, and the outcome is that of the specification
  on the bytes accepted so far.\<close>

lemma push_loop_exit: "\<not> offset < length c \<Longrightarrow> push_loop c offset d = Some (Inr None, d)"
  by (simp add: push_loop.simps)

definition push_agrees :: "frame_decoder \<Rightarrow> bytes \<Rightarrow> push_result option \<Rightarrow> bool" where
  "push_agrees d bs r \<longleftrightarrow>
     (case frame_status (maxPayloadBytes d) bs of
        Rejected e \<Rightarrow> (\<exists>d'. r = Some (Inl e, d') \<and> failure d' = Some e \<and> body_bounded d' \<and>
          maxPayloadBytes d' = maxPayloadBytes d)
      | Complete p \<Rightarrow> (\<exists>v d'. r = Some (Inr v, d') \<and> v \<in> {None, Some p} \<and> holds_bytes d' bs \<and>
          maxPayloadBytes d' = maxPayloadBytes d)
      | Incomplete \<Rightarrow> (\<exists>d'. r = Some (Inr None, d') \<and> holds_bytes d' bs \<and>
          maxPayloadBytes d' = maxPayloadBytes d))"

lemma push_loop_body:
  assumes d: "holds_bytes d bs" and len: "4 \<le> length bs" "length bs < 4 + readUInt32BE bs"
    and off: "offset \<le> length c"
  shows "push_agrees d (bs @ drop offset c)
    (case copy_body c offset d of Inl r \<Rightarrow> Some r | Inr (d', k) \<Rightarrow> push_loop c k d')"
  using copy_body_step [OF assms]
  by (auto simp: push_agrees_def push_loop_exit split: frame_status.splits)

lemma push_loop_agrees:
  assumes d: "holds_bytes d bs" and open_: "length bs < 4 \<or> length bs < 4 + readUInt32BE bs"
    and ne: "c \<noteq> []"
  shows "push_agrees d (bs @ c) (push_loop c 0 d)"
proof (cases "length bs < 4")
  case False
  then have "headerBytes d = 4" using d by (simp add: holds_bytes_def)
  then have "push_loop c 0 d =
      (case copy_body c 0 d of Inl r \<Rightarrow> Some r | Inr (d', k) \<Rightarrow> push_loop c k d')"
    using ne by (subst push_loop.simps) (simp add: FRAME_HEADER_BYTES_def)
  with push_loop_body [OF d, of 0 c] False open_ show ?thesis by simp
next
  case True
  then have hb: "headerBytes d < FRAME_HEADER_BYTES"
    using d by (simp add: holds_bytes_def FRAME_HEADER_BYTES_def)
  define h where "h = take (4 - length bs) c"
  have pl: "push_loop c 0 d = (case copy_header c 0 d of Inl r \<Rightarrow> Some r
      | Inr (d', k) \<Rightarrow> (case copy_body c k d' of Inl r \<Rightarrow> Some r | Inr (d'', j) \<Rightarrow> push_loop c j d''))"
    using ne hb by (subst push_loop.simps) simp
  have c: "c = h @ drop (length h) c" by (simp add: h_def min_def)
  note step = copy_header_step [OF d True, of 0 c, unfolded drop_0 add_0, folded h_def]
  show ?thesis
  proof (cases "length bs + length c < 4")
    case True
    with step ne show ?thesis
      by (auto simp: pl push_agrees_def frame_status_def h_def)
  next
    case False
    let ?n = "readUInt32BE (bs @ h)"
    have l4: "length (bs @ h) = 4" using True False by (simp add: h_def)
    have rd: "readUInt32BE (bs @ c) = ?n"
      using readUInt32BE_append [of "bs @ h" "drop (length h) c"] l4 c by simp
    have lc: "length c \<ge> length h" by (simp add: h_def)
    show ?thesis
    proof (cases "?n \<le> maxPayloadBytes d \<and> ?n \<noteq> 0")
      case True
      then obtain d' where d': "copy_header c 0 d = Inr (d', length h)" "holds_bytes d' (bs @ h)"
        "maxPayloadBytes d' = maxPayloadBytes d"
        using step False ne by (auto simp: h_def)
      have "push_agrees d' ((bs @ h) @ drop (length h) c) (push_loop c 0 d)"
        using push_loop_body [OF d'(2), of "length h" c] l4 True lc by (simp add: pl d'(1))
      then show ?thesis
        unfolding push_agrees_def d'(3) append_assoc c [symmetric] .
    next
      case no: False
      have lbc: "length (bs @ c) = 4 + (length c - length h)" using l4 lc by simp
      have l4c: "\<not> length (bs @ c) < 4" and nb: "\<not> (length bs + length c < 4)"
        using False by auto
      consider (over) "?n > maxPayloadBytes d" | (exact) "?n \<le> maxPayloadBytes d" "?n = 0" "length c = length h"
        | (more) "?n \<le> maxPayloadBytes d" "?n = 0" "length c \<noteq> length h"
        using no by linarith
      then show ?thesis
      proof cases
        case over
        then have st: "frame_status (maxPayloadBytes d) (bs @ c) =
            Rejected (oversized_error ?n (maxPayloadBytes d))"
          using l4c by (simp add: frame_status_def rd)
        show ?thesis
          unfolding push_agrees_def st using step nb ne over by (auto simp: pl)
      next
        case exact
        then have "bs @ c = bs @ h" using c by simp
        then have st: "frame_status (maxPayloadBytes d) (bs @ c) = Complete []"
          using exact l4 by (simp add: frame_status_def)
        have "h \<noteq> []" using l4 \<open>length bs < 4\<close> by auto
        then show ?thesis
          unfolding push_agrees_def st using step nb ne exact by (auto simp: pl)
      next
        case more
        then have st: "frame_status (maxPayloadBytes d) (bs @ c) =
            Rejected ((frame_error_of Trailing_data)\<lparr>fe_receivedBytes := Some 4\<rparr>)"
          using l4c lbc lc by (simp add: frame_status_def rd)
        show ?thesis
          unfolding push_agrees_def st using step nb ne more by (auto simp: pl)
      qed
    qed
  qed
qed

lemma holds_bytes_status:
  "holds_bytes d bs \<Longrightarrow> completedPayload d = None \<Longrightarrow>
     frame_status (maxPayloadBytes d) bs = Incomplete \<and>
     (length bs < 4 \<or> length bs < 4 + readUInt32BE bs)"
  "holds_bytes d bs \<Longrightarrow> completedPayload d = Some p \<Longrightarrow>
     frame_status (maxPayloadBytes d) bs = Complete p \<and> 4 \<le> length bs \<and>
     length bs = 4 + readUInt32BE bs \<and> receivedBytes d = length bs"
  by (auto simp: holds_bytes_def frame_status_def Let_def receivedBytes_def split: if_splits)

lemma push_step: "holds_bytes d bs \<Longrightarrow> push_agrees d (bs @ c) (push (Some c) d)"
proof -
  assume d: "holds_bytes d bs"
  then have f: "failure d = None" by (simp add: holds_bytes_def)
  show ?thesis
  proof (cases "completedPayload d")
    case None
    show ?thesis
    proof (cases "c = []")
      case True
      then show ?thesis
        using d f None holds_bytes_status(1) [OF d None]
        by (simp add: push_def push_loop_exit push_agrees_def)
    next
      case False
      then show ?thesis
        using d f None holds_bytes_status(1) [OF d None] push_loop_agrees [OF d]
        by (simp add: push_def)
    qed
  next
    case (Some p)
    note st = holds_bytes_status(2) [OF d Some]
    show ?thesis
    proof (cases "c = []")
      case True
      then show ?thesis using d f Some st by (simp add: push_def push_agrees_def)
    next
      case False
      have "readUInt32BE (bs @ c) = readUInt32BE bs" "readUInt32BE bs \<le> maxPayloadBytes d"
        using st d by (auto simp: readUInt32BE_append holds_bytes_def)
      then show ?thesis using f Some st False holds_bytes_bounded [OF d]
        by (auto simp: push_def push_agrees_def frame_status_def Let_def fail_with_def
            trailing_error_def body_bounded_def)
    qed
  qed
qed


text \<open>Once rejected, a stream stays rejected, whatever follows.\<close>

lemma frame_status_rejected_stable:
  "frame_status limit bs = Rejected e \<Longrightarrow> frame_status limit (bs @ cs) = Rejected e"
  by (auto simp: frame_status_def Let_def readUInt32BE_append split: if_splits)

lemma push_all_step:
  assumes "holds_bytes d bs"
  shows "case frame_status (maxPayloadBytes d) (bs @ concat cs) of
      Rejected e \<Rightarrow> (\<exists>d'. push_all cs d = Some (Inl e, d') \<and> body_bounded d' \<and>
        maxPayloadBytes d' = maxPayloadBytes d)
    | _ \<Rightarrow> (\<exists>d'. push_all cs d = Some (Inr (), d') \<and> holds_bytes d' (bs @ concat cs) \<and>
        maxPayloadBytes d' = maxPayloadBytes d)"
  using assms
proof (induction cs arbitrary: d bs)
  case Nil
  have "frame_status (maxPayloadBytes d) bs \<noteq> Rejected e" for e
    using Nil holds_bytes_status [OF Nil] by (cases "completedPayload d") auto
  with Nil show ?case by (auto split: frame_status.splits)
next
  case (Cons c cs)
  note step = push_step [OF Cons.prems, of c, unfolded push_agrees_def]
  show ?case
  proof (cases "\<exists>e. frame_status (maxPayloadBytes d) (bs @ c) = Rejected e")
    case True
    then obtain e where e: "frame_status (maxPayloadBytes d) (bs @ c) = Rejected e" by blast
    with step show ?thesis
      using frame_status_rejected_stable [OF e, of "concat cs"] by auto
  next
    case False
    then obtain v d' where d': "push (Some c) d = Some (Inr v, d')" "holds_bytes d' (bs @ c)"
      "maxPayloadBytes d' = maxPayloadBytes d"
      using step by (cases "frame_status (maxPayloadBytes d) (bs @ c)") auto
    show ?thesis
      using Cons.IH [OF d'(2)]
      unfolding d'(3) append_assoc concat.simps push_all.simps d'(1) option.case prod.case sum.case .
  qed
qed

section \<open>Round trip\<close>

definition stream_result :: "nat \<Rightarrow> bytes \<Rightarrow> frame_error + bytes" where
  "stream_result limit bs =
     (case frame_status limit bs of
        Complete p \<Rightarrow> Inr p
      | Rejected e \<Rightarrow> Inl e
      | Incomplete \<Rightarrow> Inl ((frame_error_of Truncated_frame)\<lparr>fe_receivedBytes := Some (length bs)\<rparr>))"

lemma finish_status:
  assumes d: "holds_bytes d bs"
  shows "fst (finish d) = stream_result (maxPayloadBytes d) bs"
proof (cases "completedPayload d")
  case None
  then have "receivedBytes d = length bs"
    using d by (auto simp: holds_bytes_def receivedBytes_def split: if_splits)
  with None d holds_bytes_status(1) [OF d None] show ?thesis
    by (simp add: finish_def stream_result_def holds_bytes_def Let_def)
next
  case (Some p)
  with d holds_bytes_status(2) [OF d Some] show ?thesis
    by (simp add: finish_def stream_result_def holds_bytes_def)
qed

lemma decode_stream_eq:
  assumes "new_decoder options = Inr d"
  shows "decode_stream chunks d = Some (stream_result (maxPayloadBytes d) (concat chunks))"
proof -
  from push_all_step [OF new_decoder_holds [OF assms], of chunks]
  show ?thesis
    using finish_status
    by (cases "frame_status (maxPayloadBytes d) (concat chunks)")
       (auto simp: decode_stream_def stream_result_def)
qed

lemma normalize_bound: "normalizeMaxPayloadBytes options = Inr n \<Longrightarrow> n \<le> MAX_UINT32"
  by (auto simp: normalizeMaxPayloadBytes_def Let_def MAX_UINT32_def DEFAULT_MAX_PAYLOAD_BYTES_def
      nat_le_iff floor_le_iff is_finite_iff dest!: is_safe_integer_finite
      split: if_splits frame_options.splits option.splits)

lemma readUInt32BE_uint32_be: "n < 2 ^ 32 \<Longrightarrow> readUInt32BE (uint32_be n @ bs) = n"
proof -
  assume "n < 2 ^ 32"
  then have "n div 2 ^ 24 < 256" by simp
  moreover have "n div 2 ^ 16 = n div 256 div 256" "n div 2 ^ 24 = n div 256 div 256 div 256"
    by (simp_all flip: div_mult2_eq)
  ultimately show ?thesis
    by (simp add: uint32_be_def unat_of_nat)
qed

lemma encodeFrame_bytes:
  assumes "encodeFrame (Some p) options = Inr f"
  shows "f = uint32_be (length p) @ p \<and>
    (\<exists>n. normalizeMaxPayloadBytes options = Inr n \<and> length p \<le> n)"
  using assms
  by (auto simp: encodeFrame_def Let_def buffer_set_def buffer_alloc_def uint32_be_def
      FRAME_HEADER_BYTES_def split: sum.splits if_splits)


lemma stream_of_encoded:
  assumes "encodeFrame (Some p) options = Inr f" and "new_decoder options = Inr d"
  shows "stream_result (maxPayloadBytes d) f = Inr p"
proof -
  obtain n where f: "f = uint32_be (length p) @ p"
    and n: "normalizeMaxPayloadBytes options = Inr n" "length p \<le> n"
    using encodeFrame_bytes [OF assms(1)] by blast
  have "maxPayloadBytes d = n"
    using assms(2) n(1) by (auto simp: new_decoder_def)
  moreover have "length p < 2 ^ 32"
    using n(2) normalize_bound [OF n(1)] by (simp add: MAX_UINT32_def)
  moreover have "length (uint32_be (length p)) = 4"
    by (simp add: uint32_be_def)
  ultimately show ?thesis
    using n(2) readUInt32BE_uint32_be [of "length p" p]
    by (simp add: stream_result_def frame_status_def f)
qed

text \<open>C4: Framing round trip under any chunking: whenever a payload can be encoded under some
  limit, feeding the frame to a decoder with the same limit, cut into chunks in any way
  (empty chunks included), yields exactly the payload; so does decoding it in one piece.\<close>

theorem frame_roundtrip:
  assumes "encodeFrame (Some p) options = Inr f" and "new_decoder options = Inr d"
    and "concat chunks = f"
  shows "decode_stream chunks d = Some (Inr p) \<and> decodeFrame (Some f) options = Some (Inr p)"
proof -
  have "decode_stream chunks d = Some (Inr p)" "decode_stream [f] d = Some (Inr p)"
    using decode_stream_eq [OF assms(2)] stream_of_encoded [OF assms(1,2)] assms(3) by auto
  moreover from this(2) have "decodeFrame (Some f) options = Some (Inr p)"
    using assms(2) by (auto simp: decodeFrame_def decode_stream_def split: option.splits sum.splits)
  ultimately show ?thesis by blast
qed

theorem frame_roundtrip_witness:
  "\<exists>f d. encodeFrame (Some [7, 8]) (Limit (Fin 16)) = Inr f \<and> new_decoder (Limit (Fin 16)) = Inr d \<and>
     decode_stream [take 3 f, [], drop 3 f] d = Some (Inr [7, 8])"
proof -
  have n: "normalizeMaxPayloadBytes (Limit (Fin 16)) = Inr 16"
    by (simp add: normalizeMaxPayloadBytes_def max_safe_integer_def MAX_UINT32_def)
  obtain f where f: "encodeFrame (Some [7, 8]) (Limit (Fin 16)) = Inr f"
    by (simp add: encodeFrame_def n)
  obtain d where d: "new_decoder (Limit (Fin 16)) = Inr d"
    by (simp add: new_decoder_def n)
  have "concat [take 3 f, [], drop 3 f] = f" by simp
  from frame_roundtrip [OF f d this] f d show ?thesis by blast
qed

text \<open>C3: The decoder computes a function of the byte sequence alone.  For every stream, in
  whatever chunks, pushing always terminates, and the final result is that of the
  specification on the concatenation: the payload of a complete frame, a truncation error,
  an oversize error as soon as the header announces more than the limit, or a trailing-data
  error.\<close>

theorem frame_decoder_refines_spec:
  assumes "new_decoder options = Inr d"
  shows "decode_stream chunks d = Some (stream_result (maxPayloadBytes d) (concat chunks))"
  by (rule decode_stream_eq [OF assms])

theorem frame_decoder_refines_spec_witness:
  "\<exists>d. new_decoder (Limit (Fin 1)) = Inr d \<and>
     decode_stream [[0, 0], [0, 3, 9, 9]] d = Some (Inl (oversized_error 3 1))"
proof -
  have n: "normalizeMaxPayloadBytes (Limit (Fin 1)) = Inr 1"
    by (simp add: normalizeMaxPayloadBytes_def max_safe_integer_def MAX_UINT32_def)
  obtain d where d: "new_decoder (Limit (Fin 1)) = Inr d" and m: "maxPayloadBytes d = 1"
    by (simp add: new_decoder_def n)
  have "stream_result 1 [0, 0, 0, 3, 9, 9] = Inl (oversized_error 3 1)"
    by (simp add: stream_result_def frame_status_def)
  then have "stream_result (maxPayloadBytes d) (concat [[0, 0], [0, 3, 9, 9]]) = Inl (oversized_error 3 1)"
    by (simp add: m)
  with frame_decoder_refines_spec [OF d, of "[[0, 0], [0, 3, 9, 9]]"] d show ?thesis by simp
qed

text \<open>C27: The decoder never allocates more than the configured limit: after any sequence of
  pushes, accepted or rejected, its body buffer is at most the limit, which is itself at most
  the largest 32-bit unsigned length.\<close>

theorem frame_decoder_allocation_bounded:
  assumes "new_decoder options = Inr d"
  shows "\<exists>r d'. push_all chunks d = Some (r, d') \<and> maxPayloadBytes d \<le> MAX_UINT32 \<and>
    (\<forall>b. body d' = Some b \<longrightarrow> length b \<le> maxPayloadBytes d)"
proof -
  have "maxPayloadBytes d \<le> MAX_UINT32"
    using assms normalize_bound by (auto simp: new_decoder_def split: sum.splits)
  with push_all_step [OF new_decoder_holds [OF assms], of chunks] show ?thesis
    using holds_bytes_bounded unfolding body_bounded_def
    by (cases "frame_status (maxPayloadBytes d) (concat chunks)") (fastforce simp: body_bounded_def)+
qed

theorem frame_decoder_allocation_bounded_witness:
  "\<exists>d r d'. new_decoder (Limit (Fin 1)) = Inr d \<and> push_all [[255, 255, 255, 255]] d = Some (r, d') \<and>
     (\<forall>b. body d' = Some b \<longrightarrow> length b \<le> maxPayloadBytes d)"
proof -
  have n: "normalizeMaxPayloadBytes (Limit (Fin 1)) = Inr 1"
    by (simp add: normalizeMaxPayloadBytes_def max_safe_integer_def MAX_UINT32_def)
  obtain d where d: "new_decoder (Limit (Fin 1)) = Inr d"
    by (simp add: new_decoder_def n)
  with frame_decoder_allocation_bounded [OF d, of "[[255, 255, 255, 255]]"] show ?thesis by blast
qed

end
