(* ===== verification/Dedupe.thy ===== *)
theory Dedupe
  imports Protocol_Errors
begin

text \<open>
  The runtime-local deduplication store (\<open>src/router/dedupe.ts\<close>): reservations, committed
  outcomes, their retention and their timers.  The envelope validator and the timestamp parser
  it calls are fields of the environment, as is the clock, of which every reading is a
  separate value.  An outcome is opaque; \<open>de_view\<close> is the value the untyped code sees of it.  Deep copies are the identity on values.
\<close>

section \<open>Data\<close>

text \<open>Own properties of an untyped object, and the two projections the store reads directly.\<close>

fun property :: "jsval \<Rightarrow> string \<Rightarrow> jsval" where
  "property (Object members) name =
     (case map_of members (js name) of None \<Rightarrow> Undefined | Some v \<Rightarrow> v)"
| "property _ name = Undefined"

definition isRecord :: "jsval \<Rightarrow> bool" where
  "isRecord v \<longleftrightarrow> (case v of Object _ \<Rightarrow> True | _ \<Rightarrow> False)"

definition DEDUPE_OPERATION_NAMES :: "jstr list" where
  "DEDUPE_OPERATION_NAMES =
     map js [''message.request'', ''message.notify'', ''message.reply'', ''task.cancel'']"

definition isDedupeOperation :: "jsval \<Rightarrow> bool" where
  "isDedupeOperation operation \<longleftrightarrow>
     (case operation of Text name \<Rightarrow> name \<in> set DEDUPE_OPERATION_NAMES | _ \<Rightarrow> False)"

text \<open>\<open>operationName\<close>: the text of the property, or \<open>Undefined\<close>.\<close>

definition operationName :: "jsval \<Rightarrow> jsval" where
  "operationName operation =
     (if \<not> isRecord operation then Undefined
      else case property operation ''operation'' of Text name \<Rightarrow> Text name | _ \<Rightarrow> Undefined)"

definition makeDedupeKey :: "jstr \<Rightarrow> jstr \<Rightarrow> jstr" where
  "makeDedupeKey senderRuntimeId operationId = senderRuntimeId @ [0] @ operationId"

datatype dedupe_exn = Js js_exn | ProtocolValidationError protocol_error

text \<open>What the store uses of a validated request projection.\<close>

record projection =
  pr_operationId :: jstr
  pr_senderRuntimeId :: jstr
  pr_expiresAt :: jstr
  pr_fingerprint :: jstr

record 'r dedupe_env =
  de_now :: clock
  de_parse :: "jsval \<Rightarrow> rat option"
  de_validate :: "jsval \<Rightarrow> jsnum \<Rightarrow> dedupe_exn + (protocol_error + projection)"
  de_view :: "'r \<Rightarrow> jsval"

record normalized =
  no_operation :: jstr
  no_operationId :: jstr
  no_senderRuntimeId :: jstr
  no_expiresAt :: jstr
  no_expiresAtMs :: rat
  no_retainedUntil :: rat
  no_key :: jstr
  no_fingerprint :: jstr

record ('r, 't) stored_record = normalized +
  sr_pending :: bool
  sr_hasResult :: bool
  sr_result :: "'r option"
  sr_hasTaskReference :: bool
  sr_taskReference :: "'t option"
  sr_timer :: "jsnum option"

record reservation =
  rv_key :: jstr
  rv_senderRuntimeId :: jstr
  rv_operationId :: jstr
  rv_operation :: jstr
  rv_fingerprint :: jstr
  rv_retainedUntil :: rat

record ('r, 't) dedupe_record =
  dr_key :: jstr
  dr_senderRuntimeId :: jstr
  dr_operationId :: jstr
  dr_operation :: jstr
  dr_fingerprint :: jstr
  dr_expiresAt :: jstr
  dr_retainedUntil :: rat
  dr_pending :: bool
  dr_result :: "'r option"
  dr_taskReference :: "'t option"

datatype decision_kind =
    DK_new | DK_replay | DK_duplicate | DK_pending | DK_ignored | DK_busy | DK_stored | DK_expired

datatype decision_action =
    DA_execute | DA_replay | DA_reject | DA_retry | DA_ignore | DA_stored

record ('r, 't) decision =
  dd_kind :: decision_kind
  dd_action :: decision_action
  dd_key :: "jstr option"
  dd_senderRuntimeId :: "jstr option"
  dd_operationId :: "jstr option"
  dd_operation :: "jstr option"
  dd_fingerprint :: "jstr option"
  dd_result :: "'r option"
  dd_taskReference :: "'t option"
  dd_record :: "('r, 't) dedupe_record option"
  dd_reservation :: "reservation option"
  dd_error :: "protocol_error option"
  dd_retryable :: "bool option"

record ('r, 't) dedupe_store =
  ds_records :: "(jstr \<times> ('r, 't) stored_record) list"
  ds_retentionGraceMs :: rat
  ds_closed :: bool
  ds_reads :: nat

type_synonym ('r, 't, 'a) dedupe = "(('r, 't) dedupe_store, dedupe_exn, 'a) exec"

datatype target = Op jsval | Res reservation

text \<open>
  \<open>isReservation\<close> looks only at the field \<open>kind\<close>, so an untyped value that carries it is taken for a reservation
  too.  A field of it that is no string matches no key and no fingerprint of the store; here it is the empty text.
\<close>

definition text_or_empty :: "jsval \<Rightarrow> jstr" where
  "text_or_empty v = (case v of Text t \<Rightarrow> t | _ \<Rightarrow> [])"

definition target_of :: "target \<Rightarrow> target" where
  "target_of t = (case t of
       Res v \<Rightarrow> Res v
     | Op operation \<Rightarrow>
         if isRecord operation \<and> property operation ''kind'' = Text (js ''reservation'')
         then Res \<lparr>rv_key = text_or_empty (property operation ''key''),
             rv_senderRuntimeId = text_or_empty (property operation ''senderRuntimeId''),
             rv_operationId = text_or_empty (property operation ''operationId''),
             rv_operation = text_or_empty (property operation ''operation''),
             rv_fingerprint = text_or_empty (property operation ''fingerprint''),
             rv_retainedUntil = (case property operation ''retainedUntil'' of Number (Fin q) \<Rightarrow> q | _ \<Rightarrow> 0)\<rparr>
         else t)"

lemma target_of_Res [simp]: "target_of (Res v) = Res v"
  by (simp add: target_of_def)

section \<open>Pure helpers\<close>

definition MAX_TIMER_DELAY_MS :: rat where
  "MAX_TIMER_DELAY_MS = 2147483647"

definition isBusyResult :: "jsval \<Rightarrow> bool" where
  "isBusyResult v \<longleftrightarrow> isRecord v \<and>
     (property v ''code'' = Text (js ''busy'') \<or>
      (isRecord (property v ''error'') \<and>
       property (property v ''error'') ''code'' = Text (js ''busy'')))"

definition duplicateError :: "jstr \<Rightarrow> jstr \<Rightarrow> protocol_error" where
  "duplicateError senderRuntimeId operationId =
     protocol_error EC_duplicate ''operationId was reused with different content''
       (Some (Object [(js ''senderRuntimeId'', Text senderRuntimeId),
                      (js ''operationId'', Text operationId)]))"

definition busyError :: protocol_error where
  "busyError = protocol_error EC_busy ''deduplication admission is temporarily busy'' None"

definition expiredError :: protocol_error where
  "expiredError = protocol_error EC_expired ''deduplication reservation has expired'' None"

definition blank_decision :: "decision_kind \<Rightarrow> decision_action \<Rightarrow> ('r, 't) decision" where
  "blank_decision kind action = \<lparr>dd_kind = kind, dd_action = action, dd_key = None,
     dd_senderRuntimeId = None, dd_operationId = None, dd_operation = None,
     dd_fingerprint = None, dd_result = None, dd_taskReference = None, dd_record = None,
     dd_reservation = None, dd_error = None, dd_retryable = None\<rparr>"

definition ignoredDecision :: "jsval \<Rightarrow> ('r, 't) decision" where
  "ignoredDecision operation = (blank_decision DK_ignored DA_ignore)
     \<lparr>dd_operation := (case operation of Text name \<Rightarrow> Some name | _ \<Rightarrow> None)\<rparr>"

text \<open>The identifying fields that most decisions carry, from a normalized operation, a
  stored record (an extension of it) or a reservation.\<close>

definition identify :: "'x normalized_scheme \<Rightarrow> jstr \<Rightarrow> ('r, 't) decision \<Rightarrow> ('r, 't) decision" where
  "identify n fingerprint d = d\<lparr>dd_key := Some (no_key n),
     dd_senderRuntimeId := Some (no_senderRuntimeId n),
     dd_operationId := Some (no_operationId n), dd_operation := Some (no_operation n),
     dd_fingerprint := Some fingerprint\<rparr>"

definition identify_reservation :: "reservation \<Rightarrow> ('r, 't) decision \<Rightarrow> ('r, 't) decision" where
  "identify_reservation v d = d\<lparr>dd_key := Some (rv_key v),
     dd_senderRuntimeId := Some (rv_senderRuntimeId v),
     dd_operationId := Some (rv_operationId v), dd_operation := Some (rv_operation v),
     dd_fingerprint := Some (rv_fingerprint v)\<rparr>"

text \<open>
  Normalization.  An operation that the validator reports as expired is validated again one
  millisecond before its own deadline, so that a retry of it can still be recognised.
\<close>

definition normalized_of ::
  "'r dedupe_env \<Rightarrow> jstr \<Rightarrow> projection \<Rightarrow> rat \<Rightarrow> dedupe_exn + normalized" where
  "normalized_of env operation p retentionGraceMs =
     (case de_parse env (Text (pr_expiresAt p)) of
        None \<Rightarrow> Inl (Js (TypeErrorExn ''validated expiresAt must be an RFC 3339 timestamp''))
      | Some expiresAtMs \<Rightarrow>
          Inr \<lparr>no_operation = operation,
               no_operationId = pr_operationId p,
               no_senderRuntimeId = pr_senderRuntimeId p,
               no_expiresAt = pr_expiresAt p,
               no_expiresAtMs = expiresAtMs,
               no_retainedUntil = expiresAtMs + retentionGraceMs,
               no_key = makeDedupeKey (pr_senderRuntimeId p) (pr_operationId p),
               no_fingerprint = pr_fingerprint p\<rparr>)"

definition normalizedOperation ::
  "'r dedupe_env \<Rightarrow> jsval \<Rightarrow> jsnum \<Rightarrow> rat \<Rightarrow> dedupe_exn + normalized" where
  "normalizedOperation env operation nowMs retentionGraceMs =
     (if \<not> isRecord operation
      then Inl (Js (TypeErrorExn ''deduplication operation must be an object''))
      else
       (case property operation ''operation'' of
          Text rawOperation \<Rightarrow>
            if rawOperation \<notin> set DEDUPE_OPERATION_NAMES
            then Inl (Js (TypeErrorExn ''operation is not deduplicated''))
            else
             (let rawExpiresAtMs = de_parse env (property operation ''expiresAt'');
                  first = de_validate env operation nowMs;
                  second = (case (first, rawExpiresAtMs) of
                      (Inr (Inl e), Some ms) \<Rightarrow>
                        if pe_code e = EC_expired then de_validate env operation (Fin (ms - 1))
                        else first
                    | _ \<Rightarrow> first)
              in case second of
                   Inl x \<Rightarrow> Inl x
                 | Inr (Inl e) \<Rightarrow> Inl (ProtocolValidationError e)
                 | Inr (Inr p) \<Rightarrow>
                     (case property operation ''senderRuntimeId'' of
                        Text direct \<Rightarrow>
                          if direct \<noteq> pr_senderRuntimeId p
                          then Inl (Js (TypeErrorExn ''senderRuntimeId does not match sender.runtimeId''))
                          else normalized_of env rawOperation p retentionGraceMs
                      | _ \<Rightarrow> normalized_of env rawOperation p retentionGraceMs))
        | _ \<Rightarrow> Inl (Js (TypeErrorExn ''operation is not deduplicated''))))"


definition snapshot_of :: "('r, 't) stored_record \<Rightarrow> ('r, 't) dedupe_record" where
  "snapshot_of r = \<lparr>dr_key = no_key r, dr_senderRuntimeId = no_senderRuntimeId r,
     dr_operationId = no_operationId r, dr_operation = no_operation r,
     dr_fingerprint = no_fingerprint r, dr_expiresAt = no_expiresAt r,
     dr_retainedUntil = no_retainedUntil r, dr_pending = sr_pending r,
     dr_result = (if sr_hasResult r then sr_result r else None),
     dr_taskReference = (if sr_hasTaskReference r then sr_taskReference r else None)\<rparr>"

definition reservation_of :: "('r, 't) stored_record \<Rightarrow> reservation" where
  "reservation_of r = \<lparr>rv_key = no_key r, rv_senderRuntimeId = no_senderRuntimeId r,
     rv_operationId = no_operationId r, rv_operation = no_operation r,
     rv_fingerprint = no_fingerprint r, rv_retainedUntil = no_retainedUntil r\<rparr>"

definition newDecision :: "normalized \<Rightarrow> ('r, 't) decision" where
  "newDecision n = (identify n (no_fingerprint n) (blank_decision DK_new DA_execute))
     \<lparr>dd_retryable := Some False\<rparr>"

definition existingDecision :: "('r, 't) stored_record \<Rightarrow> jstr \<Rightarrow> ('r, 't) decision" where
  "existingDecision r fingerprint =
     (if no_fingerprint r \<noteq> fingerprint
      then (identify r fingerprint (blank_decision DK_duplicate DA_reject))
        \<lparr>dd_record := Some (snapshot_of r),
         dd_error := Some (duplicateError (no_senderRuntimeId r) (no_operationId r)),
         dd_retryable := Some False\<rparr>
      else if sr_pending r
      then (identify r fingerprint (blank_decision DK_pending DA_retry))
        \<lparr>dd_record := Some (snapshot_of r), dd_retryable := Some True\<rparr>
      else (identify r fingerprint (blank_decision DK_replay DA_replay))
        \<lparr>dd_record := Some (snapshot_of r),
         dd_result := (if sr_hasResult r then sr_result r else None),
         dd_taskReference := (if sr_hasTaskReference r then sr_taskReference r else None),
         dd_retryable := Some False\<rparr>)"

section \<open>The store\<close>

definition new_store :: "'r dedupe_env \<Rightarrow> jsnum \<Rightarrow> jsnum \<Rightarrow> js_exn + ('r, 't) dedupe_store" where
  "new_store env retentionGraceMs defaultTtlMs =
     (if \<not> is_finite retentionGraceMs \<or> retentionGraceMs < Fin 0
      then Inl (RangeErrorExn ''retentionGraceMs must be a finite non-negative number'')
      else if \<not> is_finite defaultTtlMs \<or> defaultTtlMs \<le> Fin 0
      then Inl (RangeErrorExn ''defaultTtlMs must be a finite positive number'')
      else if \<not> is_finite (de_now env 0)
      then Inl (RangeErrorExn ''deduplication clock must return a finite number'')
      else Inr \<lparr>ds_records = [], ds_retentionGraceMs = fin_val retentionGraceMs,
                ds_closed = False, ds_reads = 1\<rparr>)"

definition clock_error :: dedupe_exn where
  "clock_error = Js (RangeErrorExn ''deduplication clock must return a finite number'')"

definition ensureOpen :: "('r, 't, unit) dedupe" where
  "ensureOpen = bindE (getE ds_closed)
     (\<lambda>closed. if closed then throw (Js (ErrorExn ''deduplication store is closed'')) else ret ())"

definition readNow :: "'r dedupe_env \<Rightarrow> ('r, 't, jsnum) dedupe" where
  "readNow env = bindE (getE (\<lambda>s. de_now env (ds_reads s)))
     (\<lambda>now. thenE (modE (\<lambda>s. s\<lparr>ds_reads := Suc (ds_reads s)\<rparr>)) (ret now))"

definition find_record :: "jstr \<Rightarrow> ('r, 't, ('r, 't) stored_record option) dedupe" where
  "find_record key = getE (\<lambda>s. map_of (ds_records s) key)"

definition store_record :: "jstr \<Rightarrow> ('r, 't) stored_record \<Rightarrow> ('r, 't, unit) dedupe" where
  "store_record key r = modE (\<lambda>s. s\<lparr>ds_records := AList.update key r (ds_records s)\<rparr>)"

text \<open>Removing a record cancels its timer, which lives in the record.\<close>

definition removeRecord :: "jstr \<Rightarrow> ('r, 't, unit) dedupe" where
  "removeRecord key = modE (\<lambda>s. s\<lparr>ds_records := AList.delete key (ds_records s)\<rparr>)"

definition prune_at :: "jsnum \<Rightarrow> ('r, 't, nat) dedupe" where
  "prune_at nowMs =
     (if \<not> is_finite nowMs then throw clock_error
      else bindE (getE (\<lambda>s. length (filter (\<lambda>(k, r). Fin (no_retainedUntil r) \<le> nowMs) (ds_records s))))
        (\<lambda>removed. thenE
          (modE (\<lambda>s. s\<lparr>ds_records :=
             filter (\<lambda>(k, r). \<not> Fin (no_retainedUntil r) \<le> nowMs) (ds_records s)\<rparr>))
          (ret removed)))"

definition prune :: "'r dedupe_env \<Rightarrow> ('r, 't, nat) dedupe" where
  "prune env = bindE (readNow env) prune_at"

definition normalize :: "'r dedupe_env \<Rightarrow> jsval \<Rightarrow> ('r, 't, normalized) dedupe" where
  "normalize env operation = bindE (readNow env)
     (\<lambda>nowMs. if \<not> is_finite nowMs then throw clock_error
        else bindE (getE ds_retentionGraceMs)
          (\<lambda>grace. case normalizedOperation env operation nowMs grace of
              Inl x \<Rightarrow> throw x
            | Inr n \<Rightarrow> ret n))"

text \<open>The delay a timer is armed with, or \<open>None\<close> when the record is due already.\<close>

fun timer_delay :: "rat \<Rightarrow> jsnum \<Rightarrow> jsnum option" where
  "timer_delay until (Fin now) =
     (if until - now \<le> 0 then None else Some (Fin (min (until - now) MAX_TIMER_DELAY_MS)))"
| "timer_delay until PosInf = None"
| "timer_delay until NegInf = Some (Fin MAX_TIMER_DELAY_MS)"
| "timer_delay until NaN = Some NaN"

definition schedule :: "'r dedupe_env \<Rightarrow> jstr \<Rightarrow> ('r, 't) stored_record \<Rightarrow> ('r, 't, unit) dedupe" where
  "schedule env key r = bindE (readNow env)
     (\<lambda>now. case timer_delay (no_retainedUntil r) now of
         None \<Rightarrow> removeRecord key
       | Some delay \<Rightarrow> store_record key (r\<lparr>sr_timer := Some delay\<rparr>))"

text \<open>The timer of a record fires.\<close>

definition timer_fires :: "'r dedupe_env \<Rightarrow> jstr \<Rightarrow> ('r, 't, unit) dedupe" where
  "timer_fires env key = bindE (find_record key)
     (\<lambda>found. case found of
         None \<Rightarrow> ret ()
       | Some r \<Rightarrow>
           (if sr_timer r = None then ret ()
            else thenE (store_record key (r\<lparr>sr_timer := None\<rparr>))
             (bindE (getE ds_closed)
               (\<lambda>closed. if closed then ret ()
                  else bindE (readNow env)
                    (\<lambda>now. if Fin (no_retainedUntil r) \<le> now then removeRecord key
                       else schedule env key (r\<lparr>sr_timer := None\<rparr>))))))"

definition size_of :: "'r dedupe_env \<Rightarrow> ('r, 't, nat) dedupe" where
  "size_of env = thenE (prune env) (getE (\<lambda>s. length (ds_records s)))"

definition inspect :: "'r dedupe_env \<Rightarrow> jsval \<Rightarrow> ('r, 't, ('r, 't) decision) dedupe" where
  "inspect env operation = thenE ensureOpen (thenE (prune env)
     (if \<not> isDedupeOperation (operationName operation)
      then ret (ignoredDecision (operationName operation))
      else bindE (normalize env operation)
        (\<lambda>n. bindE (find_record (no_key n))
          (\<lambda>existing. case existing of
              None \<Rightarrow> ret (newDecision n)
            | Some r \<Rightarrow> ret (existingDecision r (no_fingerprint n))))))"

definition getRecord :: "'r dedupe_env \<Rightarrow> jsval \<Rightarrow> ('r, 't, ('r, 't) dedupe_record option) dedupe" where
  "getRecord env operation = thenE ensureOpen (thenE (prune env)
     (if \<not> isDedupeOperation (operationName operation) then ret None
      else bindE (normalize env operation)
        (\<lambda>n. bindE (find_record (no_key n)) (\<lambda>r. ret (map_option snapshot_of r)))))"

definition fresh_record :: "normalized \<Rightarrow> ('r, 't) stored_record" where
  "fresh_record n = normalized.extend n \<lparr>sr_pending = True, sr_hasResult = False,
     sr_result = None, sr_hasTaskReference = False, sr_taskReference = None, sr_timer = None\<rparr>"

definition reserve_normalized :: "'r dedupe_env \<Rightarrow> normalized \<Rightarrow> ('r, 't, ('r, 't) decision) dedupe" where
  "reserve_normalized env n = bindE (find_record (no_key n))
     (\<lambda>existing. case existing of
         Some r \<Rightarrow> ret (existingDecision r (no_fingerprint n))
       | None \<Rightarrow>
           (let r = fresh_record n
            in thenE (store_record (no_key n) r)
              (thenE (schedule env (no_key n) r)
              (ret ((newDecision n)\<lparr>dd_reservation := Some (reservation_of r)\<rparr>)))))"

definition reserve :: "'r dedupe_env \<Rightarrow> jsval \<Rightarrow> ('r, 't, ('r, 't) decision) dedupe" where
  "reserve env operation = thenE ensureOpen (thenE (prune env)
     (if \<not> isDedupeOperation (operationName operation)
      then ret (ignoredDecision (operationName operation))
      else bindE (normalize env operation) (reserve_normalized env)))"

definition release_pending :: "jstr \<Rightarrow> jstr \<Rightarrow> ('r, 't, bool) dedupe" where
  "release_pending key fingerprint = bindE (find_record key)
     (\<lambda>found. case found of
         None \<Rightarrow> ret False
       | Some r \<Rightarrow>
           (if \<not> sr_pending r \<or> no_fingerprint r \<noteq> fingerprint then ret False
            else thenE (removeRecord key) (ret True)))"

definition release :: "'r dedupe_env \<Rightarrow> target \<Rightarrow> ('r, 't, bool) dedupe" where
  "release env t = thenE ensureOpen (thenE (prune env)
     (case target_of t of
        Res v \<Rightarrow> release_pending (rv_key v) (rv_fingerprint v)
      | Op operation \<Rightarrow>
          (if \<not> isDedupeOperation (operationName operation) then ret False
           else bindE (normalize env operation)
             (\<lambda>n. release_pending (no_key n) (no_fingerprint n)))))"

definition busy :: "'r dedupe_env \<Rightarrow> jsval \<Rightarrow> ('r, 't, ('r, 't) decision) dedupe" where
  "busy env operation = thenE ensureOpen
     (if \<not> isDedupeOperation (operationName operation)
      then ret (ignoredDecision (operationName operation))
      else bindE (normalize env operation)
        (\<lambda>n. ret ((identify n (no_fingerprint n) (blank_decision DK_busy DA_retry))
           \<lparr>dd_error := Some busyError, dd_retryable := Some True\<rparr>)))"

definition commitRecord ::
  "jstr \<Rightarrow> ('r, 't) stored_record \<Rightarrow> 'r option \<Rightarrow> 't option \<Rightarrow> ('r, 't, ('r, 't) decision) dedupe" where
  "commitRecord key r result taskReference =
     (let r' = r\<lparr>sr_pending := False, sr_hasResult := True, sr_result := result,
            sr_hasTaskReference := (taskReference \<noteq> None), sr_taskReference := taskReference\<rparr>
      in thenE (store_record key r')
        (ret ((identify r' (no_fingerprint r') (blank_decision DK_stored DA_stored))
           \<lparr>dd_result := sr_result r',
            dd_taskReference := (if sr_hasTaskReference r' then sr_taskReference r' else None),
            dd_record := Some (snapshot_of r'), dd_retryable := Some False\<rparr>)))"

definition busy_outcome :: "'r dedupe_env \<Rightarrow> 'r option \<Rightarrow> bool" where
  "busy_outcome env result \<longleftrightarrow> (case result of None \<Rightarrow> False | Some r \<Rightarrow> isBusyResult (de_view env r))"

definition commit_found :: "reservation \<Rightarrow> 'r option \<Rightarrow> 't option \<Rightarrow> ('r, 't, ('r, 't) decision) dedupe" where
  "commit_found v result taskReference = bindE (find_record (rv_key v))
     (\<lambda>found. case found of
         None \<Rightarrow> ret ((identify_reservation v (blank_decision DK_expired DA_retry))
             \<lparr>dd_error := Some expiredError, dd_retryable := Some False\<rparr>)
       | Some r \<Rightarrow>
           (if no_fingerprint r \<noteq> rv_fingerprint v
            then ret ((identify_reservation v (blank_decision DK_duplicate DA_reject))
              \<lparr>dd_error := Some (duplicateError (rv_senderRuntimeId v) (rv_operationId v)),
               dd_record := Some (snapshot_of r), dd_retryable := Some False\<rparr>)
            else if \<not> sr_pending r then ret (existingDecision r (rv_fingerprint v))
            else commitRecord (rv_key v) r result taskReference))"

definition commit_reservation ::
  "'r dedupe_env \<Rightarrow> reservation \<Rightarrow> 'r option \<Rightarrow> 't option \<Rightarrow> ('r, 't, ('r, 't) decision) dedupe" where
  "commit_reservation env v result taskReference = thenE ensureOpen (thenE (prune env)
     (if busy_outcome env result
      then thenE (release env (Res v))
        (ret ((identify_reservation v (blank_decision DK_busy DA_retry))
           \<lparr>dd_error := Some busyError, dd_retryable := Some True\<rparr>))
      else commit_found v result taskReference))"

definition commit_operation ::
  "'r dedupe_env \<Rightarrow> jsval \<Rightarrow> 'r option \<Rightarrow> 't option \<Rightarrow> ('r, 't, ('r, 't) decision) dedupe" where
  "commit_operation env operation result taskReference = thenE ensureOpen (thenE (prune env)
     (if busy_outcome env result
      then (if \<not> isDedupeOperation (operationName operation)
            then ret (ignoredDecision (operationName operation))
            else thenE (release env (Op operation)) (busy env operation))
      else if \<not> isDedupeOperation (operationName operation)
      then ret (ignoredDecision (operationName operation))
      else bindE (reserve env operation)
        (\<lambda>d. case (dd_kind d, dd_reservation d) of
            (DK_new, Some v) \<Rightarrow> commit_reservation env v result taskReference
          | _ \<Rightarrow> ret d)))"

definition commit ::
  "'r dedupe_env \<Rightarrow> target \<Rightarrow> 'r option \<Rightarrow> 't option \<Rightarrow> ('r, 't, ('r, 't) decision) dedupe" where
  "commit env t result taskReference =
     (case target_of t of
        Res v \<Rightarrow> commit_reservation env v result taskReference
      | Op operation \<Rightarrow> commit_operation env operation result taskReference)"

text \<open>\<open>admit\<close> with one argument reserves; with a result it commits, or answers busy.\<close>

definition admit ::
  "'r dedupe_env \<Rightarrow> jsval \<Rightarrow> ('r option \<times> 't option) option \<Rightarrow> ('r, 't, ('r, 't) decision) dedupe" where
  "admit env operation arguments =
     (case arguments of
        None \<Rightarrow> reserve env operation
      | Some (result, taskReference) \<Rightarrow>
          (if busy_outcome env result then busy env operation
           else commit env (Op operation) result taskReference))"

text \<open>\<open>execute\<close>: the producer either throws or returns an outcome.\<close>

definition execute ::
  "'r dedupe_env \<Rightarrow> jsval \<Rightarrow> (dedupe_exn + 'r option) \<Rightarrow> 't option \<Rightarrow> ('r, 't, ('r, 't) decision) dedupe" where
  "execute env operation producer taskReference = bindE (reserve env operation)
     (\<lambda>d. case (dd_kind d, dd_reservation d) of
         (DK_new, Some v) \<Rightarrow>
           catchE
             (case producer of
                Inl x \<Rightarrow> throw x
              | Inr result \<Rightarrow>
                  (if busy_outcome env result
                   then thenE (release env (Res v)) (busy env operation)
                   else commit env (Res v) result taskReference))
             (\<lambda>x. thenE (release env (Res v)) (throw x))
       | _ \<Rightarrow> ret d)"

definition clear :: "('r, 't, unit) dedupe" where
  "clear = modE (\<lambda>s. s\<lparr>ds_records := []\<rparr>)"

definition close :: "('r, 't, unit) dedupe" where
  "close = thenE clear (modE (\<lambda>s. s\<lparr>ds_closed := True\<rparr>))"

section \<open>Contracts\<close>

text \<open>What holds between calls: keys are unique and are those of their records, every record
  has an armed timer, and a closed store is empty.\<close>

definition store_wf :: "('r, 't) dedupe_store \<Rightarrow> bool" where
  "store_wf s \<longleftrightarrow> distinct (map fst (ds_records s)) \<and>
     (\<forall>(k, r) \<in> set (ds_records s). no_key r = k \<and> sr_timer r \<noteq> None) \<and>
     (ds_closed s \<longrightarrow> ds_records s = [])"

text \<open>Equal up to the timer.\<close>

definition same_record :: "('r, 't) stored_record \<Rightarrow> ('r, 't) stored_record \<Rightarrow> bool" where
  "same_record r r' \<longleftrightarrow> r\<lparr>sr_timer := None\<rparr> = r'\<lparr>sr_timer := None\<rparr>"

text \<open>Some reading of the clock made between two states had reached an instant.\<close>

definition clock_reached :: "'r dedupe_env \<Rightarrow> nat \<Rightarrow> nat \<Rightarrow> rat \<Rightarrow> bool" where
  "clock_reached env a b instant \<longleftrightarrow> (\<exists>i. a \<le> i \<and> i < b \<and> Fin instant \<le> de_now env i)"

definition committed_kept :: "'r dedupe_env \<Rightarrow> ('r, 't) dedupe_store \<Rightarrow> ('r, 't) dedupe_store \<Rightarrow> bool" where
  "committed_kept env s t \<longleftrightarrow> ds_reads s \<le> ds_reads t \<and> ds_closed t = ds_closed s \<and>
     ds_retentionGraceMs t = ds_retentionGraceMs s \<and>
     (\<forall>k r. map_of (ds_records s) k = Some r \<and> \<not> sr_pending r \<longrightarrow>
        (\<exists>r'. map_of (ds_records t) k = Some r' \<and> same_record r r') \<or>
        clock_reached env (ds_reads s) (ds_reads t) (no_retainedUntil r))"

definition no_new_record :: "('r, 't) dedupe_store \<Rightarrow> ('r, 't) dedupe_store \<Rightarrow> bool" where
  "no_new_record s t \<longleftrightarrow> set (ds_records t) \<subseteq> set (ds_records s)"

lemma same_record_refl [simp]: "same_record r r"
  by (simp add: same_record_def)

lemma same_record_fields:
  assumes "same_record r r'"
  shows "no_key r' = no_key r" "no_fingerprint r' = no_fingerprint r"
    "no_retainedUntil r' = no_retainedUntil r" "sr_pending r' = sr_pending r"
    "sr_hasResult r' = sr_hasResult r" "sr_result r' = sr_result r"
    "sr_hasTaskReference r' = sr_hasTaskReference r" "sr_taskReference r' = sr_taskReference r"
  using assms unfolding same_record_def by (cases r; cases r'; simp)+

lemma same_record_snapshot: "same_record r r' \<Longrightarrow> snapshot_of r' = snapshot_of r"
  unfolding same_record_def snapshot_of_def by (cases r; cases r') simp

lemma same_record_timer [simp]: "same_record r (r\<lparr>sr_timer := x\<rparr>)"
  by (simp add: same_record_def)

lemma clock_reached_mono:
  "clock_reached env a b q \<Longrightarrow> a' \<le> a \<Longrightarrow> b \<le> b' \<Longrightarrow> clock_reached env a' b' q"
  unfolding clock_reached_def by (meson le_trans less_le_trans)

lemma committed_kept_trans:
  assumes "committed_kept env s t" and "committed_kept env t u"
  shows "committed_kept env s u"
proof -
  have *: "(\<exists>r'. map_of (ds_records u) k = Some r' \<and> same_record r r') \<or>
        clock_reached env (ds_reads s) (ds_reads u) (no_retainedUntil r)"
    if k: "map_of (ds_records s) k = Some r" and p: "\<not> sr_pending r" for k r
  proof (cases "clock_reached env (ds_reads s) (ds_reads t) (no_retainedUntil r)")
    case True
    with assms(2) show ?thesis by (auto simp: committed_kept_def intro: clock_reached_mono)
  next
    case False
    with assms(1) k p obtain r' where r': "map_of (ds_records t) k = Some r'" "same_record r r'"
      by (fastforce simp: committed_kept_def)
    with assms(2) p same_record_fields [OF r'(2)]
    have "(\<exists>r''. map_of (ds_records u) k = Some r'' \<and> same_record r' r'') \<or>
        clock_reached env (ds_reads t) (ds_reads u) (no_retainedUntil r)"
      using r'(1) unfolding committed_kept_def by metis
    moreover have "ds_reads s \<le> ds_reads t" using assms(1) by (simp add: committed_kept_def)
    ultimately show ?thesis
      using r'(2) by (metis clock_reached_mono order_refl same_record_def)
  qed
  with assms show ?thesis
    by (auto simp: committed_kept_def)
qed

interpretation kept: step_contract "under store_wf (committed_kept env)" for env :: "'r dedupe_env"
proof (rule under_contract, unfold_locales)
  show "committed_kept env s s" for s :: "('r, 't) dedupe_store"
    by (auto simp: committed_kept_def)
qed (rule committed_kept_trans)

interpretation shrinking: step_contract no_new_record
  by unfold_locales (auto simp: no_new_record_def)


section \<open>Every method respects the contracts\<close>

lemma find_record_bind:
  assumes "\<And>s. R s (snd (f (map_of (ds_records s) key) s))"
  shows "obeys R (bindE (find_record key) f)"
  using assms by (simp add: obeys_def find_record_def exec_simps)

lemma readNow_apply: "readNow env s = (Inr (de_now env (ds_reads s)), s\<lparr>ds_reads := Suc (ds_reads s)\<rparr>)"
  by (simp add: readNow_def exec_simps)

lemma kept_reads:
  "ds_reads s \<le> ds_reads t \<Longrightarrow> ds_records t = ds_records s \<Longrightarrow> ds_closed t = ds_closed s \<Longrightarrow>
   ds_retentionGraceMs t = ds_retentionGraceMs s \<Longrightarrow> under store_wf (committed_kept env) s t"
  by (auto simp: under_def store_wf_def committed_kept_def)

lemma kept_readNow: "obeys (under store_wf (committed_kept env)) (readNow env)"
  by (rule obeysI) (simp add: readNow_apply kept_reads)

lemma kept_prune:
  fixes env :: "'r dedupe_env"
  shows "obeys (under store_wf (committed_kept env :: ('r, 't) dedupe_store \<Rightarrow> _)) (prune env)"
proof (rule obeysI)
  fix s :: "('r, 't) dedupe_store"
  let ?now = "de_now env (ds_reads s)"
  show "under store_wf (committed_kept env) s (snd (prune env s))"
  proof (cases "is_finite ?now")
    case False
    then show ?thesis
      by (simp add: prune_def prune_at_def exec_simps readNow_apply kept_reads)
  next
    case True
    let ?P = "\<lambda>r. \<not> Fin (no_retainedUntil r) \<le> ?now"
    have t: "snd (prune env s) = s\<lparr>ds_reads := Suc (ds_reads s),
        ds_records := filter (\<lambda>(k, r). ?P r) (ds_records s)\<rparr>"
      using True by (simp add: prune_def prune_at_def exec_simps readNow_apply)
    show ?thesis
      unfolding t under_def
    proof (intro impI conjI)
      assume wf: "store_wf s"
      then show "store_wf (s\<lparr>ds_reads := Suc (ds_reads s),
          ds_records := filter (\<lambda>(k, r). ?P r) (ds_records s)\<rparr>)"
        by (auto simp: store_wf_def distinct_map_filter)
      show "committed_kept env s (s\<lparr>ds_reads := Suc (ds_reads s),
          ds_records := filter (\<lambda>(k, r). ?P r) (ds_records s)\<rparr>)"
        using wf by (auto simp: committed_kept_def store_wf_def map_of_filter_distinct
            clock_reached_def less_Suc_eq)
    qed
  qed
qed

lemma kept_ensureOpen: "obeys (under store_wf (committed_kept env)) ensureOpen"
  unfolding ensureOpen_def by (intro kept.closure)

lemma kept_normalize: "obeys (under store_wf (committed_kept env)) (normalize env operation)"
  unfolding normalize_def by (intro kept.closure kept_readNow)

lemmas kept_basic = kept.closure kept_readNow kept_prune kept_ensureOpen kept_normalize

lemma kept_find: "obeys (under store_wf (committed_kept env)) (find_record key)"
  unfolding find_record_def by (rule kept.getE)

lemma kept_inspect: "obeys (under store_wf (committed_kept env)) (inspect env operation)"
  unfolding inspect_def by (intro kept_basic kept_find)

lemma kept_getRecord: "obeys (under store_wf (committed_kept env)) (getRecord env operation)"
  unfolding getRecord_def by (intro kept_basic kept_find)

lemma kept_size: "obeys (under store_wf (committed_kept env)) (size_of env)"
  unfolding size_of_def by (intro kept_basic)

lemma kept_busy: "obeys (under store_wf (committed_kept env)) (busy env operation)"
  unfolding busy_def by (intro kept_basic)

text \<open>Removing a pending record, committing it, and inserting a fresh one.\<close>

lemma kept_remove_pending:
  assumes "map_of (ds_records s) key = Some r" and "sr_pending r"
  shows "under store_wf (committed_kept env) s (s\<lparr>ds_records := AList.delete key (ds_records s)\<rparr>)"
  using assms
  by (auto simp: under_def store_wf_def committed_kept_def map_of_delete distinct_keys_delete
      dest: subsetD [OF set_delete_subset])

lemma store_wf_update:
  "store_wf s \<Longrightarrow> no_key r = key \<Longrightarrow> sr_timer r \<noteq> None \<Longrightarrow> \<not> ds_closed s \<Longrightarrow>
   store_wf (s\<lparr>ds_records := AList.update key r (ds_records s)\<rparr>)"
  by (auto simp: store_wf_def distinct_keys_update dest!: subsetD [OF set_update_subset])

lemma kept_commitRecord:
  assumes "map_of (ds_records s) key = Some r" and "sr_pending r"
  shows "under store_wf (committed_kept env) s (snd (commitRecord key r result taskReference s))"
proof -
  let ?r = "r\<lparr>sr_pending := False, sr_hasResult := True, sr_result := result,
      sr_hasTaskReference := (taskReference \<noteq> None), sr_taskReference := taskReference\<rparr>"
  have t: "snd (commitRecord key r result taskReference s) =
      s\<lparr>ds_records := AList.update key ?r (ds_records s)\<rparr>"
    by (simp add: commitRecord_def store_record_def exec_simps Let_def)
  have "store_wf s \<Longrightarrow> store_wf (s\<lparr>ds_records := AList.update key ?r (ds_records s)\<rparr>)"
    using map_of_SomeD [OF assms(1)] by (intro store_wf_update) (auto simp: store_wf_def)
  with assms show ?thesis
    unfolding t by (auto simp: under_def committed_kept_def map_of_update)
qed


text \<open>Every record implies an open store, and the methods that insert start by checking it.\<close>

definition store_open :: "('r, 't) dedupe_store \<Rightarrow> bool" where
  "store_open s \<longleftrightarrow> store_wf s \<and> \<not> ds_closed s"

interpretation open_kept: step_contract "under store_open (committed_kept env)" for env :: "'r dedupe_env"
proof (rule under_contract, unfold_locales)
  show "committed_kept env s s" for s :: "('r, 't) dedupe_store"
    by (auto simp: committed_kept_def)
qed (rule committed_kept_trans)

lemma open_from_kept:
  "obeys (under store_wf (committed_kept env)) m \<Longrightarrow> obeys (under store_open (committed_kept env)) m"
  by (auto simp: obeys_def under_def store_open_def committed_kept_def)

lemma kept_from_open:
  "obeys (under store_open (committed_kept env)) m \<Longrightarrow>
   obeys (under store_wf (committed_kept env)) (thenE ensureOpen m)"
  by (auto simp: obeys_def under_def store_open_def ensureOpen_def exec_simps committed_kept_def)

lemma kept_reads_trans:
  "under store_wf (committed_kept env) s t \<Longrightarrow> ds_records s' = ds_records s \<Longrightarrow>
   ds_closed s' = ds_closed s \<Longrightarrow> ds_retentionGraceMs s' = ds_retentionGraceMs s \<Longrightarrow>
   ds_reads s' \<le> ds_reads s \<Longrightarrow> under store_wf (committed_kept env) s' t"
  using kept.trans kept_reads by metis

lemma committed_kept_insert:
  assumes "map_of (ds_records s) key = None"
  shows "committed_kept env s (s\<lparr>ds_reads := Suc (ds_reads s),
           ds_records := AList.delete key (AList.update key r (ds_records s))\<rparr>)"
    and "committed_kept env s (s\<lparr>ds_reads := Suc (ds_reads s),
           ds_records := AList.update key r' (AList.update key r (ds_records s))\<rparr>)"
  using assms by (auto simp: committed_kept_def map_of_update map_of_delete)

lemma open_insert:
  assumes "map_of (ds_records s) key = None" and "no_key r = key"
  shows "under store_open (committed_kept env) s
    (snd (thenE (store_record key r) (thenE (schedule env key r) (ret d)) s))"
proof (cases "timer_delay (no_retainedUntil r) (de_now env (ds_reads s))")
  case None
  let ?t = "s\<lparr>ds_reads := Suc (ds_reads s),
      ds_records := AList.delete key (AList.update key r (ds_records s))\<rparr>"
  have t: "snd (thenE (store_record key r) (thenE (schedule env key r) (ret d)) s) = ?t"
    using None by (simp add: schedule_def removeRecord_def store_record_def readNow_apply exec_simps)
  have "AList.delete key (AList.update key r m) = m" if "map_of m key = None" for m
    using that by (induction m) (auto split: if_splits)
  then have "store_wf s \<Longrightarrow> \<not> ds_closed s \<Longrightarrow> store_wf ?t"
    using assms(1) by (simp add: store_wf_def)
  then show ?thesis
    unfolding t using committed_kept_insert(1) [OF assms(1)] by (simp add: under_def store_open_def)
next
  case (Some delay)
  let ?r = "r\<lparr>sr_timer := Some delay\<rparr>"
  let ?t = "s\<lparr>ds_reads := Suc (ds_reads s),
      ds_records := AList.update key ?r (AList.update key r (ds_records s))\<rparr>"
  have t: "snd (thenE (store_record key r) (thenE (schedule env key r) (ret d)) s) = ?t"
    using Some by (simp add: schedule_def store_record_def readNow_apply exec_simps)
  have "AList.update key ?r (AList.update key r m) = AList.update key ?r m" for m
    by (induction m) auto
  then have "store_wf s \<Longrightarrow> \<not> ds_closed s \<Longrightarrow> store_wf ?t"
    using assms(2) store_wf_update [of "s\<lparr>ds_reads := Suc (ds_reads s)\<rparr>" ?r key]
    by (simp add: store_wf_def)
  then show ?thesis
    unfolding t using committed_kept_insert(2) [OF assms(1)] by (simp add: under_def store_open_def)
qed

lemmas open_basic = open_kept.closure kept_readNow [THEN open_from_kept]
  kept_prune [THEN open_from_kept] kept_normalize [THEN open_from_kept]

lemma fresh_record_key [simp]: "no_key (fresh_record n) = no_key n"
  by (simp add: fresh_record_def normalized.defs)

lemma open_reserve_normalized:
  "obeys (under store_open (committed_kept env)) (reserve_normalized env n)"
  unfolding reserve_normalized_def
  by (rule find_record_bind)
     (auto simp: Let_def open_insert split: option.split intro!: obeysD [OF open_kept.ret])

lemma kept_reserve: "obeys (under store_wf (committed_kept env)) (reserve env operation)"
  unfolding reserve_def by (intro kept_from_open open_basic open_reserve_normalized)

lemma kept_release_pending:
  "obeys (under store_wf (committed_kept env)) (release_pending key fingerprint)"
  unfolding release_pending_def
  by (rule find_record_bind)
     (auto simp: exec_simps removeRecord_def kept_remove_pending split: option.split
       intro: kept.refl)

lemma kept_release: "obeys (under store_wf (committed_kept env)) (release env t)"
  unfolding release_def
  by (cases "target_of t") (auto intro!: kept_basic kept_release_pending)

lemma kept_commit_found:
  "obeys (under store_wf (committed_kept env)) (commit_found v result taskReference)"
  unfolding commit_found_def
  by (rule find_record_bind)
     (auto simp: kept_commitRecord split: option.split intro!: obeysD [OF kept.ret])

lemma kept_commit_reservation:
  "obeys (under store_wf (committed_kept env)) (commit_reservation env v result taskReference)"
  unfolding commit_reservation_def
  by (intro kept_basic kept_release kept_commit_found)

lemma kept_reserved:
  assumes "\<And>v. obeys (under store_wf (committed_kept env)) (m v)"
  shows "obeys (under store_wf (committed_kept env)) (bindE (reserve env operation)
    (\<lambda>d. case (dd_kind d, dd_reservation d) of (DK_new, Some v) \<Rightarrow> m v | _ \<Rightarrow> ret d))"
  by (rule kept.bindE [OF kept_reserve])
     (auto intro: assms kept.ret split: decision_kind.split option.split)

lemma kept_commit_operation:
  "obeys (under store_wf (committed_kept env)) (commit_operation env operation result taskReference)"
  unfolding commit_operation_def
  by (intro kept_reserved kept_basic kept_release kept_busy kept_commit_reservation)

lemma kept_commit: "obeys (under store_wf (committed_kept env)) (commit env t result taskReference)"
  unfolding commit_def
  by (cases "target_of t") (auto intro: kept_commit_reservation kept_commit_operation)

lemma kept_admit: "obeys (under store_wf (committed_kept env)) (admit env operation arguments)"
  unfolding admit_def
  by (auto intro!: kept_reserve kept_busy kept_commit split: option.split)

lemma kept_execute:
  "obeys (under store_wf (committed_kept env)) (execute env operation producer taskReference)"
  unfolding execute_def
  by (intro kept_reserved kept_basic kept_release kept_busy kept_commit)

lemma update_twice: "AList.update key b (AList.update key a m) = AList.update key b m"
  by (induction m) auto

lemma set_delete_update: "set (AList.delete key (AList.update key a m)) \<subseteq> set m"
  by (auto simp: AList.delete_eq dest!: subsetD [OF set_update_subset])

lemma store_wf_subset:
  "store_wf s \<Longrightarrow> distinct (map fst (ds_records t)) \<Longrightarrow> \<not> ds_closed t \<Longrightarrow>
   set (ds_records t) \<subseteq> set (ds_records s) \<Longrightarrow> store_wf t"
  unfolding store_wf_def by blast

lemma timer_delay_None: "timer_delay q x = None \<Longrightarrow> Fin q \<le> x"
  by (cases x) (auto split: if_splits)

text \<open>The three ways a firing timer can end: too late, too late on the second look, re-armed.\<close>

lemma timer_fires_apply:
  assumes "map_of (ds_records s) key = Some r" and "sr_timer r \<noteq> None" and "\<not> ds_closed s"
  shows "snd (timer_fires env key s) =
    (let n = ds_reads s; m = AList.update key (r\<lparr>sr_timer := None\<rparr>) (ds_records s)
     in if Fin (no_retainedUntil r) \<le> de_now env n
        then s\<lparr>ds_records := AList.delete key m, ds_reads := Suc n\<rparr>
        else case timer_delay (no_retainedUntil r) (de_now env (Suc n)) of
            None \<Rightarrow> s\<lparr>ds_records := AList.delete key m, ds_reads := Suc (Suc n)\<rparr>
          | Some delay \<Rightarrow> s\<lparr>ds_records := AList.update key (r\<lparr>sr_timer := Some delay\<rparr>) (ds_records s),
              ds_reads := Suc (Suc n)\<rparr>)"
  using assms
  by (auto simp: timer_fires_def find_record_def store_record_def removeRecord_def readNow_apply
      exec_simps schedule_def update_twice Let_def split: option.split)

lemma kept_timer_fires_found:
  assumes wf: "store_wf s" and r: "map_of (ds_records s) key = Some r"
  shows "under store_wf (committed_kept env) s (snd (timer_fires env key s))"
proof -
  let ?n = "ds_reads s" and ?m = "AList.update key (r\<lparr>sr_timer := None\<rparr>) (ds_records s)"
  have open_r: "no_key r = key" "sr_timer r \<noteq> None" "\<not> ds_closed s"
    using map_of_SomeD [OF r] wf by (auto simp: store_wf_def)
  have distinct: "distinct (map fst (ds_records s))" using wf by (simp add: store_wf_def)
  have gone: "under store_wf (committed_kept env) s (s\<lparr>ds_records := AList.delete key ?m, ds_reads := n\<rparr>)"
    if "?n \<le> n" and "clock_reached env ?n n (no_retainedUntil r)" for n
    using that r open_r(3) distinct
    by (auto simp: under_def committed_kept_def map_of_delete map_of_update
        simp del: map_of_eq_Some_iff intro!: store_wf_subset [of s] distinct_keys_delete distinct_keys_update
        dest: subsetD [OF set_delete_update])
  have kept: "under store_wf (committed_kept env) s
      (s\<lparr>ds_records := AList.update key (r\<lparr>sr_timer := Some delay\<rparr>) (ds_records s), ds_reads := n\<rparr>)"
    if "?n \<le> n" for n delay
    using that r open_r store_wf_update [OF wf, of "r\<lparr>sr_timer := Some delay\<rparr>" key]
    by (auto simp: under_def store_wf_def committed_kept_def map_of_update)
  have early: "Fin q \<le> de_now env ?n \<Longrightarrow> clock_reached env ?n (Suc ?n) q" for q
    by (auto simp: clock_reached_def)
  have late: "clock_reached env ?n (Suc (Suc ?n)) (no_retainedUntil r)"
    if "timer_delay (no_retainedUntil r) (de_now env (Suc ?n)) = None"
    unfolding clock_reached_def using timer_delay_None [OF that] by (intro exI [of _ "Suc ?n"]) simp
  show ?thesis
    unfolding timer_fires_apply [OF r open_r(2,3)] Let_def
    by (auto simp: early late intro!: gone kept split: option.split)
qed

lemma kept_timer_fires: "obeys (under store_wf (committed_kept env)) (timer_fires env key)"
proof (rule obeysI)
  fix s
  show "under store_wf (committed_kept env) s (snd (timer_fires env key s))"
  proof (cases "map_of (ds_records s) key")
    case None
    then show ?thesis by (simp add: timer_fires_def find_record_def exec_simps kept.refl)
  next
    case (Some r)
    then show ?thesis
      using kept_timer_fires_found unfolding under_def by blast
  qed
qed

section \<open>Outcomes\<close>

text \<open>Where a decision of \<open>commit\<close> that says \<open>stored\<close> comes from.\<close>

lemma commitRecord_apply:
  "commitRecord key r result taskReference s = (Inr d, t) \<Longrightarrow>
   \<exists>r'. map_of (ds_records t) key = Some r' \<and> no_key r' = no_key r \<and>
     no_fingerprint r' = no_fingerprint r \<and> no_retainedUntil r' = no_retainedUntil r \<and>
     \<not> sr_pending r' \<and> sr_hasResult r' \<and> sr_result r' = result \<and>
     sr_hasTaskReference r' = (taskReference \<noteq> None) \<and> sr_taskReference r' = taskReference \<and>
     dd_record d = Some (snapshot_of r')"
  by (auto simp: commitRecord_def store_record_def exec_simps Let_def map_of_update snapshot_of_def
      identify_def blank_decision_def)

definition committed_as :: "jstr \<Rightarrow> 'r option \<Rightarrow> 't option \<Rightarrow> ('r, 't) decision \<Rightarrow> ('r, 't) dedupe_store \<Rightarrow> bool" where
  "committed_as key result taskReference d t \<longleftrightarrow>
     (\<exists>r. map_of (ds_records t) key = Some r \<and> no_key r = key \<and> \<not> sr_pending r \<and> sr_hasResult r \<and>
        sr_result r = result \<and> sr_hasTaskReference r = (taskReference \<noteq> None) \<and>
        sr_taskReference r = taskReference \<and> dd_record d = Some (snapshot_of r))"

lemma not_stored [simp]:
  "dd_kind (existingDecision r fingerprint) \<noteq> DK_stored" "dd_kind (newDecision n) \<noteq> DK_stored"
  "dd_kind (ignoredDecision v) \<noteq> DK_stored" "dd_kind (existingDecision r fingerprint) \<noteq> DK_new"
  "dd_kind (ignoredDecision v) \<noteq> DK_new" "dd_kind (newDecision n) = DK_new"
  by (simp_all add: existingDecision_def newDecision_def ignoredDecision_def identify_def
      blank_decision_def)

lemma commit_found_stored:
  assumes "commit_found v result taskReference s = (Inr d, t)" and "dd_kind d = DK_stored"
  shows "map_of (ds_records s) (rv_key v) \<noteq> None \<and>
    (\<forall>r. map_of (ds_records s) (rv_key v) = Some r \<longrightarrow>
       commitRecord (rv_key v) r result taskReference s = (Inr d, t))"
  using assms
  by (auto simp: commit_found_def find_record_def exec_simps identify_reservation_def
      blank_decision_def split: option.splits if_splits)

lemma bind_prune_wf:
  assumes "thenE ensureOpen (thenE (prune env) m) s = (Inr d, t)" and "store_wf s"
  shows "\<exists>w. store_wf w \<and> committed_kept env s w \<and> m w = (Inr d, t)"
proof -
  obtain n w where "prune env s = (Inr n, w)" "m w = (Inr d, t)"
    using assms(1) by (auto simp: ensureOpen_def exec_simps split: prod.splits sum.splits if_splits)
  with obeys_under [OF kept_prune _ assms(2)] show ?thesis by blast
qed

lemma commit_reservation_stored:
  assumes "commit_reservation env v result taskReference s = (Inr d, t)"
    and "dd_kind d = DK_stored" and "store_wf s"
  shows "committed_as (rv_key v) result taskReference d t"
proof -
  obtain w where wf: "store_wf w" and m: "commit_found v result taskReference w = (Inr d, t)"
    using bind_prune_wf [OF assms(1) [unfolded commit_reservation_def] assms(3)] assms(2)
    by (auto simp: bindE_eq_Inr thenE_def ret_def identify_reservation_def blank_decision_def
        split: if_splits)
  from commit_found_stored [OF m assms(2)] obtain r
    where "map_of (ds_records w) (rv_key v) = Some r"
      and "commitRecord (rv_key v) r result taskReference w = (Inr d, t)" by auto
  with commitRecord_apply [OF this(2)] wf show ?thesis
    by (fastforce simp: committed_as_def store_wf_def dest: map_of_SomeD)
qed

lemma schedule_returns: "\<exists>t. schedule env key r s = (Inr (), t)"
  by (cases "timer_delay (no_retainedUntil r) (de_now env (ds_reads s))")
     (auto simp: schedule_def readNow_apply removeRecord_def store_record_def exec_simps)

lemma reserve_normalized_new:
  assumes "map_of (ds_records s) (no_key n) = None"
  shows "\<exists>t. reserve_normalized env n s =
      (Inr ((newDecision n)\<lparr>dd_reservation := Some (reservation_of (fresh_record n))\<rparr>), t)"
  using assms schedule_returns [of env "no_key n" "fresh_record n"
      "s\<lparr>ds_records := AList.update (no_key n) (fresh_record n) (ds_records s)\<rparr>"]
  by (auto simp: reserve_normalized_def find_record_def store_record_def exec_simps Let_def
      reservation_of_def fresh_record_def normalized.defs)

lemma reserve_normalized_found:
  "map_of (ds_records s) (no_key n) = Some r \<Longrightarrow>
   reserve_normalized env n s = (Inr (existingDecision r (no_fingerprint n)), s)"
  by (simp add: reserve_normalized_def find_record_def exec_simps)

lemma reserve_outcome:
  assumes "reserve env operation s = (Inr d, t)" and "store_wf s" and "dd_key d \<noteq> None"
  shows "\<exists>n w. store_wf w \<and> committed_kept env s w \<and> ds_reads w \<le> ds_reads t \<and>
    reserve_normalized env n w = (Inr d, t)"
proof -
  obtain u where u: "store_wf u" "committed_kept env s u"
      "(if \<not> isDedupeOperation (operationName operation) then ret (ignoredDecision (operationName operation))
        else bindE (normalize env operation) (reserve_normalized env)) u = (Inr d, t)"
    using bind_prune_wf [OF assms(1) [unfolded reserve_def] assms(2)] by blast
  then obtain n w where n: "normalize env operation u = (Inr n, w)" "reserve_normalized env n w = (Inr d, t)"
    using assms(3) by (auto simp: ret_def ignoredDecision_def blank_decision_def bindE_eq_Inr split: if_splits)
  then have "store_wf w \<and> committed_kept env u w"
    using obeys_under [OF kept_normalize n(1) u(1)] by blast
  moreover have "ds_reads w \<le> ds_reads t"
  proof (cases "map_of (ds_records w) (no_key n)")
    case None
    then show ?thesis
      using n(2) by (auto simp: reserve_normalized_def find_record_def store_record_def exec_simps
          schedule_def readNow_apply removeRecord_def Let_def split: option.splits)
  qed (use n(2) in \<open>simp add: reserve_normalized_found\<close>)
  ultimately show ?thesis using n(2) committed_kept_trans [OF u(2)] by blast
qed

lemma reserve_not_stored:
  assumes "reserve env operation s = (Inr d, t)"
  shows "dd_kind d \<noteq> DK_stored"
proof -
  have "dd_kind d \<noteq> DK_stored" if "reserve_normalized env n w = (Inr d, t)" for n w
    using that reserve_normalized_new [of w n env] reserve_normalized_found [of w n _ env]
    by (cases "map_of (ds_records w) (no_key n)") auto
  then show ?thesis
    using assms by (auto simp: reserve_def thenE_def bindE_eq_Inr ret_def split: if_splits)
qed

lemma busy_not_stored:
  "busy env operation s = (Inr d, t) \<Longrightarrow> dd_kind d \<noteq> DK_stored"
  by (auto simp: busy_def thenE_def bindE_eq_Inr ret_def identify_def blank_decision_def
      split: if_splits)

lemma commit_operation_stored:
  assumes "commit_operation env operation result taskReference s = (Inr d, t)"
    and "dd_kind d = DK_stored" and "store_wf s"
  shows "\<exists>key. committed_as key result taskReference d t"
proof -
  obtain u d0 w where u: "store_wf u" and d0: "reserve env operation u = (Inr d0, w)"
      "(case (dd_kind d0, dd_reservation d0) of
            (DK_new, Some v) \<Rightarrow> commit_reservation env v result taskReference
          | _ \<Rightarrow> ret d0) w = (Inr d, t)"
    using bind_prune_wf [OF assms(1) [unfolded commit_operation_def] assms(3)] assms(2)
    by (fastforce simp: thenE_def bindE_eq_Inr ret_def dest: busy_not_stored split: if_splits)
  have "store_wf w" using obeys_under [OF kept_reserve d0(1) u] by blast
  then show ?thesis
    using d0(2) assms(2) reserve_not_stored [OF d0(1)]
    by (auto simp: ret_def split: decision_kind.splits option.splits dest!: commit_reservation_stored)
qed

lemma commit_stored:
  assumes "commit env target result taskReference s = (Inr d, t)"
    and "dd_kind d = DK_stored" and "store_wf s"
  shows "\<exists>key. committed_as key result taskReference d t"
  using assms commit_reservation_stored commit_operation_stored
  unfolding commit_def by (cases "target_of target") fastforce+

section \<open>Histories\<close>

text \<open>
  The calls a client and the timers make on a store, in any order: every public method of the class (its synonyms
  are the same call) and the timers.  \<open>PruneAt\<close> is \<open>prune\<close> or \<open>cleanup\<close> with a time that the caller gives.
\<close>

datatype ('r, 't) call =
    Inspect jsval
  | GetRecord jsval
  | Reserve jsval
  | Release target
  | Commit target "'r option" "'t option"
  | Admit jsval "('r option \<times> 't option) option"
  | Execute jsval "dedupe_exn + 'r option" "'t option"
  | Busy jsval
  | Size
  | Prune
  | PruneAt jsnum
  | Timer jstr
  | Clear
  | Close

fun call_step :: "'r dedupe_env \<Rightarrow> ('r, 't) call \<Rightarrow> ('r, 't) dedupe_store \<Rightarrow> ('r, 't) dedupe_store" where
  "call_step env (Inspect operation) s = snd (inspect env operation s)"
| "call_step env (GetRecord operation) s = snd (getRecord env operation s)"
| "call_step env (Reserve operation) s = snd (reserve env operation s)"
| "call_step env (Release target) s = snd (release env target s)"
| "call_step env (Commit target result taskReference) s = snd (commit env target result taskReference s)"
| "call_step env (Admit operation arguments) s = snd (admit env operation arguments s)"
| "call_step env (Execute operation producer taskReference) s =
     snd (execute env operation producer taskReference s)"
| "call_step env (Busy operation) s = snd (busy env operation s)"
| "call_step env Size s = snd (size_of env s)"
| "call_step env Prune s = snd (prune env s)"
| "call_step env (PruneAt nowMs) s = snd (prune_at nowMs s)"
| "call_step env Clear s = snd (clear s)"
| "call_step env Close s = snd (close s)"
| "call_step env (Timer key) s = snd (timer_fires env key s)"

definition history :: "'r dedupe_env \<Rightarrow> ('r, 't) call list \<Rightarrow> ('r, 't) dedupe_store \<Rightarrow> ('r, 't) dedupe_store" where
  "history env calls s = fold (call_step env) calls s"

lemmas kept_calls = kept_inspect kept_getRecord kept_reserve kept_release kept_commit kept_admit
  kept_execute kept_busy kept_size kept_prune kept_timer_fires

text \<open>
  The calls that may drop a record retained until \<open>q\<close> before the clock has reached \<open>q\<close>: the store is cleared or
  closed, or it is pruned as of a time the caller gives.
\<close>

fun discards :: "rat \<Rightarrow> ('r, 't) call \<Rightarrow> bool" where
  "discards q (PruneAt nowMs) \<longleftrightarrow> Fin q \<le> nowMs"
| "discards q Clear \<longleftrightarrow> True"
| "discards q Close \<longleftrightarrow> True"
| "discards q _ \<longleftrightarrow> False"

text \<open>What every other call keeps of the committed records that are retained until \<open>q\<close>.\<close>

definition kept_until :: "'r dedupe_env \<Rightarrow> rat \<Rightarrow> ('r, 't) dedupe_store \<Rightarrow> ('r, 't) dedupe_store \<Rightarrow> bool" where
  "kept_until env q s t \<longleftrightarrow> ds_reads s \<le> ds_reads t \<and>
     (\<forall>k r. map_of (ds_records s) k = Some r \<and> \<not> sr_pending r \<and> no_retainedUntil r = q \<longrightarrow>
        (\<exists>r'. map_of (ds_records t) k = Some r' \<and> same_record r r') \<or> clock_reached env (ds_reads s) (ds_reads t) q)"

lemma kept_until_refl: "kept_until env q s s"
  by (auto simp: kept_until_def)

lemma kept_until_trans:
  assumes st: "kept_until env q s t" and tu: "kept_until env q t u"
  shows "kept_until env q s u"
proof -
  have le: "ds_reads s \<le> ds_reads t" "ds_reads t \<le> ds_reads u" using st tu by (auto simp: kept_until_def)
  have reach: "clock_reached env (ds_reads s) (ds_reads t) q \<Longrightarrow> clock_reached env (ds_reads s) (ds_reads u) q"
    "clock_reached env (ds_reads t) (ds_reads u) q \<Longrightarrow> clock_reached env (ds_reads s) (ds_reads u) q"
    using clock_reached_mono le by blast+
  have step: "(\<exists>r''. map_of (ds_records u) k = Some r'' \<and> same_record r r'') \<or> clock_reached env (ds_reads s) (ds_reads u) q"
    if r: "map_of (ds_records s) k = Some r" "\<not> sr_pending r" "no_retainedUntil r = q" for k r
  proof (cases "clock_reached env (ds_reads s) (ds_reads t) q")
    case False
    then obtain r' where r': "map_of (ds_records t) k = Some r'" "same_record r r'"
      using st r unfolding kept_until_def by blast
    moreover have "\<not> sr_pending r'" "no_retainedUntil r' = q" using r same_record_fields [OF r'(2)] by simp_all
    ultimately show ?thesis using tu reach(2) unfolding kept_until_def same_record_def by metis
  qed (use reach(1) in blast)
  then show ?thesis using le by (auto simp: kept_until_def)
qed

lemma committed_kept_until: "committed_kept env s t \<Longrightarrow> kept_until env q s t"
  by (auto simp: committed_kept_def kept_until_def)

lemma wf_prune_at: "store_wf s \<Longrightarrow> store_wf (snd (prune_at nowMs s))"
  by (auto simp: prune_at_def exec_simps store_wf_def distinct_map_filter)

lemma kept_prune_at:
  "store_wf s \<Longrightarrow> \<not> Fin q \<le> nowMs \<Longrightarrow> kept_until env q s (snd (prune_at nowMs s))"
  by (auto simp: prune_at_def exec_simps kept_until_def store_wf_def map_of_filter_distinct)

lemma wf_cleared: "store_wf (snd (clear s))" "store_wf (snd (close s))"
  by (simp_all add: clear_def close_def exec_simps store_wf_def)

lemma call_kept:
  assumes "\<forall>nowMs. c \<noteq> PruneAt nowMs" and "c \<noteq> Clear" and "c \<noteq> Close"
  shows "under store_wf (committed_kept env) s (call_step env c s)"
  using assms by (cases c) (simp_all add: obeysD kept_calls)

lemma call_wf: "store_wf s \<Longrightarrow> store_wf (call_step env c s)"
  using call_kept [of c env s] wf_prune_at [of s] wf_cleared [of s] by (cases c) (auto simp: under_def)

lemma call_kept_until:
  "store_wf s \<Longrightarrow> \<not> discards q c \<Longrightarrow> kept_until env q s (call_step env c s)"
  using call_kept [of c env s] kept_prune_at [of s q] committed_kept_until by (cases c) (auto simp: under_def)

lemma kept_history:
  "store_wf s \<Longrightarrow> \<forall>c \<in> set calls. \<not> discards q c \<Longrightarrow>
   store_wf (history env calls s) \<and> kept_until env q s (history env calls s)"
  unfolding history_def
proof (induction calls arbitrary: s)
  case (Cons c calls)
  then show ?case
    using call_wf [of s env c] call_kept_until [of s q c env] kept_until_trans by fastforce
qed (simp add: kept_until_refl)

text \<open>What a decision says about a committed outcome, when it is about its key.\<close>

definition answers_from :: "('r, 't) decision \<Rightarrow> ('r, 't) dedupe_record \<Rightarrow> bool" where
  "answers_from d c \<longleftrightarrow>
     (if dd_fingerprint d = Some (dr_fingerprint c)
      then dd_kind d = DK_replay \<and> dd_action d = DA_replay \<and> dd_result d = dr_result c \<and>
        dd_taskReference d = dr_taskReference c
      else dd_kind d = DK_duplicate \<and> dd_action d = DA_reject)"

lemma existingDecision_answers:
  assumes "\<not> sr_pending r" and "same_record r0 r"
  shows "answers_from (existingDecision r fingerprint) (snapshot_of r0)"
  using assms(1) same_record_fields [OF assms(2)]
  by (simp add: answers_from_def existingDecision_def snapshot_of_def identify_def blank_decision_def)

lemma existingDecision_key: "dd_key (existingDecision r fingerprint) = Some (no_key r)"
  by (simp add: existingDecision_def identify_def blank_decision_def)

lemma newDecision_key: "dd_key (newDecision n) = Some (no_key n)"
  by (simp add: newDecision_def identify_def blank_decision_def)

lemma kept_untilD:
  assumes "kept_until env (no_retainedUntil r) s t" and "map_of (ds_records s) key = Some r" and "\<not> sr_pending r"
    and "ds_reads t \<le> b" and "\<not> clock_reached env (ds_reads s) b (no_retainedUntil r)"
  shows "\<exists>r'. map_of (ds_records t) key = Some r' \<and> same_record r r' \<and>
    \<not> clock_reached env (ds_reads t) b (no_retainedUntil r)"
proof -
  have le: "ds_reads s \<le> ds_reads t" using assms(1) by (simp add: kept_until_def)
  have "\<not> clock_reached env (ds_reads s) (ds_reads t) (no_retainedUntil r)"
    using assms(5) clock_reached_mono [OF _ order_refl assms(4)] by blast
  moreover have "\<not> clock_reached env (ds_reads t) b (no_retainedUntil r)"
    using assms(5) clock_reached_mono [OF _ le order_refl] by blast
  ultimately show ?thesis using assms(1-3) unfolding kept_until_def by blast
qed

lemma reserve_answers:
  assumes wf: "store_wf s" and r: "map_of (ds_records s) key = Some r" "\<not> sr_pending r"
    and d: "reserve env operation s = (Inr d, t)" "dd_key d = Some key"
    and fresh: "\<not> clock_reached env (ds_reads s) (ds_reads t) (no_retainedUntil r)"
  shows "answers_from d (snapshot_of r)"
proof -
  obtain n w where w: "store_wf w" "committed_kept env s w" "ds_reads w \<le> ds_reads t"
      "reserve_normalized env n w = (Inr d, t)"
    using reserve_outcome [OF d(1) wf] d(2) by auto
  have "no_key n = key"
    using w(1,4) d(2) reserve_normalized_new [of w n env] reserve_normalized_found [of w n _ env]
    by (cases "map_of (ds_records w) (no_key n)")
       (auto simp: existingDecision_key newDecision_key store_wf_def dest!: map_of_SomeD)
  moreover obtain r' where "map_of (ds_records w) key = Some r'" "same_record r r'"
    using kept_untilD [OF committed_kept_until [OF w(2)] r w(3) fresh] by blast
  ultimately show ?thesis
    using w(4) r(2) same_record_fields(4) [of r r']
    by (auto simp: reserve_normalized_found existingDecision_answers)
qed


text \<open>A concrete runtime: a clock that stands still and a validator that accepts every operation.\<close>

definition demo_env :: "nat dedupe_env" where
  "demo_env = \<lparr>de_now = \<lambda>_. Fin 0, de_parse = \<lambda>_. Some 1000,
     de_validate = \<lambda>_ _. Inr (Inr \<lparr>pr_operationId = js ''op'', pr_senderRuntimeId = js ''a'',
       pr_expiresAt = js ''t'', pr_fingerprint = js ''f''\<rparr>),
     de_view = \<lambda>n. if n = 503 then Object [(js ''code'', Text (js ''busy''))] else Null\<rparr>"

definition demo_operation :: jsval where
  "demo_operation = Object [(js ''operation'', Text (js ''task.cancel''))]"

definition demo_store :: "(nat, nat) dedupe_store" where
  "demo_store = \<lparr>ds_records = [], ds_retentionGraceMs = 600000, ds_closed = False, ds_reads = 1\<rparr>"

definition demo_normalized :: normalized where
  "demo_normalized = \<lparr>no_operation = js ''task.cancel'', no_operationId = js ''op'',
     no_senderRuntimeId = js ''a'', no_expiresAt = js ''t'', no_expiresAtMs = 1000,
     no_retainedUntil = 601000, no_key = makeDedupeKey (js ''a'') (js ''op''), no_fingerprint = js ''f''\<rparr>"

lemma demo_normalized: "normalizedOperation demo_env demo_operation now 600000 = Inr demo_normalized"
  by (simp add: normalizedOperation_def demo_env_def demo_operation_def isRecord_def
      DEDUPE_OPERATION_NAMES_def js_def normalized_of_def demo_normalized_def)

lemma demo_is_reservation: "property demo_operation ''kind'' = Text t \<longleftrightarrow> False"
  by (simp add: demo_operation_def js_def)

lemma demo_is_deduplicated: "isDedupeOperation (operationName demo_operation)"
  by (simp add: isDedupeOperation_def operationName_def demo_operation_def isRecord_def
      DEDUPE_OPERATION_NAMES_def js_def)

lemma demo_now [simp]: "de_now demo_env i = Fin 0"
  by (simp add: demo_env_def)

lemma demo_busy [simp]: "isBusyResult (de_view demo_env n) \<longleftrightarrow> n = 503"
  by (simp add: demo_env_def isBusyResult_def isRecord_def)

lemma demo_normalize: "normalize demo_env demo_operation s =
   (case normalizedOperation demo_env demo_operation (Fin 0) (ds_retentionGraceMs s) of
      Inl x \<Rightarrow> (Inl x, s\<lparr>ds_reads := Suc (ds_reads s)\<rparr>)
    | Inr n \<Rightarrow> (Inr n, s\<lparr>ds_reads := Suc (ds_reads s)\<rparr>))"
  by (simp add: normalize_def exec_simps readNow_apply split: sum.split)

definition demo_record :: "(nat, nat) stored_record" where
  "demo_record = normalized.extend demo_normalized \<lparr>sr_pending = False, sr_hasResult = True,
     sr_result = Some 7, sr_hasTaskReference = False, sr_taskReference = None, sr_timer = Some (Fin 601000)\<rparr>"

definition demo_committed :: "(nat, nat) dedupe_store" where
  "demo_committed = demo_store\<lparr>ds_reads := 6, ds_records := [(no_key demo_normalized, demo_record)]\<rparr>"

lemmas demo_exec = thenE_def bindE_apply getE_def ret_def modE_def throw_def readNow_apply
  ensureOpen_def prune_def prune_at_def find_record_def store_record_def removeRecord_def schedule_def
  reserve_def reserve_normalized_def release_def release_pending_def busy_def Let_def
  busy_outcome_def target_of_def demo_is_reservation demo_is_deduplicated demo_normalize demo_normalized

lemmas demo_data = fresh_record_def normalized.defs demo_normalized_def newDecision_def identify_def
  blank_decision_def MAX_TIMER_DELAY_MS_def reservation_of_def identify_reservation_def snapshot_of_def
  demo_record_def demo_committed_def demo_store_def

lemma demo_commit:
  "\<exists>d. commit demo_env (Op demo_operation) (Some 7) None demo_store = (Inr d, demo_committed) \<and>
     dd_kind d = DK_stored \<and> dd_record d = Some (snapshot_of demo_record)"
  unfolding commit_def
  by (simp add: demo_exec commit_operation_def commit_reservation_def commit_found_def
      commitRecord_def demo_data)

lemma demo_retry:
  "reserve demo_env demo_operation (history demo_env [Reserve demo_operation, Prune, PruneAt (Fin 601)] demo_committed) =
     (Inr (existingDecision demo_record (no_fingerprint demo_normalized)), demo_committed\<lparr>ds_reads := 11\<rparr>)"
  by (simp add: demo_exec history_def demo_data)


section \<open>What a refused execution leaves behind\<close>

lemma shrinking_prune: "obeys no_new_record (prune env)"
  by (rule obeysI) (auto simp: prune_def prune_at_def readNow_apply exec_simps no_new_record_def)

lemma shrinking_readNow: "obeys no_new_record (readNow env)"
  by (rule obeysI) (simp add: readNow_apply no_new_record_def)

lemma shrinking_normalize: "obeys no_new_record (normalize env operation)"
  unfolding normalize_def by (intro shrinking.closure shrinking_readNow)

lemma shrinking_ensureOpen: "obeys no_new_record ensureOpen"
  unfolding ensureOpen_def by (intro shrinking.closure)

lemma shrinking_release_pending: "obeys no_new_record (release_pending key fingerprint)"
  unfolding release_pending_def find_record_def removeRecord_def
  by (intro shrinking.closure shrinking.modE)
     (auto simp: no_new_record_def dest: subsetD [OF set_delete_subset])

lemmas shrinking_basic = shrinking.closure shrinking_prune shrinking_normalize shrinking_ensureOpen

lemma shrinking_busy: "obeys no_new_record (busy env operation)"
  unfolding busy_def by (intro shrinking_basic)

lemma shrinking_release: "obeys no_new_record (release env t)"
  unfolding release_def by (cases "target_of t") (auto intro!: shrinking_basic shrinking_release_pending)

text \<open>Every record of the second store is in the first, except a pending one of a reservation.\<close>

definition adds_only :: "reservation \<Rightarrow> ('r, 't) dedupe_store \<Rightarrow> ('r, 't) dedupe_store \<Rightarrow> bool" where
  "adds_only v s t \<longleftrightarrow> (\<forall>(k, r) \<in> set (ds_records t). (k, r) \<in> set (ds_records s) \<or>
     (k = rv_key v \<and> sr_pending r \<and> no_fingerprint r = rv_fingerprint v))"

lemma adds_only_prefix: "no_new_record s w \<Longrightarrow> adds_only v w t \<Longrightarrow> adds_only v s t"
  unfolding adds_only_def no_new_record_def by fast

lemma adds_only_suffix: "adds_only v s w \<Longrightarrow> no_new_record w t \<Longrightarrow> adds_only v s t"
  unfolding adds_only_def no_new_record_def by fast

lemma fresh_record_until [simp]: "no_retainedUntil (fresh_record n) = no_retainedUntil n"
  by (simp add: fresh_record_def normalized.defs)

lemma no_reservation [simp]:
  "dd_reservation (existingDecision r fingerprint) = None" "dd_reservation (ignoredDecision x) = None"
  by (simp_all add: existingDecision_def ignoredDecision_def identify_def blank_decision_def)

lemma reserve_normalized_adds:
  assumes "reserve_normalized env n s = (Inr d, t)" and "dd_reservation d = Some v"
  shows "adds_only v s t"
proof (cases "map_of (ds_records s) (no_key n)")
  case (Some r)
  then show ?thesis using assms by (auto simp: reserve_normalized_found)
next
  case None
  then have v: "rv_key v = no_key n" "rv_fingerprint v = no_fingerprint n"
    using assms reserve_normalized_new [OF None, of env]
    by (auto simp: reservation_of_def fresh_record_def normalized.defs)
  have "\<exists>x. set (ds_records t) \<subseteq> insert (no_key n, (fresh_record n)\<lparr>sr_timer := x\<rparr>) (set (ds_records s))"
    using assms(1) None set_delete_update [of "no_key n" "fresh_record n" "ds_records s"]
      set_update_subset [of "no_key n" _ "ds_records s"]
    by (cases "timer_delay (no_retainedUntil n) (de_now env (ds_reads s))")
       (auto simp: reserve_normalized_def demo_exec update_twice, blast+)
  then show ?thesis
    by (auto simp: adds_only_def v fresh_record_def normalized.defs)
qed

lemma shrinking_result:
  "m s = (z, t) \<Longrightarrow> obeys no_new_record m \<Longrightarrow> no_new_record s t"
  by (rule obeys_result)

lemma reserve_adds:
  assumes "reserve env operation s = (Inr d, t)" and "dd_reservation d = Some v"
  shows "adds_only v s t"
proof -
  obtain n a b c e f where w: "ensureOpen s = (Inr e, a)" "prune env a = (Inr f, b)"
      "normalize env operation b = (Inr n, c)" "reserve_normalized env n c = (Inr d, t)"
    using assms by (auto simp: reserve_def thenE_def bindE_eq_Inr ret_def split: if_splits)
  have "no_new_record s c"
    using w(1-3) shrinking.trans shrinking_result shrinking_ensureOpen shrinking_prune shrinking_normalize
    by metis
  then show ?thesis
    using adds_only_prefix reserve_normalized_adds [OF w(4) assms(2)] by blast
qed

lemma reserve_shrinks:
  assumes "reserve env operation s = (z, t)" and "\<forall>d. z = Inr d \<longrightarrow> dd_reservation d = None"
  shows "no_new_record s t"
proof -
  have base: "no_new_record w t" if "reserve_normalized env n w = (z, t)" for n w
    using that assms(2) reserve_normalized_new [of w n env] reserve_normalized_found [of w n _ env]
    by (cases "map_of (ds_records w) (no_key n)") (auto simp: shrinking.refl)
  then have *: "no_new_record u t" if "bindE (normalize env operation) (reserve_normalized env) u = (z, t)" for u
    using that obeysD [OF shrinking_normalize, of u env operation]
    by (auto intro: shrinking.trans base simp: bindE_def split: prod.splits sum.splits)
  have **: "no_new_record u t" if "thenE (prune env)
     (if \<not> isDedupeOperation (operationName operation)
      then ret (ignoredDecision (operationName operation))
      else bindE (normalize env operation) (reserve_normalized env)) u = (z, t)" for u
    using that obeysD [OF shrinking_prune, of u env] *
    unfolding thenE_def bindE_def [of "prune env"] ret_def
    by (auto intro: shrinking.trans split: prod.splits sum.splits if_splits)
  show ?thesis
    using assms(1) ** [of s] unfolding reserve_def thenE_def [of ensureOpen]
    by (auto simp: bindE_apply ensureOpen_def getE_def throw_def ret_def shrinking.refl split: if_splits)
qed

lemma release_pending_drops:
  assumes "release_pending (rv_key v) (rv_fingerprint v) s = (Inr b, t)" and "store_wf s"
    and "adds_only v s0 s"
  shows "no_new_record s0 t"
proof -
  have unique: "map_of (ds_records s) k = Some r" if "(k, r) \<in> set (ds_records s)" for k r
    using that assms(2) by (simp add: store_wf_def)
  show ?thesis
  proof (cases "map_of (ds_records s) (rv_key v)")
    case None
    then show ?thesis
      using assms(1,3) unique by (fastforce simp: release_pending_def demo_exec no_new_record_def adds_only_def)
  next
    case (Some r)
    show ?thesis
    proof (cases "sr_pending r \<and> no_fingerprint r = rv_fingerprint v")
      case True
      with Some assms(1) have "ds_records t = AList.delete (rv_key v) (ds_records s)"
        by (auto simp: release_pending_def demo_exec)
      with assms(3) show ?thesis by (auto simp: no_new_record_def adds_only_def AList.delete_eq)
    next
      case False
      with Some assms(1) have "t = s" by (auto simp: release_pending_def demo_exec)
      with assms(3) Some unique False show ?thesis
        by (fastforce simp: no_new_record_def adds_only_def)
    qed
  qed
qed

lemma release_drops:
  assumes "release env (Res v) s = (Inr b, t)" and "store_wf s" and "adds_only v s0 s"
  shows "no_new_record s0 t"
proof -
  obtain e f a w where w: "ensureOpen s = (Inr e, a)" "prune env a = (Inr f, w)"
      "release_pending (rv_key v) (rv_fingerprint v) w = (Inr b, t)"
    using assms(1) by (auto simp: release_def thenE_def bindE_eq_Inr)
  have "store_wf a" using obeys_under [OF kept_ensureOpen w(1) assms(2)] by simp
  then have "store_wf w" using obeys_under [OF kept_prune w(2)] by simp
  moreover have "no_new_record s w"
    using shrinking.trans [OF shrinking_result [OF w(1) shrinking_ensureOpen] shrinking_result [OF w(2) shrinking_prune]] .
  ultimately show ?thesis
    using release_pending_drops [OF w(3)] adds_only_suffix [OF assms(3)] by blast
qed

lemma reserve_admits:
  assumes "reserve env operation s = (Inr d, t)" and "dd_reservation d = Some v"
  shows "dd_kind d = DK_new \<and> \<not> ds_closed s"
proof -
  obtain n w e a where w: "reserve_normalized env n w = (Inr d, t)" "ensureOpen s = (Inr e, a)"
    using assms by (auto simp: reserve_def thenE_def bindE_eq_Inr ret_def split: if_splits)
  then have "dd_kind d = DK_new"
    using assms(2) reserve_normalized_new [of w n env] reserve_normalized_found [of w n _ env]
    by (cases "map_of (ds_records w) (no_key n)") auto
  with w(2) show ?thesis by (auto simp: ensureOpen_def exec_simps split: if_splits)
qed

lemma release_returns:
  assumes "\<forall>i. is_finite (de_now env i)" and "\<not> ds_closed s"
  shows "\<exists>b t. release env (Res v) s = (Inr b, t)"
  using assms
  by (auto simp: release_def demo_exec split: option.split)

text \<open>
  C0: No tombstones.  When the clock keeps returning finite values, an \<open>execute\<close> whose producer
  throws or answers busy leaves no record that was not there before, on every path: an
  ignored, invalid, replayed or duplicate operation, a fresh reservation that is released, and
  a second validation that fails.  The operation id can therefore be retried.
\<close>

theorem failed_execution_leaves_no_record:
  assumes "store_wf s" and "\<forall>i. is_finite (de_now env i)"
    and "case producer of Inl x \<Rightarrow> True | Inr result \<Rightarrow> busy_outcome env result"
    and "execute env operation producer taskReference s = (z, t)"
  shows "set (ds_records t) \<subseteq> set (ds_records s)"
proof (cases "\<exists>d v u. reserve env operation s = (Inr d, u) \<and> dd_reservation d = Some v")
  case False
  obtain y w where y: "reserve env operation s = (y, w)" by fastforce
  with False have "no_new_record s w" by (intro reserve_shrinks) auto
  moreover have "w = t"
    using y False assms(4)
    by (cases y) (auto simp: execute_def bindE_apply ret_def split: decision_kind.splits option.splits)
  ultimately show ?thesis by (simp add: no_new_record_def)
next
  case True
  then obtain d v u where r: "reserve env operation s = (Inr d, u)" "dd_reservation d = Some v" by blast
  have u: "store_wf u" "\<not> ds_closed u" "dd_kind d = DK_new"
    using obeys_under [OF kept_reserve r(1) assms(1)] reserve_admits [OF r] by (auto simp: committed_kept_def)
  obtain b w where w: "release env (Res v) u = (Inr b, w)"
    using release_returns [OF assms(2) u(2)] by blast
  have "no_new_record s w"
    using release_drops [OF w u(1) reserve_adds [OF r]] .
  moreover have "no_new_record w t"
  proof (cases producer)
    case (Inl x)
    then show ?thesis
      using assms(4) r u(3) w by (auto simp: execute_def bindE_apply throw_def catchE_def thenE_def shrinking.refl)
  next
    case (Inr result)
    then have "catchE (busy env operation) (\<lambda>x. thenE (release env (Res v)) (throw x)) w = (z, t)"
      using assms(3,4) r u(3) w by (auto simp: execute_def bindE_apply catchE_def thenE_def)
    then show ?thesis
      by (rule shrinking_result) (intro shrinking_basic shrinking_busy shrinking_release)
  qed
  ultimately show ?thesis
    using shrinking.trans unfolding no_new_record_def by blast
qed

theorem failed_execution_leaves_no_record_witness:
  "\<exists>z t. execute demo_env demo_operation (Inr (Some 503)) (None :: nat option) demo_store = (z, t) \<and>
     ds_records t = []"
proof -
  obtain z t where e: "execute demo_env demo_operation (Inr (Some 503)) (None :: nat option) demo_store = (z, t)"
    by fastforce
  have "set (ds_records t) \<subseteq> set (ds_records demo_store)"
    by (rule failed_execution_leaves_no_record [OF _ _ _ e])
       (simp_all add: store_wf_def demo_store_def busy_outcome_def)
  with e show ?thesis by (simp add: demo_store_def)
qed

text \<open>A reservation whose retention is over by the time its timer would be armed.\<close>

lemma reserve_late:
  assumes "reserve env operation s = (Inr d, t)" and "dd_reservation d = Some v"
    and "Fin (rv_retainedUntil v) \<le> de_now env (ds_reads t - 1)"
  shows "map_of (ds_records t) (rv_key v) = None"
proof -
  obtain n w where w: "reserve_normalized env n w = (Inr d, t)"
    using assms by (auto simp: reserve_def thenE_def bindE_eq_Inr ret_def split: if_splits)
  have none: "map_of (ds_records w) (no_key n) = None"
    using w assms(2) by (cases "map_of (ds_records w) (no_key n)") (auto simp: reserve_normalized_found)
  have v: "rv_key v = no_key n" "rv_retainedUntil v = no_retainedUntil n"
    using w assms(2) reserve_normalized_new [OF none, of env]
    by (auto simp: reservation_of_def fresh_record_def normalized.defs)
  have reads: "ds_reads t = Suc (ds_reads w)"
    using w none by (auto simp: reserve_normalized_def demo_exec split: option.splits)
  have "timer_delay q x = None" if "Fin q \<le> x" for q x
    using that by (cases x) auto
  then have "timer_delay (no_retainedUntil n) (de_now env (ds_reads w)) = None"
    using assms(3) v reads by simp
  with w none show ?thesis
    by (auto simp: reserve_normalized_def demo_exec v map_of_delete)
qed

lemma commit_found_missing:
  "map_of (ds_records s) (rv_key v) = None \<Longrightarrow>
   commit_found v result taskReference s = (Inr ((identify_reservation v (blank_decision DK_expired DA_retry))
     \<lparr>dd_error := Some expiredError, dd_retryable := Some False\<rparr>), s)"
  by (simp add: commit_found_def demo_exec)

lemma missing_stays: "no_new_record s t \<Longrightarrow> map_of (ds_records s) k = None \<Longrightarrow> map_of (ds_records t) k = None"
  by (auto simp: no_new_record_def map_of_eq_None_iff)

text \<open>
  C0: A reservation that comes too late.  If the clock has reached the end of the retention
  by the time \<open>reserve\<close> arms the timer, the decision still says \<open>new\<close> and carries a
  reservation, but nothing has been stored: committing it stores nothing either, answers
  \<open>expired\<close> and is not retryable.
\<close>

theorem late_reservation_cannot_commit:
  assumes "reserve env operation s = (Inr d, t)" and "dd_reservation d = Some v"
    and "Fin (rv_retainedUntil v) \<le> de_now env (ds_reads t - 1)"
    and "commit env (Res v) result taskReference t = (Inr outcome, u)"
    and "\<not> busy_outcome env result"
  shows "dd_kind d = DK_new \<and> dd_kind outcome = DK_expired \<and> dd_error outcome = Some expiredError \<and>
    map_of (ds_records t) (rv_key v) = None \<and> map_of (ds_records u) (rv_key v) = None"
proof -
  have t: "map_of (ds_records t) (rv_key v) = None" by (rule reserve_late [OF assms(1-3)])
  obtain e a f w where w: "ensureOpen t = (Inr e, a)" "prune env a = (Inr f, w)"
      "commit_found v result taskReference w = (Inr outcome, u)"
    using assms(4,5) by (auto simp: commit_def commit_reservation_def thenE_def bindE_eq_Inr)
  have "no_new_record t w"
    using shrinking.trans [OF shrinking_result [OF w(1) shrinking_ensureOpen] shrinking_result [OF w(2) shrinking_prune]] .
  then have "map_of (ds_records w) (rv_key v) = None" using t missing_stays by blast
  with w(3) t reserve_admits [OF assms(1,2)] show ?thesis
    by (auto simp: commit_found_missing identify_reservation_def blank_decision_def)
qed

definition late_env :: "nat dedupe_env" where
  "late_env = demo_env\<lparr>de_now := \<lambda>_. Fin 700000\<rparr>"

theorem late_reservation_cannot_commit_witness:
  "\<exists>d v t outcome u. reserve late_env demo_operation demo_store = (Inr d, t) \<and> dd_kind d = DK_new \<and>
     commit late_env (Res v) (Some 7) (None :: nat option) t = (Inr outcome, u) \<and> dd_kind outcome = DK_expired"
proof -
  let ?v = "\<lparr>rv_key = no_key demo_normalized, rv_senderRuntimeId = js ''a'', rv_operationId = js ''op'',
    rv_operation = js ''task.cancel'', rv_fingerprint = js ''f'', rv_retainedUntil = 601000\<rparr>"
  have n: "normalizedOperation late_env demo_operation now 600000 = Inr demo_normalized" for now
    by (simp add: normalizedOperation_def late_env_def demo_env_def demo_operation_def isRecord_def
      DEDUPE_OPERATION_NAMES_def js_def normalized_of_def demo_normalized_def)
  have now: "de_now late_env i = Fin 700000" "isBusyResult (de_view late_env k) \<longleftrightarrow> k = 503" for i k
    using demo_busy [of k] by (simp_all add: late_env_def)
  have r: "reserve late_env demo_operation demo_store =
      (Inr ((newDecision demo_normalized)\<lparr>dd_reservation := Some ?v\<rparr>), demo_store\<lparr>ds_reads := 4\<rparr>)"
    by (simp add: demo_exec now normalize_def n demo_data)
  obtain outcome u where c: "commit late_env (Res ?v) (Some 7) (None :: nat option)
      (demo_store\<lparr>ds_reads := 4\<rparr>) = (Inr outcome, u)"
    by (simp add: commit_def commit_reservation_def commit_found_def demo_exec now demo_data)
  show ?thesis
    using late_reservation_cannot_commit [OF r _ _ c] r c by (auto simp: now busy_outcome_def)
qed

end
