(* ===== verification/Task_Store.thy ===== *)
theory Task_Store
  imports Protocol_Errors Task_State
begin

text \<open>
  The runtime-local task store (\<open>src/router/task-store.ts\<close>): admission, transitions, deadlines,
  cancellation, authorization and retention.  The two clocks, the platform's date functions and
  the authorization callback are fields of the environment; every reading of a clock is a
  separate value.  What the observers (state changes, cancellations, expiries, abort signals)
  are told is kept in order in a list of events; an observer does not call back into the store.
\<close>

section \<open>Data\<close>

text \<open>A timestamp given as text, as a number or as a \<open>Date\<close> (its time value).\<close>

datatype timestamp_input = TS_text string | TS_number jsnum | TS_date jsnum

datatype owner_input = Owner_id string | Owner_object "string option" "string option"

record task_owner =
  ow_runtimeId :: string
  ow_sessionId :: "string option"

datatype ownership = Inbound | Outbound

record task_snapshot =
  sn_requestId :: string
  sn_state :: task_state
  sn_createdAt :: string
  sn_updatedAt :: string
  sn_expiresAt :: string
  sn_cancellationRequested :: bool
  sn_cancellation :: "string option option"
  sn_terminalOutcome :: "task_state option"
  sn_content :: "jsval option"
  sn_error :: "protocol_error option"

record task_response =
  rs_content :: "jsval option"
  rs_error :: "protocol_error option"

text \<open>In an update, an absent property differs from one that is present and undefined.\<close>

record task_update =
  up_content :: "jsval option option"
  up_error :: "protocol_error option option"
  up_response :: "task_response option"
  up_cancellationRequested :: "bool option"
  up_requestedAt :: "timestamp_input option"
  up_updatedAt :: "timestamp_input option"
  up_reason :: "jstr option"

record create_input =
  ci_requestId :: string
  ci_requester :: "owner_input option"
  ci_owner :: "owner_input option"
  ci_sender :: "owner_input option"
  ci_ownerRuntimeId :: "string option"
  ci_senderRuntimeId :: "string option"
  ci_ownerSessionId :: "string option"
  ci_localOwner :: "owner_input option"
  ci_expectedTargetRuntimeId :: "string option"
  ci_roomId :: "string option"
  ci_responseContract :: "jsval option"
  ci_ownership :: "ownership option"
  ci_direction :: "ownership option"
  ci_createdAt :: "timestamp_input option"
  ci_expiresAt :: "timestamp_input option"
  ci_initialState :: "task_state option"
  ci_state :: "task_state option"
  ci_admissionState :: "task_state option"
  ci_cancellationRequested :: "bool option"
  ci_requestedAt :: "timestamp_input option"
  ci_response :: "task_response option"
  ci_content :: "jsval option"
  ci_error :: "protocol_error option"

datatype store_error_code =
    SE_duplicate | SE_not_found | SE_invalid_transition | SE_terminal | SE_unauthorized
  | SE_not_cancelable | SE_expired | SE_disposed

datatype store_exn =
    TaskStoreError store_error_code "string option" "task_snapshot option"
  | StoreJs js_exn

text \<open>\<open>st_aborted\<close> is the reason the task's own abort controller was aborted with, if it was.\<close>

record stored_task =
  st_requestId :: string
  st_owner :: task_owner
  st_localOwner :: task_owner
  st_expectedTargetRuntimeId :: "string option"
  st_roomId :: "string option"
  st_responseContract :: "jsval option"
  st_ownership :: ownership
  st_aborted :: "jstr option option"
  st_deadlineMs :: rat
  st_deadlineMonotonicMs :: rat
  st_updatedAtMs :: rat
  st_snapshot :: task_snapshot
  st_expiryTimer :: "rat option"
  st_purgeTimer :: "rat option"

datatype task_event =
    Aborted string "jstr option"
  | StateChange string task_state task_state task_snapshot
  | CancellationRequested string task_snapshot "jstr option"
  | Expired string task_snapshot

record task_store =
  ts_records :: "(string \<times> stored_task) list"
  ts_queued :: "string list"
  ts_disposed :: bool
  ts_wallReads :: nat
  ts_monoReads :: nat
  ts_events :: "task_event list"

datatype auth_action = Act_status | Act_cancel

record auth_request =
  ar_requestId :: string
  ar_action :: auth_action
  ar_owner :: task_owner
  ar_callerRuntimeId :: string

text \<open>The platform: \<open>te_parse\<close> is \<open>Date.parse\<close> where it is a number, \<open>te_iso\<close> the text of a
  valid time value.\<close>

record task_env =
  te_wall :: clock
  te_mono :: clock
  te_parse :: "string \<Rightarrow> rat option"
  te_iso :: "int \<Rightarrow> string"
  te_retainTerminalResponse :: bool
  te_terminalRetentionMs :: jsnum
  te_localOwnerRuntimeId :: "string option"
  te_authorize :: "(auth_request \<Rightarrow> bool) option"

type_synonym 'a tasks = "(task_store, store_exn, 'a) exec"

definition DEFAULT_REQUEST_TTL_MS :: rat where
  "DEFAULT_REQUEST_TTL_MS = 600000"

section \<open>Pure helpers\<close>

definition or_else :: "'a option \<Rightarrow> 'a option \<Rightarrow> 'a option" where
  "or_else a b = (case a of None \<Rightarrow> b | Some x \<Rightarrow> Some x)"

definition the_or :: "'a \<Rightarrow> 'a option \<Rightarrow> 'a" where
  "the_or d a = (case a of None \<Rightarrow> d | Some x \<Rightarrow> x)"

text \<open>The largest time value of a \<open>Date\<close>, and the truncation it applies to a number.\<close>

definition MAX_TIME_VALUE :: rat where
  "MAX_TIME_VALUE = 8640000000000000"

definition js_trunc :: "rat \<Rightarrow> int" where
  "js_trunc q = (if q \<ge> 0 then \<lfloor>q\<rfloor> else \<lceil>q\<rceil>)"

record normalized_timestamp =
  nt_value :: string
  nt_epochMs :: rat

definition invalid_time :: store_exn where
  "invalid_time = StoreJs (RangeErrorExn ''Invalid time value'')"

definition normalizeTimestamp :: "task_env \<Rightarrow> timestamp_input \<Rightarrow> store_exn + normalized_timestamp" where
  "normalizeTimestamp env v =
     (case v of
        TS_date (Fin t) \<Rightarrow>
          if \<bar>t\<bar> \<le> MAX_TIME_VALUE
          then Inr \<lparr>nt_value = te_iso env (js_trunc t), nt_epochMs = of_int (js_trunc t)\<rparr>
          else Inl invalid_time
      | TS_date _ \<Rightarrow> Inl invalid_time
      | TS_number (Fin t) \<Rightarrow>
          if \<bar>t\<bar> \<le> MAX_TIME_VALUE
          then Inr \<lparr>nt_value = te_iso env (js_trunc t), nt_epochMs = t\<rparr>
          else Inl invalid_time
      | TS_number _ \<Rightarrow> Inl invalid_time
      | TS_text w \<Rightarrow>
          (case te_parse env w of
             None \<Rightarrow> Inl (StoreJs (RangeErrorExn ''task timestamps must be finite dates''))
           | Some t \<Rightarrow> Inr \<lparr>nt_value = w, nt_epochMs = t\<rparr>))"

definition nowTimestamp :: "task_env \<Rightarrow> rat \<Rightarrow> store_exn + normalized_timestamp" where
  "nowTimestamp env epochMs = normalizeTimestamp env (TS_date (Fin epochMs))"

definition runtimeIdOf :: "owner_input option \<Rightarrow> string option" where
  "runtimeIdOf v = (case v of None \<Rightarrow> None | Some (Owner_id r) \<Rightarrow> Some r | Some (Owner_object r _) \<Rightarrow> r)"

definition owner_required :: store_exn where
  "owner_required = StoreJs (TypeErrorExn ''a task owner runtimeId is required'')"

definition normalizeOwnerValue :: "owner_input option \<Rightarrow> store_exn + task_owner option" where
  "normalizeOwnerValue owner =
     (case owner of
        None \<Rightarrow> Inr None
      | Some v \<Rightarrow>
          (case runtimeIdOf (Some v) of
             None \<Rightarrow> Inl owner_required
           | Some r \<Rightarrow>
               if r = [] then Inl owner_required
               else Inr (Some \<lparr>ow_runtimeId = r,
                 ow_sessionId = (case v of Owner_object _ sessionId \<Rightarrow> sessionId | _ \<Rightarrow> None)\<rparr>)))"

definition normalizeOwner :: "create_input \<Rightarrow> store_exn + task_owner" where
  "normalizeOwner input =
     (case normalizeOwnerValue (or_else (ci_requester input) (or_else (ci_owner input) (ci_sender input))) of
        Inl x \<Rightarrow> Inl x
      | Inr (Some owner) \<Rightarrow> Inr owner
      | Inr None \<Rightarrow>
          (case normalizeOwnerValue
              (case or_else (ci_ownerRuntimeId input) (ci_senderRuntimeId input) of
                 None \<Rightarrow> None
               | Some r \<Rightarrow> Some (Owner_object (Some r) (ci_ownerSessionId input))) of
             Inl x \<Rightarrow> Inl x
           | Inr (Some owner) \<Rightarrow> Inr owner
           | Inr None \<Rightarrow> Inl owner_required))"

definition normalizeLocalOwner ::
  "create_input \<Rightarrow> task_owner \<Rightarrow> string option \<Rightarrow> store_exn + task_owner" where
  "normalizeLocalOwner input requester localOwnerRuntimeId =
     (case normalizeOwnerValue (ci_localOwner input) of
        Inl x \<Rightarrow> Inl x
      | Inr (Some owner) \<Rightarrow> Inr owner
      | Inr None \<Rightarrow>
          (case normalizeOwnerValue (map_option (\<lambda>r. Owner_object (Some r) None) localOwnerRuntimeId) of
             Inl x \<Rightarrow> Inl x
           | Inr (Some owner) \<Rightarrow> Inr owner
           | Inr None \<Rightarrow> Inr requester))"

definition empty_update :: task_update where
  "empty_update = \<lparr>up_content = None, up_error = None, up_response = None,
     up_cancellationRequested = None, up_requestedAt = None, up_updatedAt = None, up_reason = None\<rparr>"

text \<open>A present property read as a value: absent and undefined are the same.\<close>

definition flat :: "'a option option \<Rightarrow> 'a option" where
  "flat a = (case a of None \<Rightarrow> None | Some b \<Rightarrow> b)"

definition responseForUpdate :: "task_update \<Rightarrow> task_response" where
  "responseForUpdate update = (case up_response update of
      Some response \<Rightarrow> response
    | None \<Rightarrow> \<lparr>rs_content = flat (up_content update), rs_error = flat (up_error update)\<rparr>)"

definition updateReason :: "task_update \<Rightarrow> jstr option" where
  "updateReason update = or_else (up_reason update) (map_option pe_message (flat (up_error update)))"

text \<open>What a caller hands to \<open>completeTask\<close>, \<open>failTask\<close> and \<open>rejectTask\<close>.\<close>

datatype outcome_input =
    Omitted | ContentValue jsval | ErrorValue protocol_error | UpdateValue task_update

definition toTransitionUpdate :: "outcome_input \<Rightarrow> bool \<Rightarrow> task_update" where
  "toTransitionUpdate v error_property =
     (case v of
        Omitted \<Rightarrow> empty_update
      | ContentValue c \<Rightarrow> empty_update\<lparr>up_content := Some (Some c)\<rparr>
      | ErrorValue e \<Rightarrow>
          if error_property then empty_update\<lparr>up_error := Some (Some e)\<rparr> else empty_update
      | UpdateValue update \<Rightarrow> update)"

record snapshot_input =
  si_requestId :: string
  si_state :: task_state
  si_createdAt :: string
  si_updatedAt :: string
  si_expiresAt :: string
  si_cancellationRequested :: bool
  si_requestedAt :: "string option"
  si_content :: "jsval option"
  si_error :: "protocol_error option"
  si_terminal :: bool
  si_terminalResponse :: task_response

definition buildSnapshot :: "task_env \<Rightarrow> snapshot_input \<Rightarrow> task_snapshot" where
  "buildSnapshot env input =
     \<lparr>sn_requestId = si_requestId input, sn_state = si_state input,
      sn_createdAt = si_createdAt input, sn_updatedAt = si_updatedAt input,
      sn_expiresAt = si_expiresAt input,
      sn_cancellationRequested = si_cancellationRequested input,
      sn_cancellation = (if si_cancellationRequested input then Some (si_requestedAt input) else None),
      sn_terminalOutcome = (if si_terminal input then Some (si_state input) else None),
      sn_content =
        (if si_terminal input
         then (if te_retainTerminalResponse env
               then or_else (rs_content (si_terminalResponse input)) (si_content input) else None)
         else si_content input),
      sn_error =
        (if si_terminal input
         then (if te_retainTerminalResponse env
               then or_else (rs_error (si_terminalResponse input)) (si_error input) else None)
         else si_error input)\<rparr>"

definition projectSnapshot :: "task_snapshot \<Rightarrow> bool \<Rightarrow> task_snapshot" where
  "projectSnapshot snapshot includeTerminalResponse =
     (if \<not> isTerminalTaskState (sn_state snapshot) \<or> includeTerminalResponse then snapshot
      else snapshot\<lparr>sn_content := None, sn_error := None\<rparr>)"

section \<open>Clocks, lookup and authorization\<close>

definition new_task_store :: "task_env \<Rightarrow> store_exn + task_store" where
  "new_task_store env =
     (if te_terminalRetentionMs env < Fin 0 \<or> te_terminalRetentionMs env = NaN
      then Inl (StoreJs (RangeErrorExn ''terminal retention must be non-negative''))
      else Inr \<lparr>ts_records = [], ts_queued = [], ts_disposed = False, ts_wallReads = 0,
        ts_monoReads = 0, ts_events = []\<rparr>)"

definition ensureUsable :: "unit tasks" where
  "ensureUsable = bindE (getE ts_disposed)
     (\<lambda>disposed. if disposed then throw (TaskStoreError SE_disposed None None) else ret ())"

definition finite_reading :: "string \<Rightarrow> jsnum \<Rightarrow> rat tasks" where
  "finite_reading message reading =
     (case reading of Fin q \<Rightarrow> ret q | _ \<Rightarrow> throw (StoreJs (RangeErrorExn message)))"

definition currentNow :: "task_env \<Rightarrow> rat tasks" where
  "currentNow env = bindE (getE ts_wallReads)
     (\<lambda>i. thenE (modE (\<lambda>s. s\<lparr>ts_wallReads := Suc i\<rparr>))
       (finite_reading ''task store clock must return a finite epoch'' (te_wall env i)))"

definition currentMonotonic :: "task_env \<Rightarrow> rat tasks" where
  "currentMonotonic env = bindE (getE ts_monoReads)
     (\<lambda>i. thenE (modE (\<lambda>s. s\<lparr>ts_monoReads := Suc i\<rparr>))
       (finite_reading ''task store monotonic clock must return a finite value'' (te_mono env i)))"

definition lift_sum :: "store_exn + 'a \<Rightarrow> 'a tasks" where
  "lift_sum v = (case v of Inl x \<Rightarrow> throw x | Inr a \<Rightarrow> ret a)"

definition findRecord :: "string \<Rightarrow> stored_task option tasks" where
  "findRecord requestId = getE (\<lambda>s. map_of (ts_records s) requestId)"

definition put_record :: "string \<Rightarrow> stored_task \<Rightarrow> unit tasks" where
  "put_record key r = modE (\<lambda>s. s\<lparr>ts_records := AList.update key r (ts_records s)\<rparr>)"

text \<open>Changing the record of a key that is present.\<close>

definition change_record :: "string \<Rightarrow> (stored_task \<Rightarrow> stored_task) \<Rightarrow> unit tasks" where
  "change_record key f = modE (\<lambda>s. case map_of (ts_records s) key of
       None \<Rightarrow> s
     | Some r \<Rightarrow> s\<lparr>ts_records := AList.update key (f r) (ts_records s)\<rparr>)"

definition emit :: "task_event \<Rightarrow> unit tasks" where
  "emit e = modE (\<lambda>s. s\<lparr>ts_events := ts_events s @ [e]\<rparr>)"

text \<open>The set of queued keys, in insertion order.\<close>

definition queue_add :: "string \<Rightarrow> unit tasks" where
  "queue_add key = modE (\<lambda>s. s\<lparr>ts_queued :=
     (if key \<in> set (ts_queued s) then ts_queued s else ts_queued s @ [key])\<rparr>)"

definition queue_delete :: "string \<Rightarrow> unit tasks" where
  "queue_delete key = modE (\<lambda>s. s\<lparr>ts_queued := filter (\<lambda>k. k \<noteq> key) (ts_queued s)\<rparr>)"

definition isAuthorized :: "task_env \<Rightarrow> stored_task \<Rightarrow> owner_input \<Rightarrow> auth_action \<Rightarrow> bool" where
  "isAuthorized env r caller action =
     (case runtimeIdOf (Some caller) of
        None \<Rightarrow> False
      | Some callerRuntimeId \<Rightarrow>
          if callerRuntimeId = ow_runtimeId (st_owner r) \<or>
             Some callerRuntimeId = te_localOwnerRuntimeId env
          then True
          else (case te_authorize env of
              None \<Rightarrow> False
            | Some authorize \<Rightarrow> authorize \<lparr>ar_requestId = st_requestId r, ar_action = action,
                ar_owner = st_owner r, ar_callerRuntimeId = callerRuntimeId\<rparr>))"

section \<open>Transitions\<close>

definition abort :: "string \<Rightarrow> jstr option \<Rightarrow> unit tasks" where
  "abort key reason = bindE (findRecord key)
     (\<lambda>found. case found of
         None \<Rightarrow> ret ()
       | Some r \<Rightarrow> whenE (st_aborted r = None)
           (thenE (change_record key (\<lambda>r. r\<lparr>st_aborted := Some reason\<rparr>)) (emit (Aborted key reason))))"

definition schedulePurge :: "task_env \<Rightarrow> string \<Rightarrow> unit tasks" where
  "schedulePurge env key =
     (case te_terminalRetentionMs env of
        Fin delay \<Rightarrow> change_record key (\<lambda>r. r\<lparr>st_purgeTimer := Some delay\<rparr>)
      | _ \<Rightarrow> ret ())"

definition clearExpiry :: "string \<Rightarrow> unit tasks" where
  "clearExpiry key = change_record key (\<lambda>r. r\<lparr>st_expiryTimer := None\<rparr>)"

text \<open>Every value that may read a clock is computed before anything is changed.\<close>

definition nextCancellation ::
  "task_env \<Rightarrow> stored_task \<Rightarrow> task_state \<Rightarrow> task_update \<Rightarrow> (bool \<times> string option) tasks" where
  "nextCancellation env r nextState update =
     (let current = st_snapshot r;
          requested = (sn_cancellationRequested current \<or> up_cancellationRequested update = Some True \<or>
            nextState = St_cancelling);
          requestedAt = flat (sn_cancellation current)
      in if requested \<and> \<not> sn_cancellationRequested current
         then bindE (case up_requestedAt update of
                  Some v \<Rightarrow> ret v
                | None \<Rightarrow> bindE (currentNow env) (\<lambda>now. ret (TS_date (Fin now))))
           (\<lambda>v. bindE (lift_sum (normalizeTimestamp env v))
             (\<lambda>n. ret (requested, Some (nt_value n))))
         else (case up_requestedAt update of
             Some v \<Rightarrow> if requested
               then bindE (lift_sum (normalizeTimestamp env v)) (\<lambda>n. ret (requested, Some (nt_value n)))
               else ret (requested, requestedAt)
           | None \<Rightarrow> ret (requested, requestedAt)))"

definition nextUpdatedAt ::
  "task_env \<Rightarrow> stored_task \<Rightarrow> timestamp_input option \<Rightarrow> normalized_timestamp tasks" where
  "nextUpdatedAt env r v = bindE (currentNow env)
     (\<lambda>now. bindE (lift_sum (case v of None \<Rightarrow> nowTimestamp env now | Some t \<Rightarrow> normalizeTimestamp env t))
       (\<lambda>candidate.
         (let epochMs = max (st_updatedAtMs r) (nt_epochMs candidate)
          in if epochMs = nt_epochMs candidate then ret candidate
             else lift_sum (nowTimestamp env epochMs))))"

definition nextSnapshot ::
  "task_env \<Rightarrow> stored_task \<Rightarrow> task_state \<Rightarrow> task_update \<Rightarrow> bool \<times> string option \<Rightarrow>
    normalized_timestamp \<Rightarrow> task_snapshot" where
  "nextSnapshot env r nextState update cancellation timestamp =
     (let current = st_snapshot r; nextIsTerminal = isTerminalTaskState nextState;
          response = responseForUpdate update
      in buildSnapshot env
         \<lparr>si_requestId = st_requestId r, si_state = nextState,
          si_createdAt = sn_createdAt current, si_updatedAt = nt_value timestamp,
          si_expiresAt = sn_expiresAt current,
          si_cancellationRequested = fst cancellation, si_requestedAt = snd cancellation,
          si_content = (if nextIsTerminal then rs_content response
            else case up_content update of Some c \<Rightarrow> c | None \<Rightarrow> sn_content current),
          si_error = (if nextIsTerminal then rs_error response
            else case up_error update of Some e \<Rightarrow> e | None \<Rightarrow> sn_error current),
          si_terminal = nextIsTerminal, si_terminalResponse = response\<rparr>)"

datatype transition_result =
    Transitioned task_state task_snapshot
  | Not_transitioned store_error_code "task_snapshot option"

text \<open>What \<open>tryTransition\<close> does once the new snapshot is known: the linearization point and
  everything that observes it.\<close>

definition commit_transition ::
  "task_env \<Rightarrow> string \<Rightarrow> task_state \<Rightarrow> task_state \<Rightarrow> task_update \<Rightarrow> task_snapshot \<Rightarrow> rat \<Rightarrow>
    transition_result tasks" where
  "commit_transition env key previousState nextState update snapshot epochMs =
     thenE (change_record key (\<lambda>r. r\<lparr>st_snapshot := snapshot, st_updatedAtMs := epochMs\<rparr>))
    (thenE (if nextState = St_queued then queue_add key else queue_delete key)
    (thenE (whenE (isTerminalTaskState nextState) (thenE (clearExpiry key) (schedulePurge env key)))
    (thenE (whenE (nextState = St_cancelling \<or> nextState = St_cancelled \<or> nextState = St_expired)
             (abort key (updateReason update)))
    (thenE (emit (StateChange key previousState nextState snapshot))
    (thenE (whenE (nextState = St_expired) (emit (Expired key snapshot)))
    (thenE (whenE (nextState = St_cancelling)
             (emit (CancellationRequested key snapshot (updateReason update))))
    (ret (Transitioned previousState snapshot))))))))"

text \<open>The part of \<open>tryTransition\<close> after the deadline check, on the record it has found.\<close>

definition transition_record ::
  "task_env \<Rightarrow> string \<Rightarrow> task_state option \<Rightarrow> task_state \<Rightarrow> task_update \<Rightarrow> stored_task \<Rightarrow>
    transition_result tasks" where
  "transition_record env key expectedState nextState update r =
     (let current = st_snapshot r
      in if expectedState \<noteq> None \<and> expectedState \<noteq> Some (sn_state current)
         then ret (Not_transitioned SE_invalid_transition (Some current))
         else if isTerminalTaskState (sn_state current)
         then ret (Not_transitioned SE_terminal (Some current))
         else if \<not> canTransitionTaskState (sn_state current) nextState
         then ret (Not_transitioned SE_invalid_transition (Some current))
         else bindE (nextCancellation env r nextState update)
          (\<lambda>cancellation. bindE (nextUpdatedAt env r (up_updatedAt update))
          (\<lambda>timestamp. commit_transition env key (sn_state current) nextState update
             (nextSnapshot env r nextState update cancellation timestamp) (nt_epochMs timestamp))))"

text \<open>Looking the record up again: the due check before it may have replaced the snapshot.\<close>

definition transition_now ::
  "task_env \<Rightarrow> string \<Rightarrow> task_state option \<Rightarrow> task_state \<Rightarrow> task_update \<Rightarrow> transition_result tasks" where
  "transition_now env key expectedState nextState update = bindE (findRecord key)
     (\<lambda>found. case found of
         None \<Rightarrow> ret (Not_transitioned SE_not_found None)
       | Some r \<Rightarrow> transition_record env key expectedState nextState update r)"

definition expiry_update :: "string \<Rightarrow> task_update" where
  "expiry_update message = empty_update\<lparr>up_error := Some (Some (protocol_error EC_expired message None))\<rparr>"

text \<open>\<open>tryTransition\<close> to \<open>expired\<close> makes no deadline check, so it does not call itself.\<close>

definition expireRecord :: "task_env \<Rightarrow> string \<Rightarrow> unit tasks" where
  "expireRecord env key = bindE (findRecord key)
     (\<lambda>found. case found of
         None \<Rightarrow> ret ()
       | Some r \<Rightarrow>
           (if isTerminalTaskState (sn_state (st_snapshot r)) then ret ()
            else thenE ensureUsable (thenE
              (transition_now env key None St_expired (expiry_update ''task deadline expired''))
              (ret ()))))"

definition expireIfDue :: "task_env \<Rightarrow> string \<Rightarrow> unit tasks" where
  "expireIfDue env key = bindE (findRecord key)
     (\<lambda>found. case found of
         None \<Rightarrow> ret ()
       | Some r \<Rightarrow>
           (if isTerminalTaskState (sn_state (st_snapshot r)) then ret ()
            else bindE (currentMonotonic env)
              (\<lambda>now. whenE (now \<ge> st_deadlineMonotonicMs r) (expireRecord env key))))"

definition tryTransition ::
  "task_env \<Rightarrow> string \<Rightarrow> task_state option \<Rightarrow> task_state \<Rightarrow> task_update \<Rightarrow> transition_result tasks" where
  "tryTransition env requestId expectedState nextState update = thenE ensureUsable
     (bindE (findRecord requestId)
       (\<lambda>found. case found of
           None \<Rightarrow> ret (Not_transitioned SE_not_found None)
         | Some _ \<Rightarrow> thenE (whenE (nextState \<noteq> St_expired) (expireIfDue env requestId))
             (transition_now env requestId expectedState nextState update)))"

definition transition ::
  "task_env \<Rightarrow> string \<Rightarrow> task_state option \<Rightarrow> task_state \<Rightarrow> task_update \<Rightarrow> task_snapshot option tasks" where
  "transition env requestId expectedState nextState update =
     bindE (tryTransition env requestId expectedState nextState update)
       (\<lambda>result. ret (case result of Transitioned _ snapshot \<Rightarrow> Some snapshot | _ \<Rightarrow> None))"

definition transitionOrThrow ::
  "task_env \<Rightarrow> string \<Rightarrow> task_state \<Rightarrow> task_update \<Rightarrow> task_snapshot tasks" where
  "transitionOrThrow env requestId nextState update =
     bindE (tryTransition env requestId None nextState update)
       (\<lambda>result. case result of
           Transitioned _ snapshot \<Rightarrow> ret snapshot
         | Not_transitioned code snapshot \<Rightarrow> throw (TaskStoreError code (Some requestId)
             (if code = SE_not_found then None else snapshot)))"

definition completeTask :: "task_env \<Rightarrow> string \<Rightarrow> outcome_input \<Rightarrow> task_snapshot option tasks" where
  "completeTask env requestId outcome =
     transition env requestId None St_completed (toTransitionUpdate outcome False)"

definition failTask :: "task_env \<Rightarrow> string \<Rightarrow> outcome_input \<Rightarrow> task_snapshot option tasks" where
  "failTask env requestId outcome =
     transition env requestId None St_failed (toTransitionUpdate outcome True)"

definition rejectTask :: "task_env \<Rightarrow> string \<Rightarrow> outcome_input \<Rightarrow> task_snapshot option tasks" where
  "rejectTask env requestId outcome =
     transition env requestId None St_rejected (toTransitionUpdate outcome True)"

definition expireTask :: "task_env \<Rightarrow> string \<Rightarrow> task_snapshot option tasks" where
  "expireTask env requestId = bindE (findRecord requestId)
     (\<lambda>found. case found of
         None \<Rightarrow> ret None
       | Some _ \<Rightarrow> bindE (tryTransition env requestId None St_expired (expiry_update ''task deadline expired''))
           (\<lambda>result. ret (case result of
               Transitioned _ snapshot \<Rightarrow> Some snapshot
             | Not_transitioned _ snapshot \<Rightarrow> snapshot)))"

record task_handle =
  th_requestId :: string
  th_owner :: task_owner
  th_snapshot :: task_snapshot
  th_aborted :: bool

definition handle_of :: "stored_task \<Rightarrow> task_handle" where
  "handle_of r = \<lparr>th_requestId = st_requestId r, th_owner = st_owner r,
     th_snapshot = st_snapshot r, th_aborted = (st_aborted r \<noteq> None)\<rparr>"

text \<open>The last part of \<open>beginExecution\<close> looks at the record's current snapshot.\<close>

definition execution_handle :: "string \<Rightarrow> task_handle option tasks" where
  "execution_handle requestId = bindE (findRecord requestId)
     (\<lambda>found. ret (case found of
         None \<Rightarrow> None
       | Some r \<Rightarrow> if sn_state (st_snapshot r) \<noteq> St_working then None else Some (handle_of r)))"

definition beginExecution :: "task_env \<Rightarrow> string \<Rightarrow> task_handle option tasks" where
  "beginExecution env requestId = bindE (findRecord requestId)
     (\<lambda>found. case found of
         None \<Rightarrow> ret None
       | Some _ \<Rightarrow> thenE (expireIfDue env requestId) (bindE (findRecord requestId)
           (\<lambda>found. case found of
               None \<Rightarrow> ret None
             | Some r \<Rightarrow>
                 (if sn_state (st_snapshot r) \<noteq> St_working
                  then bindE (tryTransition env requestId None St_working empty_update)
                    (\<lambda>result. case result of
                        Transitioned _ _ \<Rightarrow> execution_handle requestId
                      | _ \<Rightarrow> ret None)
                  else execution_handle requestId))))"

section \<open>Admission\<close>

definition scheduleExpiry :: "task_env \<Rightarrow> string \<Rightarrow> unit tasks" where
  "scheduleExpiry env key = bindE (findRecord key)
     (\<lambda>found. case found of
         None \<Rightarrow> ret ()
       | Some r \<Rightarrow> bindE (currentMonotonic env)
           (\<lambda>now. let delayMs = max 0 (st_deadlineMonotonicMs r - now)
              in if delayMs = 0 then expireRecord env key
                 else change_record key (\<lambda>r. r\<lparr>st_expiryTimer := Some delayMs\<rparr>)))"

definition requested_state :: "create_input \<Rightarrow> task_state" where
  "requested_state input =
     the_or St_accepted (or_else (ci_initialState input) (or_else (ci_state input) (ci_admissionState input)))"

definition create_response :: "create_input \<Rightarrow> task_response" where
  "create_response input =
     the_or \<lparr>rs_content = ci_content input, rs_error = ci_error input\<rparr> (ci_response input)"

text \<open>The timestamps of a new task, checked in the order of the code.\<close>

definition admission_times ::
  "task_env \<Rightarrow> create_input \<Rightarrow> rat \<Rightarrow> store_exn + (normalized_timestamp \<times> normalized_timestamp)" where
  "admission_times env input nowMs =
     (case normalizeTimestamp env (the_or (TS_number (Fin nowMs)) (ci_createdAt input)) of
        Inl x \<Rightarrow> Inl x
      | Inr createdAt \<Rightarrow>
          (case normalizeTimestamp env
              (the_or (TS_number (Fin (nt_epochMs createdAt + DEFAULT_REQUEST_TTL_MS))) (ci_expiresAt input)) of
             Inl x \<Rightarrow> Inl x
           | Inr expiresAt \<Rightarrow>
               if nt_epochMs expiresAt \<le> nt_epochMs createdAt
               then Inl (StoreJs (RangeErrorExn ''task expiresAt must be later than createdAt''))
               else Inr (createdAt, expiresAt)))"

definition admission_requestedAt :: "task_env \<Rightarrow> create_input \<Rightarrow> rat \<Rightarrow> store_exn + string option" where
  "admission_requestedAt env input nowMs =
     (if the_or False (ci_cancellationRequested input)
      then (case (case ci_requestedAt input of
               Some v \<Rightarrow> normalizeTimestamp env v | None \<Rightarrow> nowTimestamp env nowMs) of
              Inl x \<Rightarrow> Inl x
            | Inr n \<Rightarrow> Inr (Some (nt_value n)))
      else Inr None)"

definition admission_snapshot ::
  "task_env \<Rightarrow> create_input \<Rightarrow> rat \<Rightarrow> normalized_timestamp \<Rightarrow> normalized_timestamp \<Rightarrow> string option \<Rightarrow>
    task_snapshot" where
  "admission_snapshot env input nowMs createdAt expiresAt requestedAt =
     (let requestedState = requested_state input;
          expiredAtAdmission = (\<not> isTerminalTaskState requestedState \<and> nt_epochMs expiresAt \<le> nowMs);
          state = (if expiredAtAdmission then St_expired else requestedState);
          response = create_response input
      in buildSnapshot env
         \<lparr>si_requestId = ci_requestId input, si_state = state,
          si_createdAt = nt_value createdAt, si_updatedAt = nt_value createdAt,
          si_expiresAt = nt_value expiresAt,
          si_cancellationRequested = the_or False (ci_cancellationRequested input),
          si_requestedAt = requestedAt, si_content = rs_content response,
          si_error = (if expiredAtAdmission
            then Some (protocol_error EC_expired ''task deadline elapsed before admission'' None)
            else rs_error response),
          si_terminal = isTerminalTaskState state, si_terminalResponse = response\<rparr>)"

definition admitted_record ::
  "create_input \<Rightarrow> task_owner \<Rightarrow> task_owner \<Rightarrow> rat \<Rightarrow> rat \<Rightarrow> rat \<Rightarrow> task_snapshot \<Rightarrow> stored_task" where
  "admitted_record input owner localOwner deadlineMs deadlineMonotonicMs updatedAtMs snapshot =
     \<lparr>st_requestId = ci_requestId input, st_owner = owner, st_localOwner = localOwner,
      st_expectedTargetRuntimeId = ci_expectedTargetRuntimeId input, st_roomId = ci_roomId input,
      st_responseContract = ci_responseContract input,
      st_ownership = the_or Inbound (or_else (ci_ownership input) (ci_direction input)),
      st_aborted = None, st_deadlineMs = deadlineMs, st_deadlineMonotonicMs = deadlineMonotonicMs,
      st_updatedAtMs = updatedAtMs, st_snapshot = snapshot, st_expiryTimer = None, st_purgeTimer = None\<rparr>"

text \<open>The new record is stored, and then its timer is armed or its expiry announced.\<close>

definition store_admitted :: "task_env \<Rightarrow> string \<Rightarrow> stored_task \<Rightarrow> unit tasks" where
  "store_admitted env key r =
     (let snapshot = st_snapshot r
      in thenE (put_record key r)
        (thenE (whenE (sn_state snapshot = St_queued) (queue_add key))
        (if isTerminalTaskState (sn_state snapshot)
         then thenE (schedulePurge env key)
           (whenE (sn_state snapshot = St_expired)
             (thenE (abort key (Some (js ''task deadline expired''))) (emit (Expired key snapshot))))
         else scheduleExpiry env key)))"

text \<open>\<open>createTask\<close>, from the first reading of a clock on.\<close>

definition admit_task ::
  "task_env \<Rightarrow> create_input \<Rightarrow> task_owner \<Rightarrow> task_owner \<Rightarrow> task_snapshot tasks" where
  "admit_task env input owner localOwner =
     bindE (currentNow env)
      (\<lambda>now. bindE (lift_sum (admission_times env input now))
      (\<lambda>(createdAt, expiresAt). bindE (lift_sum (admission_requestedAt env input now))
      (\<lambda>requestedAt. bindE (currentMonotonic env)
      (\<lambda>monotonic.
         (let snapshot = admission_snapshot env input now createdAt expiresAt requestedAt;
              r = admitted_record input owner localOwner (nt_epochMs expiresAt)
                    (monotonic + max 0 (nt_epochMs expiresAt - now)) (nt_epochMs createdAt) snapshot
          in thenE (store_admitted env (ci_requestId input) r) (ret snapshot))))))"

definition createTask :: "task_env \<Rightarrow> create_input \<Rightarrow> task_snapshot tasks" where
  "createTask env input = thenE ensureUsable
     (let key = ci_requestId input
      in bindE (findRecord key)
       (\<lambda>found. if found \<noteq> None then throw (TaskStoreError SE_duplicate (Some key) None)
        else bindE (lift_sum (normalizeOwner input))
       (\<lambda>owner. bindE (lift_sum (normalizeLocalOwner input owner (te_localOwnerRuntimeId env)))
       (\<lambda>localOwner.
          if requested_state input = St_cancelling
          then throw (TaskStoreError SE_invalid_transition (Some key) None)
          else admit_task env input owner localOwner))))"

section \<open>Reads\<close>

record read_options =
  ro_includeTerminalResponse :: "bool option"
  ro_caller :: "owner_input option"

datatype status_result = Status task_snapshot | No_status store_error_code

text \<open>What both status reads do once the record is known and its deadline checked.\<close>

definition read_record :: "task_env \<Rightarrow> read_options \<Rightarrow> stored_task \<Rightarrow> task_snapshot option" where
  "read_record env options r =
     (if (case ro_caller options of None \<Rightarrow> False | Some caller \<Rightarrow> \<not> isAuthorized env r caller Act_status)
      then None
      else Some (projectSnapshot (st_snapshot r) (the_or True (ro_includeTerminalResponse options))))"

definition read_due :: "task_env \<Rightarrow> string \<Rightarrow> read_options \<Rightarrow> task_snapshot option tasks" where
  "read_due env requestId options = thenE (expireIfDue env requestId) (bindE (findRecord requestId)
     (\<lambda>found. ret (case found of None \<Rightarrow> None | Some r \<Rightarrow> read_record env options r)))"

definition getTask :: "task_env \<Rightarrow> string \<Rightarrow> read_options \<Rightarrow> task_snapshot option tasks" where
  "getTask env requestId options = bindE (findRecord requestId)
     (\<lambda>found. case found of None \<Rightarrow> ret None | Some _ \<Rightarrow> read_due env requestId options)"

definition getStatusResult :: "task_env \<Rightarrow> string \<Rightarrow> read_options \<Rightarrow> status_result tasks" where
  "getStatusResult env requestId options = bindE (findRecord requestId)
     (\<lambda>found. case found of
         None \<Rightarrow> ret (No_status (if ro_caller options = None then SE_not_found else SE_unauthorized))
       | Some _ \<Rightarrow> bindE (read_due env requestId options)
           (\<lambda>snapshot. ret (case snapshot of None \<Rightarrow> No_status SE_unauthorized | Some sn \<Rightarrow> Status sn)))"

definition getTaskHandle :: "task_env \<Rightarrow> string \<Rightarrow> task_handle option tasks" where
  "getTaskHandle env requestId = bindE (findRecord requestId)
     (\<lambda>found. case found of
         None \<Rightarrow> ret None
       | Some _ \<Rightarrow> thenE (expireIfDue env requestId)
           (bindE (findRecord requestId) (\<lambda>r. ret (map_option handle_of r))))"

text \<open>The routing metadata of a record: the record itself without its timers and deadlines.\<close>

record task_metadata =
  tm_requestId :: string
  tm_requester :: task_owner
  tm_localOwner :: task_owner
  tm_expectedTargetRuntimeId :: "string option"
  tm_roomId :: "string option"
  tm_responseContract :: "jsval option"
  tm_ownership :: ownership
  tm_snapshot :: task_snapshot
  tm_aborted :: bool

definition metadata_of :: "stored_task \<Rightarrow> task_metadata" where
  "metadata_of r = \<lparr>tm_requestId = st_requestId r, tm_requester = st_owner r,
     tm_localOwner = st_localOwner r, tm_expectedTargetRuntimeId = st_expectedTargetRuntimeId r,
     tm_roomId = st_roomId r, tm_responseContract = st_responseContract r,
     tm_ownership = st_ownership r, tm_snapshot = st_snapshot r, tm_aborted = (st_aborted r \<noteq> None)\<rparr>"

definition getRecordMetadata :: "task_env \<Rightarrow> string \<Rightarrow> task_metadata option tasks" where
  "getRecordMetadata env requestId = bindE (findRecord requestId)
     (\<lambda>found. case found of
         None \<Rightarrow> ret None
       | Some _ \<Rightarrow> thenE (expireIfDue env requestId)
           (bindE (findRecord requestId) (\<lambda>r. ret (map_option metadata_of r))))"

definition ownsTask :: "task_env \<Rightarrow> string \<Rightarrow> owner_input \<Rightarrow> bool tasks" where
  "ownsTask env requestId caller = bindE (findRecord requestId)
     (\<lambda>found. ret (case found of None \<Rightarrow> False | Some r \<Rightarrow> isAuthorized env r caller Act_status))"

definition listSnapshots :: "task_env \<Rightarrow> read_options \<Rightarrow> task_snapshot list tasks" where
  "listSnapshots env options = bindE (getE (\<lambda>s. map fst (ts_records s)))
     (\<lambda>keys. bindE (forE keys (\<lambda>key. read_due env key options))
       (\<lambda>found. ret (List.map_filter id found)))"

section \<open>Cancellation\<close>

record cancel_request =
  cr_caller :: "owner_input option"
  cr_reason :: "jstr option"
  cr_requestedAt :: "timestamp_input option"

datatype cancel_result =
    Cancelled_ok bool task_state task_snapshot
  | Cancel_refused store_error_code "task_snapshot option"

definition cancellationFailureCode :: "store_error_code \<Rightarrow> store_error_code" where
  "cancellationFailureCode code = (if code = SE_not_found then code else SE_not_cancelable)"

definition cancel_update :: "cancel_request \<Rightarrow> timestamp_input \<Rightarrow> bool \<Rightarrow> task_update" where
  "cancel_update request requestedAt working =
     (if working
      then empty_update\<lparr>up_cancellationRequested := Some True, up_requestedAt := Some requestedAt,
        up_reason := cr_reason request\<rparr>
      else empty_update\<lparr>up_cancellationRequested := Some True, up_requestedAt := Some requestedAt,
        up_error := map_option (\<lambda>reason. Some \<lparr>pe_code = EC_cancelled, pe_message = boundedMessage reason,
            pe_retryable = isRetryableErrorCode EC_cancelled, pe_retryAfterMs = None,
            pe_details = None\<rparr>) (cr_reason request)\<rparr>)"

definition cancel_record :: "task_env \<Rightarrow> string \<Rightarrow> cancel_request \<Rightarrow> stored_task \<Rightarrow> cancel_result tasks" where
  "cancel_record env requestId request r =
     (let state = sn_state (st_snapshot r)
      in if (case cr_caller request of None \<Rightarrow> False | Some caller \<Rightarrow> \<not> isAuthorized env r caller Act_cancel)
         then ret (Cancel_refused SE_unauthorized None)
         else if state = St_cancelled then ret (Cancelled_ok False state (st_snapshot r))
         else if isTerminalTaskState state then ret (Cancel_refused SE_not_cancelable (Some (st_snapshot r)))
         else bindE (case cr_requestedAt request of
                 Some v \<Rightarrow> ret v
               | None \<Rightarrow> bindE (currentNow env) (\<lambda>now. ret (TS_date (Fin now))))
           (\<lambda>requestedAt.
             (let target = (if state = St_working then St_cancelling else St_cancelled)
              in bindE (tryTransition env requestId None target
                     (cancel_update request requestedAt (state = St_working)))
               (\<lambda>result. ret (case result of
                    Transitioned _ snapshot \<Rightarrow> Cancelled_ok True target snapshot
                  | Not_transitioned code snapshot \<Rightarrow> Cancel_refused (cancellationFailureCode code) snapshot)))))"

definition cancelTask :: "task_env \<Rightarrow> string \<Rightarrow> cancel_request \<Rightarrow> cancel_result tasks" where
  "cancelTask env requestId request = thenE ensureUsable (bindE (findRecord requestId)
     (\<lambda>found. case found of
         None \<Rightarrow> ret (Cancel_refused (if cr_caller request = None then SE_not_found else SE_unauthorized) None)
       | Some _ \<Rightarrow> thenE (expireIfDue env requestId) (bindE (findRecord requestId)
           (\<lambda>found. case found of
               None \<Rightarrow> ret (Cancel_refused SE_not_found None)
             | Some r \<Rightarrow> cancel_record env requestId request r))))"

section \<open>Removal and timers\<close>

definition removeTask :: "string \<Rightarrow> unit tasks" where
  "removeTask key = modE (\<lambda>s. s\<lparr>ts_records := AList.delete key (ts_records s),
     ts_queued := filter (\<lambda>k. k \<noteq> key) (ts_queued s)\<rparr>)"

definition purgeTask :: "string \<Rightarrow> bool tasks" where
  "purgeTask requestId = bindE (findRecord requestId)
     (\<lambda>found. case found of
         None \<Rightarrow> ret False
       | Some r \<Rightarrow>
           (if \<not> isTerminalTaskState (sn_state (st_snapshot r)) then ret False
            else thenE (removeTask requestId) (ret True)))"

definition clear_tasks :: "unit tasks" where
  "clear_tasks = modE (\<lambda>s. s\<lparr>ts_records := [], ts_queued := [],
     ts_events := ts_events s @ map (\<lambda>(k, r). Aborted k (Some (js ''task store cleared'')))
       (filter (\<lambda>(k, r). st_aborted r = None) (ts_records s))\<rparr>)"

definition dispose :: "unit tasks" where
  "dispose = bindE (getE ts_disposed)
     (\<lambda>disposed. if disposed then ret ()
        else thenE clear_tasks (modE (\<lambda>s. s\<lparr>ts_disposed := True\<rparr>)))"

text \<open>The two timers of a record, when they fire.\<close>

definition expiry_timer_fires :: "task_env \<Rightarrow> string \<Rightarrow> unit tasks" where
  "expiry_timer_fires env key = bindE (findRecord key)
     (\<lambda>found. case found of
         None \<Rightarrow> ret ()
       | Some r \<Rightarrow> whenE (st_expiryTimer r \<noteq> None) (thenE (clearExpiry key) (expireRecord env key)))"

definition purge_timer_fires :: "string \<Rightarrow> unit tasks" where
  "purge_timer_fires key = bindE (findRecord key)
     (\<lambda>found. case found of
         None \<Rightarrow> ret ()
       | Some r \<Rightarrow> whenE (st_purgeTimer r \<noteq> None)
           (thenE (change_record key (\<lambda>r. r\<lparr>st_purgeTimer := None\<rparr>))
             (whenE (isTerminalTaskState (sn_state (st_snapshot r))) (removeTask key))))"

section \<open>Invariant and progress\<close>

text \<open>What every stored task satisfies between calls.\<close>

definition task_ok :: "string \<Rightarrow> stored_task \<Rightarrow> bool" where
  "task_ok key r \<longleftrightarrow>
     (let sn = st_snapshot r; state = sn_state sn
      in st_requestId r = key \<and> sn_requestId sn = key \<and>
         sn_terminalOutcome sn = (if isTerminalTaskState state then Some state else None) \<and>
         (sn_cancellation sn \<noteq> None \<longleftrightarrow> sn_cancellationRequested sn) \<and>
         (state = St_cancelling \<longrightarrow> sn_cancellationRequested sn) \<and>
         (state = St_cancelling \<or> state = St_expired \<longrightarrow> st_aborted r \<noteq> None) \<and>
         (isTerminalTaskState state \<longrightarrow> st_expiryTimer r = None))"

definition task_store_wf :: "task_store \<Rightarrow> bool" where
  "task_store_wf s \<longleftrightarrow> distinct (map fst (ts_records s)) \<and> distinct (ts_queued s) \<and>
     (\<forall>(k, r) \<in> set (ts_records s). task_ok k r) \<and>
     set (ts_queued s) = {k. \<exists>r. map_of (ts_records s) k = Some r \<and> sn_state (st_snapshot r) = St_queued}"

text \<open>How one task may change while it stays in the store.\<close>

definition task_advances :: "stored_task \<Rightarrow> stored_task \<Rightarrow> bool" where
  "task_advances r r' \<longleftrightarrow>
     st_requestId r' = st_requestId r \<and> st_owner r' = st_owner r \<and> st_localOwner r' = st_localOwner r \<and>
     st_expectedTargetRuntimeId r' = st_expectedTargetRuntimeId r \<and> st_roomId r' = st_roomId r \<and>
     st_responseContract r' = st_responseContract r \<and> st_ownership r' = st_ownership r \<and>
     st_deadlineMs r' = st_deadlineMs r \<and> st_deadlineMonotonicMs r' = st_deadlineMonotonicMs r \<and>
     (st_aborted r \<noteq> None \<longrightarrow> st_aborted r' = st_aborted r) \<and>
     js_trunc (st_updatedAtMs r) \<le> js_trunc (st_updatedAtMs r') \<and>
     (let sn = st_snapshot r; sn' = st_snapshot r'
      in later_state (sn_state sn) (sn_state sn') \<and>
         (isTerminalTaskState (sn_state sn) \<longrightarrow> sn' = sn) \<and>
         sn_createdAt sn' = sn_createdAt sn \<and> sn_expiresAt sn' = sn_expiresAt sn \<and>
         (sn_cancellationRequested sn \<longrightarrow> sn_cancellationRequested sn'))"

definition tasks_advance :: "task_store \<Rightarrow> task_store \<Rightarrow> bool" where
  "tasks_advance s t \<longleftrightarrow> ts_disposed t = ts_disposed s \<and>
     (\<exists>es. ts_events t = ts_events s @ es) \<and>
     (\<forall>k r. map_of (ts_records s) k = Some r \<longrightarrow>
        (\<exists>r'. map_of (ts_records t) k = Some r' \<and> task_advances r r'))"

lemma task_advances_refl [simp]: "task_advances r r"
  by (simp add: task_advances_def Let_def life_cycle.refl)

lemma task_advances_trans: "task_advances a b \<Longrightarrow> task_advances b c \<Longrightarrow> task_advances a c"
  unfolding task_advances_def Let_def by (auto intro: life_cycle.trans order_trans)

lemma tasks_advance_contract: "step_contract tasks_advance"
proof
  show "tasks_advance s s" for s by (auto simp: tasks_advance_def)
  show "tasks_advance s u" if "tasks_advance s t" "tasks_advance t u" for s t u
    using that unfolding tasks_advance_def by (fastforce intro: task_advances_trans)
qed

interpretation advancing: step_contract "under task_store_wf tasks_advance"
  by (rule under_contract [OF tasks_advance_contract])

text \<open>Steps that only read clocks.\<close>

definition only_reads :: "task_store \<Rightarrow> task_store \<Rightarrow> bool" where
  "only_reads s t \<longleftrightarrow> ts_records t = ts_records s \<and> ts_queued t = ts_queued s \<and>
     ts_disposed t = ts_disposed s \<and> ts_events t = ts_events s"

interpretation reading: step_contract only_reads
  by unfold_locales (auto simp: only_reads_def)

lemma advancing_reads: "only_reads s t \<Longrightarrow> under task_store_wf tasks_advance s t"
  by (auto simp: under_def task_store_wf_def tasks_advance_def only_reads_def)

lemma reading_finite: "obeys only_reads (finite_reading message v)"
  unfolding finite_reading_def by (cases v) (auto intro: reading.closure)

lemma reading_lift_sum: "obeys only_reads (lift_sum v)"
  unfolding lift_sum_def by (intro reading.closure)

lemma reading_currentNow: "obeys only_reads (currentNow env)"
  unfolding currentNow_def
  by (intro reading.closure reading.modE reading_finite) (auto simp: only_reads_def)

lemma reading_currentMonotonic: "obeys only_reads (currentMonotonic env)"
  unfolding currentMonotonic_def
  by (intro reading.closure reading.modE reading_finite) (auto simp: only_reads_def)

lemmas reading_basic = reading.closure reading_finite reading_lift_sum reading_currentNow
  reading_currentMonotonic

lemma reading_nextCancellation: "obeys only_reads (nextCancellation env r nextState update)"
  unfolding nextCancellation_def Let_def by (intro reading_basic)

lemma reading_nextUpdatedAt: "obeys only_reads (nextUpdatedAt env r v)"
  unfolding nextUpdatedAt_def Let_def by (intro reading_basic)

section \<open>What a transition commits\<close>

text \<open>The record after a committed transition, the queue and the events.\<close>

definition aborting_state :: "task_state \<Rightarrow> bool" where
  "aborting_state state \<longleftrightarrow> state = St_cancelling \<or> state = St_cancelled \<or> state = St_expired"

definition committed_record ::
  "task_env \<Rightarrow> task_state \<Rightarrow> task_update \<Rightarrow> task_snapshot \<Rightarrow> rat \<Rightarrow> stored_task \<Rightarrow> stored_task" where
  "committed_record env nextState update snapshot epochMs r =
     r\<lparr>st_snapshot := snapshot, st_updatedAtMs := epochMs,
       st_expiryTimer := (if isTerminalTaskState nextState then None else st_expiryTimer r),
       st_purgeTimer := (case te_terminalRetentionMs env of
           Fin delay \<Rightarrow> if isTerminalTaskState nextState then Some delay else st_purgeTimer r
         | _ \<Rightarrow> st_purgeTimer r),
       st_aborted := (if aborting_state nextState \<and> st_aborted r = None
         then Some (updateReason update) else st_aborted r)\<rparr>"

definition transition_events ::
  "string \<Rightarrow> task_state \<Rightarrow> task_state \<Rightarrow> task_update \<Rightarrow> task_snapshot \<Rightarrow> stored_task \<Rightarrow> task_event list" where
  "transition_events key previousState nextState update snapshot r =
     (if aborting_state nextState \<and> st_aborted r = None then [Aborted key (updateReason update)] else []) @
     [StateChange key previousState nextState snapshot] @
     (if nextState = St_expired then [Expired key snapshot] else []) @
     (if nextState = St_cancelling then [CancellationRequested key snapshot (updateReason update)] else [])"

lemma update_again: "AList.update key b (AList.update key a m) = AList.update key b m"
  by (induction m) auto

lemma change_record_apply:
  "map_of (ts_records s) key = Some r \<Longrightarrow>
   change_record key f s = (Inr (), s\<lparr>ts_records := AList.update key (f r) (ts_records s)\<rparr>)"
  by (simp add: change_record_def exec_simps)

lemma update_same: "map_of m key = Some r \<Longrightarrow> AList.update key r m = m"
  by (induction m) auto

lemma thenE_step: "m s = (Inr a, t) \<Longrightarrow> thenE m k s = k t"
  by (simp add: thenE_def bindE_Inr)

lemma emit_apply: "emit e s = (Inr (), s\<lparr>ts_events := ts_events s @ [e]\<rparr>)"
  by (simp add: emit_def exec_simps)

lemma when_emit: "whenE b (emit e) s = (Inr (), s\<lparr>ts_events := ts_events s @ (if b then [e] else [])\<rparr>)"
  by (simp add: emit_apply whenE_def ret_def)

lemma queue_step:
  "(if b then queue_add key else queue_delete key) s = (Inr (), s\<lparr>ts_queued := (if b
      then (if key \<in> set (ts_queued s) then ts_queued s else ts_queued s @ [key])
      else filter (\<lambda>k. k \<noteq> key) (ts_queued s))\<rparr>)"
  by (simp add: queue_add_def queue_delete_def exec_simps)

lemma abort_step:
  assumes "map_of (ts_records s) key = Some r"
  shows "whenE b (abort key reason) s = (Inr (),
    s\<lparr>ts_records := AList.update key (r\<lparr>st_aborted := (if b \<and> st_aborted r = None
        then Some reason else st_aborted r)\<rparr>) (ts_records s),
      ts_events := ts_events s @ (if b \<and> st_aborted r = None then [Aborted key reason] else [])\<rparr>)"
  using assms
  by (simp add: abort_def whenE_def findRecord_def bindE_apply getE_def thenE_def change_record_apply
      emit_apply ret_def update_same)

definition retained_record :: "task_env \<Rightarrow> bool \<Rightarrow> stored_task \<Rightarrow> stored_task" where
  "retained_record env terminal r =
     r\<lparr>st_expiryTimer := (if terminal then None else st_expiryTimer r),
       st_purgeTimer := (case te_terminalRetentionMs env of
           Fin delay \<Rightarrow> if terminal then Some delay else st_purgeTimer r
         | _ \<Rightarrow> st_purgeTimer r)\<rparr>"

lemma retain_step:
  assumes "map_of (ts_records s) key = Some r"
  shows "whenE b (thenE (clearExpiry key) (schedulePurge env key)) s =
    (Inr (), s\<lparr>ts_records := AList.update key (retained_record env b r) (ts_records s)\<rparr>)"
  using assms
  by (cases "te_terminalRetentionMs env")
     (simp_all add: retained_record_def whenE_def clearExpiry_def schedulePurge_def thenE_def
       bindE_apply change_record_apply ret_def update_same update_again map_of_update)

lemma commit_transition_apply:
  assumes "map_of (ts_records s) key = Some r"
  shows "commit_transition env key previousState nextState update snapshot epochMs s =
    (Inr (Transitioned previousState snapshot),
     s\<lparr>ts_records := AList.update key (committed_record env nextState update snapshot epochMs r) (ts_records s),
       ts_queued := (if nextState = St_queued
         then (if key \<in> set (ts_queued s) then ts_queued s else ts_queued s @ [key])
         else filter (\<lambda>k. k \<noteq> key) (ts_queued s)),
       ts_events := ts_events s @ transition_events key previousState nextState update snapshot r\<rparr>)"
proof -
  let ?r1 = "r\<lparr>st_snapshot := snapshot, st_updatedAtMs := epochMs\<rparr>"
  let ?r2 = "retained_record env (isTerminalTaskState nextState) ?r1"
  have r2: "st_aborted ?r2 = st_aborted r" by (simp add: retained_record_def)
  have r3: "?r2\<lparr>st_aborted := (if aborting_state nextState \<and> st_aborted r = None
         then Some (updateReason update) else st_aborted r)\<rparr> =
       committed_record env nextState update snapshot epochMs r"
    by (cases "te_terminalRetentionMs env") (simp_all add: retained_record_def committed_record_def)
  show ?thesis
    unfolding commit_transition_def aborting_state_def [symmetric]
    apply (subst thenE_step, rule change_record_apply, rule assms)
    apply (subst thenE_step, rule queue_step)
    apply (subst thenE_step, rule retain_step [of _ _ ?r1], simp add: map_of_update)
    apply (subst thenE_step, rule abort_step [of _ _ ?r2], simp add: map_of_update)
    apply (subst thenE_step, rule emit_apply)
    apply (subst thenE_step, rule when_emit)
    apply (subst thenE_step, rule when_emit)
    apply (simp add: ret_def update_again transition_events_def r2 r3 [symmetric])
    done
qed

text \<open>What is known of the new cancellation marker and of the new update time.\<close>

lemma nextCancellation_result:
  "nextCancellation env r nextState update s = (Inr (requested, requestedAt), t) \<Longrightarrow>
   requested = (sn_cancellationRequested (st_snapshot r) \<or> up_cancellationRequested update = Some True \<or>
     nextState = St_cancelling)"
  by (auto simp: nextCancellation_def Let_def bindE_eq_Inr ret_def split: option.splits if_splits)

lemma js_trunc_mono:
  assumes "a \<le> b"
  shows "js_trunc a \<le> js_trunc b"
proof (cases "a \<ge> 0 \<or> b < 0")
  case True
  then show ?thesis using assms by (auto simp: js_trunc_def floor_mono ceiling_mono)
next
  case False
  then have "\<lceil>a\<rceil> \<le> 0" "0 \<le> \<lfloor>b\<rfloor>" by (simp_all add: ceiling_le_iff)
  then have "\<lceil>a\<rceil> \<le> \<lfloor>b\<rfloor>" by linarith
  then show ?thesis using False by (simp add: js_trunc_def)
qed

lemma lift_sum_Inr: "lift_sum v s = (Inr a, t) \<longleftrightarrow> v = Inr a \<and> t = s"
  by (auto simp: lift_sum_def ret_def throw_def split: sum.splits)

lemma js_trunc_of_int [simp]: "js_trunc (of_int n) = n"
  by (simp add: js_trunc_def)

lemma nowTimestamp_epoch:
  "nowTimestamp env q = Inr n \<Longrightarrow> nt_epochMs n = of_int (js_trunc q) \<and> nt_value n = te_iso env (js_trunc q)"
  by (auto simp: nowTimestamp_def normalizeTimestamp_def split: if_splits)

lemma nextUpdatedAt_result:
  assumes "nextUpdatedAt env r v s = (Inr n, t)"
  shows "js_trunc (st_updatedAtMs r) \<le> js_trunc (nt_epochMs n)"
proof -
  have "js_trunc (st_updatedAtMs r) \<le> js_trunc (nt_epochMs n) \<or>
      nowTimestamp env (st_updatedAtMs r) = Inr n"
    using assms
    by (auto simp: nextUpdatedAt_def bindE_eq_Inr lift_sum_Inr ret_def Let_def max_def
        intro!: js_trunc_mono split: if_splits)
  then show ?thesis by (auto dest: nowTimestamp_epoch)
qed

text \<open>A transition either only reads clocks or commits exactly one legal change.\<close>

lemma transition_record_cases:
  assumes "transition_record env key expectedState nextState update r s = (z, t)"
  shows "(only_reads s t \<and> (\<forall>from sn. z \<noteq> Inr (Transitioned from sn))) \<or>
    (\<exists>w cancellation n. only_reads s w \<and>
       canTransitionTaskState (sn_state (st_snapshot r)) nextState \<and>
       expectedState \<in> {None, Some (sn_state (st_snapshot r))} \<and>
       fst cancellation = (sn_cancellationRequested (st_snapshot r) \<or>
         up_cancellationRequested update = Some True \<or> nextState = St_cancelling) \<and>
       js_trunc (st_updatedAtMs r) \<le> js_trunc (nt_epochMs n) \<and>
       commit_transition env key (sn_state (st_snapshot r)) nextState update
         (nextSnapshot env r nextState update cancellation n) (nt_epochMs n) w = (z, t))"
proof -
  let ?go = "bindE (nextCancellation env r nextState update)
      (\<lambda>cancellation. bindE (nextUpdatedAt env r (up_updatedAt update))
      (\<lambda>timestamp. commit_transition env key (sn_state (st_snapshot r)) nextState update
         (nextSnapshot env r nextState update cancellation timestamp) (nt_epochMs timestamp)))"
  let ?ok = "canTransitionTaskState (sn_state (st_snapshot r)) nextState \<and>
      expectedState \<in> {None, Some (sn_state (st_snapshot r))}"
  show ?thesis
  proof (cases ?ok)
    case False
    then show ?thesis
      using assms by (auto simp: transition_record_def Let_def ret_def reading.refl
          dest: terminal_no_transition split: if_splits)
  next
    case True
    then have go: "?go s = (z, t)"
      using assms by (auto simp: transition_record_def Let_def dest: terminal_no_transition split: if_splits)
    obtain c w where c: "nextCancellation env r nextState update s = (c, w)" by fastforce
    have w: "only_reads s w" using obeys_result [OF reading_nextCancellation c] .
    show ?thesis
    proof (cases c)
      case (Inl x)
      then show ?thesis using go c w by (auto simp: bindE_apply)
    next
      case (Inr cancellation)
      obtain n v where n: "nextUpdatedAt env r (up_updatedAt update) w = (n, v)" by fastforce
      have v: "only_reads s v"
        using reading.trans [OF w obeys_result [OF reading_nextUpdatedAt n]] .
      show ?thesis
      proof (cases n)
        case (Inl x)
        then show ?thesis using go c n v Inr by (auto simp: bindE_apply)
      next
        case (Inr timestamp)
        then have "fst cancellation = (sn_cancellationRequested (st_snapshot r) \<or>
             up_cancellationRequested update = Some True \<or> nextState = St_cancelling)"
          using nextCancellation_result [of env r nextState update s "fst cancellation" "snd cancellation" w] c \<open>c = Inr cancellation\<close>
          by simp
        moreover have "js_trunc (st_updatedAtMs r) \<le> js_trunc (nt_epochMs timestamp)"
          using nextUpdatedAt_result n Inr by blast
        moreover have "commit_transition env key (sn_state (st_snapshot r)) nextState update
            (nextSnapshot env r nextState update cancellation timestamp) (nt_epochMs timestamp) v = (z, t)"
          using go c n Inr \<open>c = Inr cancellation\<close> by (simp add: bindE_apply)
        ultimately show ?thesis using v True by blast
      qed
    qed
  qed
qed

text \<open>A committed transition keeps the invariant and advances its task only.\<close>

lemma nextSnapshot_fields [simp]:
  "sn_requestId (nextSnapshot env r nextState update c n) = st_requestId r"
  "sn_state (nextSnapshot env r nextState update c n) = nextState"
  "sn_createdAt (nextSnapshot env r nextState update c n) = sn_createdAt (st_snapshot r)"
  "sn_expiresAt (nextSnapshot env r nextState update c n) = sn_expiresAt (st_snapshot r)"
  "sn_cancellationRequested (nextSnapshot env r nextState update c n) = fst c"
  "sn_cancellation (nextSnapshot env r nextState update c n) = (if fst c then Some (snd c) else None)"
  "sn_terminalOutcome (nextSnapshot env r nextState update c n) =
    (if isTerminalTaskState nextState then Some nextState else None)"
  "sn_updatedAt (nextSnapshot env r nextState update c n) = nt_value n"
  by (simp_all add: nextSnapshot_def buildSnapshot_def Let_def)

lemma committed_record_fields [simp]:
  "st_requestId (committed_record env n u sn e r) = st_requestId r"
  "st_snapshot (committed_record env n u sn e r) = sn"
  "st_updatedAtMs (committed_record env n u sn e r) = e"
  "st_owner (committed_record env n u sn e r) = st_owner r"
  "st_localOwner (committed_record env n u sn e r) = st_localOwner r"
  "st_expectedTargetRuntimeId (committed_record env n u sn e r) = st_expectedTargetRuntimeId r"
  "st_roomId (committed_record env n u sn e r) = st_roomId r"
  "st_responseContract (committed_record env n u sn e r) = st_responseContract r"
  "st_ownership (committed_record env n u sn e r) = st_ownership r"
  "st_deadlineMs (committed_record env n u sn e r) = st_deadlineMs r"
  "st_deadlineMonotonicMs (committed_record env n u sn e r) = st_deadlineMonotonicMs r"
  "st_expiryTimer (committed_record env n u sn e r) =
    (if isTerminalTaskState n then None else st_expiryTimer r)"
  "st_aborted (committed_record env n u sn e r) =
    (if aborting_state n \<and> st_aborted r = None then Some (updateReason u) else st_aborted r)"
  by (simp_all add: committed_record_def)

lemma set_update_distinct:
  "distinct (map fst m) \<Longrightarrow> set (AList.update k v m) = insert (k, v) {x \<in> set m. fst x \<noteq> k}"
  by (induction m) (auto simp: image_iff)

lemma task_store_wf_update:
  assumes "task_store_wf s" and "task_ok key r"
    and "set q = (if sn_state (st_snapshot r) = St_queued then insert key (set (ts_queued s))
                  else set (ts_queued s) - {key})" and "distinct q"
    and "ts_records t = AList.update key r (ts_records s)" and "ts_queued t = q"
  shows "task_store_wf t"
  unfolding task_store_wf_def
proof (intro conjI)
  have d: "distinct (map fst (ts_records s))" using assms(1) by (simp add: task_store_wf_def)
  then show "distinct (map fst (ts_records t))" by (simp add: assms(5) distinct_keys_update)
  show "distinct (ts_queued t)" by (simp add: assms)
  show "\<forall>(k, r) \<in> set (ts_records t). task_ok k r"
    using assms(1,2) by (auto simp: assms(5) set_update_distinct [OF d] task_store_wf_def)
  have "set (ts_queued s) =
      {k. \<exists>r. map_of (ts_records s) k = Some r \<and> sn_state (st_snapshot r) = St_queued}"
    using assms(1) by (simp add: task_store_wf_def)
  then show "set (ts_queued t) =
      {k. \<exists>r. map_of (ts_records t) k = Some r \<and> sn_state (st_snapshot r) = St_queued}"
    unfolding assms(5,6) assms(3) by (auto simp: map_of_update)
qed

lemma task_store_wf_queued:
  "task_store_wf s \<Longrightarrow> key \<in> set (ts_queued s) \<longleftrightarrow>
     (\<exists>r. map_of (ts_records s) key = Some r \<and> sn_state (st_snapshot r) = St_queued)"
  "task_store_wf s \<Longrightarrow> distinct (ts_queued s)"
  by (simp_all add: task_store_wf_def del: map_of_eq_Some_iff)

lemma tasks_advance_update:
  assumes "map_of (ts_records s) key = Some r" and "task_advances r r'"
    and "ts_records t = AList.update key r' (ts_records s)" and "ts_disposed t = ts_disposed s"
    and "ts_events t = ts_events s @ es"
  shows "tasks_advance s t"
  using assms by (auto simp: tasks_advance_def map_of_update)

lemma committed_task:
  assumes "task_ok key r" and "canTransitionTaskState (sn_state (st_snapshot r)) nextState"
    and "fst c = (sn_cancellationRequested (st_snapshot r) \<or>
         up_cancellationRequested update = Some True \<or> nextState = St_cancelling)"
    and "js_trunc (st_updatedAtMs r) \<le> js_trunc (nt_epochMs n)"
  shows "task_ok key (committed_record env nextState update (nextSnapshot env r nextState update c n) (nt_epochMs n) r) \<and>
    task_advances r (committed_record env nextState update (nextSnapshot env r nextState update c n) (nt_epochMs n) r)"
  using assms later_state_one [OF assms(2)] terminal_no_transition [OF assms(2)]
  by (auto simp: task_ok_def task_advances_def Let_def aborting_state_def)

lemma advancing_transition_record:
  assumes "map_of (ts_records s) key = Some r"
  shows "under task_store_wf tasks_advance s (snd (transition_record env key expectedState nextState update r s))"
proof -
  obtain z t where zt: "transition_record env key expectedState nextState update r s = (z, t)" by fastforce
  have "under task_store_wf tasks_advance s t"
    using transition_record_cases [OF zt]
  proof (elim disjE exE conjE)
    show "only_reads s t \<Longrightarrow> ?thesis" by (rule advancing_reads)
  next
    fix w c n
    assume w: "only_reads s w"
      and c: "canTransitionTaskState (sn_state (st_snapshot r)) nextState"
        "fst c = (sn_cancellationRequested (st_snapshot r) \<or>
           up_cancellationRequested update = Some True \<or> nextState = St_cancelling)"
        "js_trunc (st_updatedAtMs r) \<le> js_trunc (nt_epochMs n)"
      and m: "commit_transition env key (sn_state (st_snapshot r)) nextState update
         (nextSnapshot env r nextState update c n) (nt_epochMs n) w = (z, t)"
    have r: "map_of (ts_records w) key = Some r" using assms w by (simp add: only_reads_def)
    let ?r = "committed_record env nextState update (nextSnapshot env r nextState update c n) (nt_epochMs n) r"
    show ?thesis
    proof (rule advancing.trans [OF advancing_reads [OF w]], rule underI)
      assume wf: "task_store_wf w"
      then have ok: "task_ok key r" using map_of_SomeD [OF r] by (auto simp: task_store_wf_def)
      have q: "distinct (ts_queued w)" using wf by (simp add: task_store_wf_def)
      note new = committed_task [OF ok c, of env]
      have "task_store_wf t"
        using new m by (intro task_store_wf_update [OF wf, of key ?r "ts_queued t"])
          (use q in \<open>auto simp: commit_transition_apply [OF r] split: if_splits\<close>)
      moreover have "tasks_advance w t"
        using new m by (intro tasks_advance_update [OF r, of ?r]) (auto simp: commit_transition_apply [OF r])
      ultimately show "task_store_wf t \<and> tasks_advance w t" ..
    qed
  qed
  with zt show ?thesis by simp
qed

section \<open>Every operation but removal advances the store\<close>

lemma find_bind:
  assumes "\<And>s. R s (snd (f (map_of (ts_records s) key) s))"
  shows "obeys R (bindE (findRecord key) f)"
  unfolding findRecord_def using assms by (rule obeys_getE_bind)

lemma advancing_reading: "obeys only_reads m \<Longrightarrow> obeys (under task_store_wf tasks_advance) m"
  using obeys_mono advancing_reads by blast

lemma advancing_find: "obeys (under task_store_wf tasks_advance) (findRecord key)"
  unfolding findRecord_def by (rule advancing.getE)

lemma advancing_ensureUsable: "obeys (under task_store_wf tasks_advance) ensureUsable"
  unfolding ensureUsable_def by (intro advancing.closure)

lemma advancing_transition_now:
  "obeys (under task_store_wf tasks_advance) (transition_now env key expectedState nextState update)"
  unfolding transition_now_def
  by (rule find_bind)
     (auto simp: advancing_transition_record split: option.split intro!: obeysD [OF advancing.ret])

lemmas advancing_basic = advancing.closure advancing_find advancing_ensureUsable
  advancing_reading [OF reading_currentNow] advancing_reading [OF reading_currentMonotonic]
  advancing_reading [OF reading_lift_sum] advancing_transition_now

lemma advancing_expireRecord: "obeys (under task_store_wf tasks_advance) (expireRecord env key)"
  unfolding expireRecord_def by (intro advancing_basic)

lemma advancing_expireIfDue: "obeys (under task_store_wf tasks_advance) (expireIfDue env key)"
  unfolding expireIfDue_def by (intro advancing_basic advancing_expireRecord)

lemma advancing_tryTransition:
  "obeys (under task_store_wf tasks_advance) (tryTransition env key expectedState nextState update)"
  unfolding tryTransition_def by (intro advancing_basic advancing_expireIfDue)

lemmas advancing_steps = advancing_basic advancing_expireRecord advancing_expireIfDue advancing_tryTransition

lemma transition_result_cases:
  "(\<And>from sn. v = Transitioned from sn \<Longrightarrow> obeys R (f from sn)) \<Longrightarrow>
   (\<And>c sn. v = Not_transitioned c sn \<Longrightarrow> obeys R (g c sn)) \<Longrightarrow>
   obeys R (case v of Transitioned from sn \<Rightarrow> f from sn | Not_transitioned c sn \<Rightarrow> g c sn)"
  by (cases v) auto

lemma advancing_transition:
  "obeys (under task_store_wf tasks_advance) (transition env key expectedState nextState update)"
  unfolding transition_def by (intro advancing_steps)

lemma advancing_transitionOrThrow:
  "obeys (under task_store_wf tasks_advance) (transitionOrThrow env key nextState update)"
  unfolding transitionOrThrow_def by (intro transition_result_cases advancing_steps)

lemma advancing_expireTask: "obeys (under task_store_wf tasks_advance) (expireTask env key)"
  unfolding expireTask_def by (intro advancing_steps)

lemma advancing_execution_handle: "obeys (under task_store_wf tasks_advance) (execution_handle key)"
  unfolding execution_handle_def by (intro advancing_steps)

lemma advancing_beginExecution: "obeys (under task_store_wf tasks_advance) (beginExecution env key)"
  unfolding beginExecution_def
  by (intro transition_result_cases advancing_steps advancing_execution_handle)

lemma advancing_read_due: "obeys (under task_store_wf tasks_advance) (read_due env key options)"
  unfolding read_due_def by (intro advancing_steps)

lemma advancing_getTask: "obeys (under task_store_wf tasks_advance) (getTask env key options)"
  unfolding getTask_def by (intro advancing_steps advancing_read_due)

lemma advancing_getStatusResult:
  "obeys (under task_store_wf tasks_advance) (getStatusResult env key options)"
  unfolding getStatusResult_def by (intro advancing_steps advancing_read_due)

lemma advancing_getTaskHandle: "obeys (under task_store_wf tasks_advance) (getTaskHandle env key)"
  unfolding getTaskHandle_def by (intro advancing_steps)

lemma advancing_getRecordMetadata:
  "obeys (under task_store_wf tasks_advance) (getRecordMetadata env key)"
  unfolding getRecordMetadata_def by (intro advancing_steps)

lemma advancing_ownsTask: "obeys (under task_store_wf tasks_advance) (ownsTask env key caller)"
  unfolding ownsTask_def by (intro advancing_steps)

lemma advancing_listSnapshots: "obeys (under task_store_wf tasks_advance) (listSnapshots env options)"
  unfolding listSnapshots_def by (intro advancing_steps advancing_read_due)

lemma advancing_cancel_record:
  "obeys (under task_store_wf tasks_advance) (cancel_record env key request r)"
  unfolding cancel_record_def Let_def by (intro advancing_steps)

lemma advancing_cancelTask: "obeys (under task_store_wf tasks_advance) (cancelTask env key request)"
  unfolding cancelTask_def by (intro advancing_steps advancing_cancel_record)

text \<open>Arming or clearing a timer.\<close>

definition same_but_timers :: "stored_task \<Rightarrow> stored_task \<Rightarrow> bool" where
  "same_but_timers r r' \<longleftrightarrow>
     r\<lparr>st_expiryTimer := None, st_purgeTimer := None\<rparr> = r'\<lparr>st_expiryTimer := None, st_purgeTimer := None\<rparr>"

lemma same_but_timers_fields:
  assumes "same_but_timers r r'"
  shows "st_requestId r' = st_requestId r" "st_owner r' = st_owner r" "st_localOwner r' = st_localOwner r"
    "st_expectedTargetRuntimeId r' = st_expectedTargetRuntimeId r" "st_roomId r' = st_roomId r"
    "st_responseContract r' = st_responseContract r" "st_ownership r' = st_ownership r"
    "st_aborted r' = st_aborted r" "st_deadlineMs r' = st_deadlineMs r"
    "st_deadlineMonotonicMs r' = st_deadlineMonotonicMs r" "st_updatedAtMs r' = st_updatedAtMs r"
    "st_snapshot r' = st_snapshot r"
  using assms unfolding same_but_timers_def by (cases r; cases r'; simp)+

lemma advancing_change_timer:
  assumes "map_of (ts_records s) key = Some r" and "same_but_timers r (f r)"
    and "isTerminalTaskState (sn_state (st_snapshot r)) \<Longrightarrow> st_expiryTimer r = None \<Longrightarrow> st_expiryTimer (f r) = None"
  shows "under task_store_wf tasks_advance s (snd (change_record key f s))"
proof (rule underI)
  let ?t = "s\<lparr>ts_records := AList.update key (f r) (ts_records s)\<rparr>"
  assume wf: "task_store_wf s"
  then have "task_ok key r" using map_of_SomeD [OF assms(1)] by (auto simp: task_store_wf_def)
  then have ok: "task_ok key (f r)"
    using assms(3) same_but_timers_fields [OF assms(2)] by (simp add: task_ok_def Let_def)
  have q: "key \<in> set (ts_queued s) \<longleftrightarrow> sn_state (st_snapshot r) = St_queued" "distinct (ts_queued s)"
    using assms(1) by (simp_all add: task_store_wf_queued [OF wf])
  have "task_store_wf ?t"
    by (rule task_store_wf_update [OF wf ok, where q = "ts_queued s"])
       (use q same_but_timers_fields(12) [OF assms(2)] in auto)
  moreover have "tasks_advance s ?t"
    by (rule tasks_advance_update [OF assms(1), of "f r" _ "[]"])
       (use same_but_timers_fields [OF assms(2)] in \<open>auto simp: task_advances_def Let_def life_cycle.refl\<close>)
  ultimately show "task_store_wf (snd (change_record key f s)) \<and> tasks_advance s (snd (change_record key f s))"
    by (simp add: change_record_apply [OF assms(1)])
qed

lemma advancing_change_missing:
  "map_of (ts_records s) key = None \<Longrightarrow> under task_store_wf tasks_advance s (snd (change_record key f s))"
  by (simp add: change_record_def exec_simps advancing.refl)

lemma advancing_clearExpiry: "obeys (under task_store_wf tasks_advance) (clearExpiry key)"
proof (rule obeysI)
  fix s
  show "under task_store_wf tasks_advance s (snd (clearExpiry key s))"
    unfolding clearExpiry_def
    by (cases "map_of (ts_records s) key")
       (auto intro: advancing_change_missing advancing_change_timer simp: same_but_timers_def)
qed

lemma advancing_schedulePurge: "obeys (under task_store_wf tasks_advance) (schedulePurge env key)"
proof (rule obeysI)
  fix s
  show "under task_store_wf tasks_advance s (snd (schedulePurge env key s))"
    unfolding schedulePurge_def
    by (cases "map_of (ts_records s) key"; cases "te_terminalRetentionMs env")
       (auto intro: advancing_change_missing advancing_change_timer obeysD [OF advancing.ret] simp: same_but_timers_def)
qed

lemma advancing_expiry_timer: "obeys (under task_store_wf tasks_advance) (expiry_timer_fires env key)"
  unfolding expiry_timer_fires_def by (intro advancing_steps advancing_clearExpiry)

lemma advancing_scheduleExpiry:
  assumes "map_of (ts_records s) key = Some r" and "\<not> isTerminalTaskState (sn_state (st_snapshot r))"
  shows "under task_store_wf tasks_advance s (snd (scheduleExpiry env key s))"
proof -
  obtain x w where m: "currentMonotonic env s = (x, w)" by fastforce
  have w: "only_reads s w" using obeys_result [OF reading_currentMonotonic m] .
  then have r: "map_of (ts_records w) key = Some r" using assms(1) by (simp add: only_reads_def)
  have arm: "under task_store_wf tasks_advance w (snd (change_record key (\<lambda>r. r\<lparr>st_expiryTimer := Some d\<rparr>) w))" for d
    by (rule advancing_change_timer [OF r]) (use assms(2) in \<open>simp_all add: same_but_timers_def\<close>)
  have "under task_store_wf tasks_advance w (snd (scheduleExpiry env key s))"
    using m assms(1) arm obeysD [OF advancing_expireRecord, of w env key]
    by (cases x) (auto simp: scheduleExpiry_def findRecord_def bindE_apply getE_def Let_def advancing.refl)
  then show ?thesis by (rule advancing.trans [OF advancing_reads [OF w]])
qed

text \<open>Admission: the new key is absent, and no other task is touched.\<close>

lemma admission_snapshot_fields [simp]:
  "sn_requestId (admission_snapshot env input now a b c) = ci_requestId input"
  "sn_cancellationRequested (admission_snapshot env input now a b c) = the_or False (ci_cancellationRequested input)"
  "sn_cancellation (admission_snapshot env input now a b c) =
    (if the_or False (ci_cancellationRequested input) then Some c else None)"
  "sn_terminalOutcome (admission_snapshot env input now a b c) =
    (if isTerminalTaskState (sn_state (admission_snapshot env input now a b c))
     then Some (sn_state (admission_snapshot env input now a b c)) else None)"
  "sn_state (admission_snapshot env input now a b c) =
    (if \<not> isTerminalTaskState (requested_state input) \<and> nt_epochMs b \<le> now then St_expired
     else requested_state input)"
  by (simp_all add: admission_snapshot_def buildSnapshot_def Let_def)

lemma tasks_advance_insert:
  assumes "map_of (ts_records s) key = None"
    and "ts_records t = AList.update key r' (ts_records s)" and "ts_disposed t = ts_disposed s"
    and "ts_events t = ts_events s @ es"
  shows "tasks_advance s t"
  using assms by (auto simp: tasks_advance_def map_of_update)

lemma store_admitted_terminal:
  assumes "isTerminalTaskState (sn_state (st_snapshot r))" and "st_aborted r = None"
    and "st_expiryTimer r = None"
  shows "store_admitted env key r s = (Inr (),
    s\<lparr>ts_records := AList.update key ((retained_record env True r)\<lparr>st_aborted :=
        (if sn_state (st_snapshot r) = St_expired then Some (Some (js ''task deadline expired'')) else None)\<rparr>)
        (ts_records s),
      ts_events := ts_events s @ (if sn_state (st_snapshot r) = St_expired
        then [Aborted key (Some (js ''task deadline expired'')), Expired key (st_snapshot r)] else [])\<rparr>)"
proof -
  let ?s1 = "s\<lparr>ts_records := AList.update key r (ts_records s)\<rparr>" and ?r2 = "retained_record env True r"
  let ?s2 = "?s1\<lparr>ts_records := AList.update key ?r2 (ts_records ?s1)\<rparr>"
  have purge: "schedulePurge env key ?s1 = (Inr (), ?s2)"
    using assms(3) by (cases r; cases "te_terminalRetentionMs env")
      (simp_all add: schedulePurge_def change_record_apply map_of_update retained_record_def ret_def update_again)
  have r2: "st_aborted ?r2 = None" "st_snapshot ?r2 = st_snapshot r" "?r2\<lparr>st_aborted := None\<rparr> = ?r2"
    using assms(2) by (cases r; simp add: retained_record_def)+
  have "sn_state (st_snapshot r) \<noteq> St_queued" using assms(1) by auto
  then show ?thesis
    using assms(1) purge r2(1,2)
    by (simp add: r2(3) store_admitted_def put_record_def thenE_def bindE_apply modE_def whenE_def ret_def Let_def
        abort_def findRecord_def getE_def map_of_update change_record_apply emit_apply update_again)
qed

definition with_queued :: "bool \<Rightarrow> string \<Rightarrow> string list \<Rightarrow> string list" where
  "with_queued b key q = (if b \<and> key \<notin> set q then q @ [key] else q)"

lemma store_admitted_running:
  "\<not> isTerminalTaskState (sn_state (st_snapshot r)) \<Longrightarrow>
   store_admitted env key r s = scheduleExpiry env key (s\<lparr>ts_records := AList.update key r (ts_records s),
     ts_queued := with_queued (sn_state (st_snapshot r) = St_queued) key (ts_queued s)\<rparr>)"
  by (auto simp: store_admitted_def put_record_def queue_add_def with_queued_def thenE_def bindE_apply
      modE_def whenE_def ret_def Let_def)

lemma advancing_store_admitted:
  assumes "map_of (ts_records s) key = None"
    and "\<not> isTerminalTaskState (sn_state (st_snapshot r)) \<Longrightarrow> task_ok key r"
    and "task_ok key (r\<lparr>st_aborted := Some None\<rparr>)" and "sn_state (st_snapshot r) \<noteq> St_cancelling"
    and "st_aborted r = None" and "st_expiryTimer r = None"
  shows "under task_store_wf tasks_advance s (snd (store_admitted env key r s))"
proof (cases "isTerminalTaskState (sn_state (st_snapshot r))")
  case True
  let ?r = "(retained_record env True r)\<lparr>st_aborted := (if sn_state (st_snapshot r) = St_expired
      then Some (Some (js ''task deadline expired'')) else None)\<rparr>"
  have ok: "task_ok key ?r"
    using assms(3,4,6) by (auto simp: task_ok_def Let_def retained_record_def)
  have st: "sn_state (st_snapshot ?r) \<noteq> St_queued" using True by (auto simp: retained_record_def)
  show ?thesis
  proof (rule underI)
    assume wf: "task_store_wf s"
    have "key \<notin> set (ts_queued s)" using assms(1) by (simp add: task_store_wf_queued [OF wf])
    then have "task_store_wf (snd (store_admitted env key r s))"
      using st by (intro task_store_wf_update [OF wf ok, of "ts_queued s"])
        (simp_all add: store_admitted_terminal [OF True assms(5,6)] task_store_wf_queued(2) [OF wf])
    moreover have "tasks_advance s (snd (store_admitted env key r s))"
      by (rule tasks_advance_insert [OF assms(1)]) (simp_all add: store_admitted_terminal [OF True assms(5,6)])
    ultimately show "task_store_wf (snd (store_admitted env key r s)) \<and>
        tasks_advance s (snd (store_admitted env key r s))" ..
  qed
next
  case False
  let ?q = "with_queued (sn_state (st_snapshot r) = St_queued) key (ts_queued s)"
  let ?t = "s\<lparr>ts_records := AList.update key r (ts_records s), ts_queued := ?q\<rparr>"
  note m = store_admitted_running [OF False]
  have "under task_store_wf tasks_advance s ?t"
  proof (rule underI)
    assume wf: "task_store_wf s"
    have q: "key \<notin> set (ts_queued s)" "distinct (ts_queued s)"
      using assms(1) by (simp_all add: task_store_wf_queued [OF wf])
    have "task_store_wf ?t"
      by (rule task_store_wf_update [OF wf assms(2) [OF False], of ?q]) (use q in \<open>auto simp: with_queued_def\<close>)
    moreover have "tasks_advance s ?t"
      by (rule tasks_advance_insert [OF assms(1), of _ r "[]"]) simp_all
    ultimately show "task_store_wf ?t \<and> tasks_advance s ?t" ..
  qed
  moreover have "under task_store_wf tasks_advance ?t (snd (scheduleExpiry env key ?t))"
    by (rule advancing_scheduleExpiry [OF _ False]) (simp add: map_of_update)
  ultimately show ?thesis unfolding m by (rule advancing.trans)
qed

lemma admitted_record_ok:
  assumes "requested_state input \<noteq> St_cancelling" and "key = ci_requestId input"
    and r_def: "r = admitted_record input owner localOwner d m u (admission_snapshot env input now a b c)"
  shows "\<not> isTerminalTaskState (sn_state (st_snapshot r)) \<Longrightarrow> task_ok key r"
    and "task_ok key (r\<lparr>st_aborted := Some None\<rparr>)" and "sn_state (st_snapshot r) \<noteq> St_cancelling"
    and "st_aborted r = None" and "st_expiryTimer r = None"
  using assms(1,2) by (auto simp: r_def task_ok_def Let_def admitted_record_def split: if_splits)

lemma advancing_admit_task:
  assumes "map_of (ts_records s) (ci_requestId input) = None" and "requested_state input \<noteq> St_cancelling"
  shows "under task_store_wf tasks_advance s (snd (admit_task env input owner localOwner s))"
proof -
  have after: "only_reads s w \<Longrightarrow> under task_store_wf tasks_advance w t \<Longrightarrow> under task_store_wf tasks_advance s t" for w t
    by (rule advancing.trans [OF advancing_reads])
  obtain x1 w1 where m1: "currentNow env s = (x1, w1)" by fastforce
  have w1: "only_reads s w1" using obeys_result [OF reading_currentNow m1] .
  show ?thesis
  proof (cases "\<exists>now a b c. x1 = Inr now \<and> admission_times env input now = Inr (a, b) \<and>
      admission_requestedAt env input now = Inr c")
    case False
    then show ?thesis
      using m1 w1 by (cases x1) (auto simp: admit_task_def bindE_apply lift_sum_def throw_def ret_def
          split: sum.splits prod.splits intro: advancing_reads)
  next
    case True
    then obtain now a b c where x1: "x1 = Inr now" "admission_times env input now = Inr (a, b)"
      "admission_requestedAt env input now = Inr c" by blast
    obtain x2 w2 where m2: "currentMonotonic env w1 = (x2, w2)" by fastforce
    have w2: "only_reads s w2"
      using reading.trans [OF w1 obeys_result [OF reading_currentMonotonic m2]] .
    then have none: "map_of (ts_records w2) (ci_requestId input) = None" using assms(1) by (simp add: only_reads_def)
    show ?thesis
    proof (cases x2)
      case (Inl x)
      then show ?thesis using m1 m2 x1 w2
        by (auto simp: admit_task_def bindE_apply lift_sum_def ret_def intro: advancing_reads)
    next
      case (Inr mono)
      let ?sn = "admission_snapshot env input now a b c"
      let ?r = "admitted_record input owner localOwner (nt_epochMs b)
            (mono + max 0 (nt_epochMs b - now)) (nt_epochMs a) ?sn"
      have "under task_store_wf tasks_advance w2 (snd (store_admitted env (ci_requestId input) ?r w2))"
        by (rule advancing_store_admitted [OF none]) (rule admitted_record_ok [OF assms(2) HOL.refl HOL.refl], assumption?)+
      moreover have "snd (admit_task env input owner localOwner s) =
          snd (store_admitted env (ci_requestId input) ?r w2)"
        using m1 m2 x1 Inr
        by (simp add: admit_task_def bindE_apply lift_sum_def ret_def thenE_def Let_def split: prod.split sum.split)
      ultimately show ?thesis using after [OF w2] by simp
    qed
  qed
qed

lemma advancing_createTask: "obeys (under task_store_wf tasks_advance) (createTask env input)"
  unfolding createTask_def Let_def
proof (intro advancing.thenE advancing_ensureUsable find_bind)
  fix s
  have "under task_store_wf tasks_advance s (snd ((bindE (lift_sum (normalizeOwner input))
       (\<lambda>owner. bindE (lift_sum (normalizeLocalOwner input owner (te_localOwnerRuntimeId env)))
       (\<lambda>localOwner.
          if requested_state input = St_cancelling
          then throw (TaskStoreError SE_invalid_transition (Some (ci_requestId input)) None)
          else admit_task env input owner localOwner))) s))"
    if "map_of (ts_records s) (ci_requestId input) = None"
    using that advancing_admit_task
    by (auto simp: bindE_apply lift_sum_def throw_def ret_def advancing.refl split: sum.split)
  then show "under task_store_wf tasks_advance s
      (snd ((if map_of (ts_records s) (ci_requestId input) \<noteq> None
             then throw (TaskStoreError SE_duplicate (Some (ci_requestId input)) None)
             else bindE (lift_sum (normalizeOwner input))
       (\<lambda>owner. bindE (lift_sum (normalizeLocalOwner input owner (te_localOwnerRuntimeId env)))
       (\<lambda>localOwner.
          if requested_state input = St_cancelling
          then throw (TaskStoreError SE_invalid_transition (Some (ci_requestId input)) None)
          else admit_task env input owner localOwner))) s))"
    by (auto simp: throw_def advancing.refl)
qed

section \<open>Histories\<close>

datatype task_call =
    Create create_input | Get string read_options | GetStatus string read_options
  | GetHandle string | GetMetadata string | Owns string owner_input | ListAll read_options
  | Begin string | TryTransition string "task_state option" task_state task_update
  | TransitionOrThrow string task_state task_update
  | Complete string outcome_input | Fail string outcome_input | Reject string outcome_input
  | Expire string | Cancel string cancel_request | ExpiryTimer string
  | Purge string | PurgeTimer string | Clear | Dispose

fun task_step :: "task_env \<Rightarrow> task_call \<Rightarrow> task_store \<Rightarrow> task_store" where
  "task_step env (Create input) s = snd (createTask env input s)"
| "task_step env (Get key options) s = snd (getTask env key options s)"
| "task_step env (GetStatus key options) s = snd (getStatusResult env key options s)"
| "task_step env (GetHandle key) s = snd (getTaskHandle env key s)"
| "task_step env (GetMetadata key) s = snd (getRecordMetadata env key s)"
| "task_step env (Owns key caller) s = snd (ownsTask env key caller s)"
| "task_step env (ListAll options) s = snd (listSnapshots env options s)"
| "task_step env (Begin key) s = snd (beginExecution env key s)"
| "task_step env (TryTransition key expected next update) s = snd (tryTransition env key expected next update s)"
| "task_step env (TransitionOrThrow key next update) s = snd (transitionOrThrow env key next update s)"
| "task_step env (Complete key outcome) s = snd (completeTask env key outcome s)"
| "task_step env (Fail key outcome) s = snd (failTask env key outcome s)"
| "task_step env (Reject key outcome) s = snd (rejectTask env key outcome s)"
| "task_step env (Expire key) s = snd (expireTask env key s)"
| "task_step env (Cancel key request) s = snd (cancelTask env key request s)"
| "task_step env (ExpiryTimer key) s = snd (expiry_timer_fires env key s)"
| "task_step env (Purge key) s = snd (purgeTask key s)"
| "task_step env (PurgeTimer key) s = snd (purge_timer_fires key s)"
| "task_step env Clear s = snd (clear_tasks s)"
| "task_step env Dispose s = snd (dispose s)"

definition task_history :: "task_env \<Rightarrow> task_call list \<Rightarrow> task_store \<Rightarrow> task_store" where
  "task_history env calls s = fold (task_step env) calls s"

fun removes :: "task_call \<Rightarrow> bool" where
  "removes (Purge _) = True"
| "removes (PurgeTimer _) = True"
| "removes Clear = True"
| "removes Dispose = True"
| "removes _ = False"

lemmas advancing_calls = advancing_createTask advancing_getTask advancing_getStatusResult
  advancing_getTaskHandle advancing_getRecordMetadata advancing_ownsTask advancing_listSnapshots
  advancing_beginExecution advancing_tryTransition advancing_transitionOrThrow
  advancing_expireTask advancing_cancelTask advancing_expiry_timer

lemma advancing_outcomes:
  "obeys (under task_store_wf tasks_advance) (completeTask env key outcome)"
  "obeys (under task_store_wf tasks_advance) (failTask env key outcome)"
  "obeys (under task_store_wf tasks_advance) (rejectTask env key outcome)"
  unfolding completeTask_def failTask_def rejectTask_def by (rule advancing_transition)+

lemma advancing_task_step: "\<not> removes c \<Longrightarrow> under task_store_wf tasks_advance s (task_step env c s)"
  by (cases c) (simp_all add: obeysD advancing_calls advancing_outcomes)

lemma advancing_history:
  "\<not> list_ex removes calls \<Longrightarrow> under task_store_wf tasks_advance s (task_history env calls s)"
  unfolding task_history_def
  by (induction calls arbitrary: s) (auto intro: advancing.refl advancing.trans advancing_task_step)

text \<open>Removal keeps the invariant too.\<close>

lemma task_store_wf_delete:
  assumes "task_store_wf s"
  shows "task_store_wf (s\<lparr>ts_records := AList.delete key (ts_records s),
     ts_queued := filter (\<lambda>k. k \<noteq> key) (ts_queued s)\<rparr>)"
proof -
  let ?t = "s\<lparr>ts_records := AList.delete key (ts_records s), ts_queued := filter (\<lambda>k. k \<noteq> key) (ts_queued s)\<rparr>"
  have "set (ts_queued ?t) = {k. \<exists>r. map_of (ts_records ?t) k = Some r \<and> sn_state (st_snapshot r) = St_queued}"
    by (auto simp: map_of_delete task_store_wf_queued(1) [OF assms])
  moreover have "\<forall>(k, r) \<in> set (ts_records ?t). task_ok k r"
    using assms by (auto simp: task_store_wf_def dest: subsetD [OF set_delete_subset])
  ultimately show ?thesis
    using assms by (simp add: task_store_wf_def distinct_keys_delete)
qed

lemma wf_removal:
  assumes "task_store_wf s"
  shows "task_store_wf (snd (purgeTask key s))" "task_store_wf (snd (purge_timer_fires key s))"
    "task_store_wf (snd (clear_tasks s))" "task_store_wf (snd (dispose s))"
proof -
  show "task_store_wf (snd (purgeTask key s))"
    using task_store_wf_delete [OF assms] assms
    by (auto simp: purgeTask_def findRecord_def exec_simps removeTask_def split: option.split)
  show "task_store_wf (snd (clear_tasks s))"
    by (simp add: clear_tasks_def exec_simps task_store_wf_def)
  show "task_store_wf (snd (dispose s))"
    using assms by (simp add: dispose_def clear_tasks_def exec_simps task_store_wf_def)
  show "task_store_wf (snd (purge_timer_fires key s))"
  proof (cases "map_of (ts_records s) key")
    case None
    then show ?thesis using assms by (simp add: purge_timer_fires_def findRecord_def exec_simps)
  next
    case (Some r)
    let ?f = "\<lambda>r. r\<lparr>st_purgeTimer := None\<rparr>"
    have "under task_store_wf tasks_advance s (snd (change_record key ?f s))"
      by (rule advancing_change_timer [OF Some]) (simp_all add: same_but_timers_def)
    then have wf: "task_store_wf (snd (change_record key ?f s))" using assms by (simp add: under_def)
    show ?thesis
      using assms wf task_store_wf_delete [OF wf, of key] Some
      by (simp add: purge_timer_fires_def findRecord_def exec_simps change_record_apply removeTask_def)
  qed
qed

lemma wf_task_step: "task_store_wf s \<Longrightarrow> task_store_wf (task_step env c s)"
  using advancing_task_step [of c s env] wf_removal [of s]
  by (cases c) (auto simp: under_def)

lemma wf_task_history: "task_store_wf s \<Longrightarrow> task_store_wf (task_history env calls s)"
  unfolding task_history_def by (induction calls arbitrary: s) (simp_all add: wf_task_step)

section \<open>A concrete store\<close>

text \<open>Both clocks count milliseconds from zero, one per reading.\<close>

definition demo_tasks_env :: task_env where
  "demo_tasks_env = \<lparr>te_wall = \<lambda>i. Fin (of_nat i), te_mono = \<lambda>i. Fin (of_nat i),
     te_parse = \<lambda>_. None, te_iso = \<lambda>_. ''t'', te_retainTerminalResponse = True,
     te_terminalRetentionMs = PosInf, te_localOwnerRuntimeId = Some ''me'', te_authorize = None\<rparr>"

definition demo_snapshot :: "task_state \<Rightarrow> task_snapshot" where
  "demo_snapshot state = \<lparr>sn_requestId = ''r'', sn_state = state, sn_createdAt = ''t'',
     sn_updatedAt = ''t'', sn_expiresAt = ''t'', sn_cancellationRequested = False,
     sn_cancellation = None,
     sn_terminalOutcome = (if isTerminalTaskState state then Some state else None),
     sn_content = None, sn_error = None\<rparr>"

definition demo_task :: "task_state \<Rightarrow> stored_task" where
  "demo_task state = \<lparr>st_requestId = ''r'', st_owner = \<lparr>ow_runtimeId = ''peer'', ow_sessionId = None\<rparr>,
     st_localOwner = \<lparr>ow_runtimeId = ''me'', ow_sessionId = None\<rparr>, st_expectedTargetRuntimeId = None,
     st_roomId = None, st_responseContract = None, st_ownership = Inbound, st_aborted = None,
     st_deadlineMs = 100, st_deadlineMonotonicMs = 100, st_updatedAtMs = 0,
     st_snapshot = demo_snapshot state, st_expiryTimer = None, st_purgeTimer = None\<rparr>"

definition demo_tasks :: "task_state \<Rightarrow> nat \<Rightarrow> task_store" where
  "demo_tasks state now = \<lparr>ts_records = [(''r'', demo_task state)], ts_queued = [],
     ts_disposed = False, ts_wallReads = now, ts_monoReads = now, ts_events = []\<rparr>"

lemma demo_tasks_wf:
  "state \<notin> {St_queued, St_cancelling, St_expired} \<Longrightarrow> task_store_wf (demo_tasks state now)"
  by (auto simp: task_store_wf_def demo_tasks_def demo_task_def demo_snapshot_def task_ok_def Let_def
      split: if_splits)

section \<open>Properties\<close>

text \<open>
  C15: The invariant.  From an empty store, whatever calls are made and timers fire (removals,
  failing clocks and rejected input included), every stored task is filed under its own id,
  has a terminal outcome exactly when it has ended, carries cancellation details exactly when
  cancellation was requested, has its signal aborted when it is cancelling or expired, has no
  deadline timer once it has ended, and the queue lists exactly the tasks in state queued.
\<close>

theorem task_store_invariant:
  assumes "new_task_store env = Inr s0"
  shows "task_store_wf (task_history env calls s0)"
proof -
  have "task_store_wf s0"
    using assms by (auto simp: new_task_store_def task_store_wf_def split: if_splits)
  then show ?thesis by (rule wf_task_history)
qed

theorem task_store_invariant_witness:
  "\<exists>s0. new_task_store demo_tasks_env = Inr s0 \<and>
     task_store_wf (task_history demo_tasks_env [Begin ''r'', Purge ''r'', Clear] s0)"
proof -
  have "new_task_store demo_tasks_env = Inr \<lparr>ts_records = [], ts_queued = [], ts_disposed = False,
      ts_wallReads = 0, ts_monoReads = 0, ts_events = []\<rparr>"
    by (simp add: new_task_store_def demo_tasks_env_def)
  from task_store_invariant [OF this] this show ?thesis by blast
qed

text \<open>
  C1: A task only moves forward.  Over any history without removals a stored task stays, keeps
  its owner, deadline and metadata, moves only along the legal life cycle, never takes back a
  cancellation request or an abort, never moves its update time backwards by a millisecond,
  and once it has ended its snapshot, outcome and result included, never changes again.
\<close>

theorem tasks_only_move_forward:
  assumes "task_store_wf s" and "map_of (ts_records s) key = Some r"
    and "\<not> list_ex removes calls"
  shows "\<exists>r'. map_of (ts_records (task_history env calls s)) key = Some r' \<and>
    later_state (sn_state (st_snapshot r)) (sn_state (st_snapshot r')) \<and>
    (isTerminalTaskState (sn_state (st_snapshot r)) \<longrightarrow> st_snapshot r' = st_snapshot r) \<and>
    (sn_cancellationRequested (st_snapshot r) \<longrightarrow> sn_cancellationRequested (st_snapshot r')) \<and>
    (st_aborted r \<noteq> None \<longrightarrow> st_aborted r' = st_aborted r) \<and>
    js_trunc (st_updatedAtMs r) \<le> js_trunc (st_updatedAtMs r') \<and>
    st_owner r' = st_owner r \<and> st_deadlineMonotonicMs r' = st_deadlineMonotonicMs r"
proof -
  have "tasks_advance s (task_history env calls s)"
    using advancing_history [OF assms(3), of s env] assms(1) by (simp add: under_def)
  then obtain r' where "map_of (ts_records (task_history env calls s)) key = Some r'" "task_advances r r'"
    using assms(2) by (auto simp: tasks_advance_def)
  then show ?thesis by (auto simp: task_advances_def Let_def)
qed

theorem tasks_only_move_forward_witness:
  "\<exists>r'. map_of (ts_records (task_history demo_tasks_env
      [Fail ''r'' Omitted, Cancel ''r'' \<lparr>cr_caller = None, cr_reason = None, cr_requestedAt = None\<rparr>]
      (demo_tasks St_completed 0))) ''r'' = Some r' \<and> st_snapshot r' = demo_snapshot St_completed"
proof -
  have "map_of (ts_records (demo_tasks St_completed 0)) ''r'' = Some (demo_task St_completed)"
    by (simp add: demo_tasks_def)
  from tasks_only_move_forward [OF demo_tasks_wf this, of
      "[Fail ''r'' Omitted, Cancel ''r'' \<lparr>cr_caller = None, cr_reason = None, cr_requestedAt = None\<rparr>]"
      demo_tasks_env]
  show ?thesis by (auto simp: demo_task_def demo_snapshot_def)
qed

section \<open>Deadlines\<close>

text \<open>A task whose deadline has passed is expired by the next operation that looks at it, unless
  a clock fails.\<close>

lemma transition_to_expired:
  assumes "transition_record env key None St_expired update r s = (Inr res, t)"
    and "map_of (ts_records s) key = Some r" and "\<not> isTerminalTaskState (sn_state (st_snapshot r))"
  shows "\<exists>r'. map_of (ts_records t) key = Some r' \<and> sn_state (st_snapshot r') = St_expired"
proof -
  have res: "\<exists>from sn. res = Transitioned from sn"
    using assms(1,3) by (auto simp: transition_record_def Let_def bindE_eq_Inr commit_transition_def
        thenE_def ret_def)
  then obtain w c n where w: "only_reads s w"
      "commit_transition env key (sn_state (st_snapshot r)) St_expired update
         (nextSnapshot env r St_expired update c n) (nt_epochMs n) w = (Inr res, t)"
    using transition_record_cases [OF assms(1)] by blast
  have "map_of (ts_records w) key = Some r" using w(1) assms(2) by (simp add: only_reads_def)
  with w(2) show ?thesis by (auto simp: commit_transition_apply map_of_update)
qed

lemma expireIfDue_due:
  assumes "expireIfDue env key s = (Inr (), t)" and "map_of (ts_records s) key = Some r"
    and "te_mono env (ts_monoReads s) = Fin now" and "st_deadlineMonotonicMs r \<le> now"
  shows "\<exists>r'. map_of (ts_records t) key = Some r' \<and>
    (if isTerminalTaskState (sn_state (st_snapshot r)) then r' = r else sn_state (st_snapshot r') = St_expired)"
proof (cases "isTerminalTaskState (sn_state (st_snapshot r))")
  case True
  then show ?thesis using assms(1,2) by (auto simp: expireIfDue_def findRecord_def exec_simps)
next
  case False
  let ?w = "s\<lparr>ts_monoReads := Suc (ts_monoReads s)\<rparr>"
  have m: "currentMonotonic env s = (Inr now, ?w)"
    using assms(3) by (simp add: currentMonotonic_def finite_reading_def exec_simps)
  have "expireRecord env key ?w = (Inr (), t)"
    using assms False m by (simp add: expireIfDue_def findRecord_def getE_def bindE_apply whenE_def)
  then obtain res where "transition_record env key None St_expired (expiry_update ''task deadline expired'') r ?w = (Inr res, t)"
    using assms(2) False
    by (auto simp: expireRecord_def findRecord_def transition_now_def thenE_def ensureUsable_def
        bindE_eq_Inr getE_def ret_def throw_def split: if_splits)
  from transition_to_expired [OF this] assms(2) False show ?thesis by simp
qed

lemma transition_record_expired:
  assumes "sn_state (st_snapshot r) = St_expired"
  shows "transition_record env key expectedState nextState update r s =
    (Inr (Not_transitioned (if expectedState \<noteq> None \<and> expectedState \<noteq> Some St_expired
        then SE_invalid_transition else SE_terminal) (Some (st_snapshot r))), s)"
  using assms by (simp add: transition_record_def Let_def ret_def)

lemma tryTransition_steps:
  assumes "tryTransition env key expectedState nextState update s = (Inr res, t)"
    and "map_of (ts_records s) key = Some r" and "nextState \<noteq> St_expired"
  shows "\<exists>w. expireIfDue env key s = (Inr (), w) \<and>
    transition_now env key expectedState nextState update w = (Inr res, t)"
  using assms
  by (auto simp: tryTransition_def thenE_def ensureUsable_def findRecord_def bindE_eq_Inr getE_def
      ret_def throw_def whenE_def split: if_splits)

text \<open>
  C16: Results cannot outrun the deadline.  Once the monotonic clock reads at or past the
  deadline of a running task, no transition can win: completing, failing, rejecting or
  cancelling it expires the task first, and the caller gets the expired snapshot back.
\<close>

theorem deadline_beats_late_results:
  assumes "map_of (ts_records s) key = Some r"
    and "\<not> isTerminalTaskState (sn_state (st_snapshot r))"
    and "te_mono env (ts_monoReads s) = Fin now" and "st_deadlineMonotonicMs r \<le> now"
    and "nextState \<noteq> St_expired"
    and "tryTransition env key expectedState nextState update s = (Inr res, t)"
  shows "\<exists>code sn r'. res = Not_transitioned code (Some sn) \<and> sn_state sn = St_expired \<and>
    code \<in> {SE_terminal, SE_invalid_transition} \<and>
    map_of (ts_records t) key = Some r' \<and> st_snapshot r' = sn"
proof -
  obtain w where w: "expireIfDue env key s = (Inr (), w)"
      "transition_now env key expectedState nextState update w = (Inr res, t)"
    using tryTransition_steps [OF assms(6,1,5)] by blast
  obtain r' where r': "map_of (ts_records w) key = Some r'" "sn_state (st_snapshot r') = St_expired"
    using expireIfDue_due [OF w(1) assms(1,3,4)] assms(2) by auto
  with w(2) show ?thesis
    by (auto simp: transition_now_def findRecord_def bindE_apply getE_def transition_record_expired)
qed

lemma demo_currentMonotonic:
  "currentMonotonic demo_tasks_env s =
     (Inr (of_nat (ts_monoReads s)), s\<lparr>ts_monoReads := Suc (ts_monoReads s)\<rparr>)"
  by (simp add: currentMonotonic_def finite_reading_def demo_tasks_env_def exec_simps)

lemma demo_currentNow:
  "currentNow demo_tasks_env s =
     (Inr (of_nat (ts_wallReads s)), s\<lparr>ts_wallReads := Suc (ts_wallReads s)\<rparr>)"
  by (simp add: currentNow_def finite_reading_def demo_tasks_env_def exec_simps)

theorem deadline_beats_late_results_witness:
  "\<exists>res t code sn. tryTransition demo_tasks_env ''r'' None St_completed empty_update
      (demo_tasks St_working 100) = (Inr res, t) \<and>
    res = Not_transitioned code (Some sn) \<and> sn_state sn = St_expired"
proof -
  have r: "map_of (ts_records (demo_tasks St_working 100)) ''r'' = Some (demo_task St_working)"
    by (simp add: demo_tasks_def)
  obtain res t where res: "tryTransition demo_tasks_env ''r'' None St_completed empty_update
      (demo_tasks St_working 100) = (Inr res, t)"
    by (simp add: tryTransition_def thenE_def ensureUsable_def findRecord_def expireIfDue_def
        expireRecord_def transition_now_def transition_record_def nextCancellation_def nextUpdatedAt_def
        bindE_apply getE_def ret_def whenE_def lift_sum_def demo_currentMonotonic demo_currentNow
        commit_transition_apply map_of_update nowTimestamp_def normalizeTimestamp_def MAX_TIME_VALUE_def
        demo_tasks_def demo_task_def demo_snapshot_def expiry_update_def empty_update_def Let_def
        js_trunc_def flat_def)
  have "\<exists>code sn r'. res = Not_transitioned code (Some sn) \<and> sn_state sn = St_expired \<and>
      code \<in> {SE_terminal, SE_invalid_transition} \<and>
      map_of (ts_records t) ''r'' = Some r' \<and> st_snapshot r' = sn"
    by (rule deadline_beats_late_results [where now = 100, OF r _ _ _ _ res])
       (simp_all add: demo_task_def demo_snapshot_def demo_tasks_env_def demo_tasks_def)
  with res show ?thesis by blast
qed

text \<open>
  C20: Reads respect the deadline.  When the clock read by the operation is at or past a task's
  deadline, neither status read ever shows the task as running.
\<close>

theorem no_running_task_after_deadline:
  assumes "map_of (ts_records s) key = Some r"
    and "te_mono env (ts_monoReads s) = Fin now" and "st_deadlineMonotonicMs r \<le> now"
    and "getTask env key options s = (Inr (Some sn), t) \<or>
         getStatusResult env key options s = (Inr (Status sn), t)"
  shows "isTerminalTaskState (sn_state sn)"
proof -
  have "read_due env key options s = (Inr (Some sn), t)"
    using assms(1,4)
    by (auto simp: getTask_def getStatusResult_def findRecord_def bindE_eq_Inr getE_def ret_def
        split: option.splits)
  then obtain w r' where w: "expireIfDue env key s = (Inr (), w)" "map_of (ts_records w) key = Some r'"
      "read_record env options r' = Some sn"
    by (auto simp: read_due_def thenE_def findRecord_def bindE_eq_Inr getE_def ret_def split: option.splits)
  have "isTerminalTaskState (sn_state (st_snapshot r'))"
    using expireIfDue_due [OF w(1) assms(1-3)] w(2) by (auto split: if_splits)
  with w(3) show ?thesis by (auto simp: read_record_def projectSnapshot_def split: if_splits)
qed

theorem no_running_task_after_deadline_witness:
  "\<exists>sn t. getTask demo_tasks_env ''r'' \<lparr>ro_includeTerminalResponse = None, ro_caller = None\<rparr>
      (demo_tasks St_working 100) = (Inr (Some sn), t) \<and> isTerminalTaskState (sn_state sn)"
proof -
  have r: "map_of (ts_records (demo_tasks St_working 100)) ''r'' = Some (demo_task St_working)"
    by (simp add: demo_tasks_def)
  obtain sn t where res: "getTask demo_tasks_env ''r'' \<lparr>ro_includeTerminalResponse = None, ro_caller = None\<rparr>
      (demo_tasks St_working 100) = (Inr (Some sn), t)"
    by (simp add: getTask_def read_due_def read_record_def thenE_def ensureUsable_def findRecord_def expireIfDue_def
        expireRecord_def transition_now_def transition_record_def nextCancellation_def nextUpdatedAt_def
        bindE_apply getE_def ret_def whenE_def lift_sum_def demo_currentMonotonic demo_currentNow
        commit_transition_apply map_of_update nowTimestamp_def normalizeTimestamp_def MAX_TIME_VALUE_def
        demo_tasks_def demo_task_def demo_snapshot_def expiry_update_def empty_update_def Let_def
        js_trunc_def flat_def)
  have "isTerminalTaskState (sn_state sn)"
    by (rule no_running_task_after_deadline [where now = 100, OF r _ _ disjI1 [OF res]])
       (simp_all add: demo_task_def demo_tasks_env_def demo_tasks_def)
  with res show ?thesis by blast
qed

section \<open>Authorization\<close>

lemma isAuthorized_advances:
  "task_advances r r' \<Longrightarrow> isAuthorized env r' caller action = isAuthorized env r caller action"
  by (simp add: isAuthorized_def task_advances_def Let_def split: option.split)

lemma expireIfDue_keeps:
  assumes "expireIfDue env key s = (x, w)" and "task_store_wf s" and "map_of (ts_records s) key = Some r"
  shows "\<exists>r'. map_of (ts_records w) key = Some r' \<and> task_advances r r'"
  using obeys_under [OF advancing_expireIfDue assms(1,2)] assms(3) by (auto simp: tasks_advance_def)

text \<open>
  C0: Strangers learn nothing.  Whoever is neither the requester, nor the local owner, nor
  admitted by the authorization callback gets, for a task that exists, the very answers that an
  unknown request id gives: status \<open>unauthorized\<close>, no snapshot, and a refused cancellation.
\<close>

theorem strangers_learn_nothing:
  assumes "task_store_wf s"
    and "\<And>r action. map_of (ts_records s) key = Some r \<Longrightarrow> \<not> isAuthorized env r caller action"
    and "ro_caller options = Some caller" and "cr_caller request = Some caller"
  shows "(getStatusResult env key options s = (Inr status, t) \<longrightarrow> status = No_status SE_unauthorized) \<and>
    (getTask env key options s = (Inr task, u) \<longrightarrow> task = None) \<and>
    (cancelTask env key request s = (Inr outcome, v) \<longrightarrow> outcome = Cancel_refused SE_unauthorized None)"
proof (cases "map_of (ts_records s) key")
  case None
  then show ?thesis
    using assms(3,4)
    by (auto simp: getStatusResult_def getTask_def cancelTask_def findRecord_def bindE_apply getE_def
        ret_def thenE_def ensureUsable_def throw_def split: if_splits)
next
  case (Some r)
  have gone: "\<not> isAuthorized env r' caller action"
    if "expireIfDue env key s = (x, w)" "map_of (ts_records w) key = Some r'" for x w r' action
    using expireIfDue_keeps [OF that(1) assms(1) Some] that(2) assms(2) [OF Some]
    by (auto simp: isAuthorized_advances)
  obtain x w where due: "expireIfDue env key s = (x, w)" by fastforce
  obtain r' where r': "map_of (ts_records w) key = Some r'"
    using expireIfDue_keeps [OF due assms(1) Some] by blast
  have read: "read_due env key options s = (case x of Inl e \<Rightarrow> (Inl e, w) | Inr _ \<Rightarrow> (Inr None, w))"
    using due r' gone [OF due r'] assms(3)
    by (cases x) (auto simp: read_due_def read_record_def thenE_def bindE_apply findRecord_def getE_def ret_def)
  have cancel: "cancelTask env key request s =
      (if ts_disposed s then (Inl (TaskStoreError SE_disposed None None), s)
       else case x of Inl e \<Rightarrow> (Inl e, w) | Inr _ \<Rightarrow> (Inr (Cancel_refused SE_unauthorized None), w))"
    using due r' gone [OF due r'] assms(4) Some
    by (cases x) (auto simp: cancelTask_def cancel_record_def thenE_def bindE_apply findRecord_def getE_def
        ret_def throw_def ensureUsable_def Let_def)
  show ?thesis
    using Some read cancel
    by (cases x) (auto simp: getStatusResult_def getTask_def bindE_apply findRecord_def getE_def ret_def
        split: if_splits)
qed

theorem strangers_learn_nothing_witness:
  "\<exists>status t. getStatusResult demo_tasks_env ''r''
      \<lparr>ro_includeTerminalResponse = None, ro_caller = Some (Owner_id ''stranger'')\<rparr> (demo_tasks St_working 0) = (Inr status, t) \<and>
    status = No_status SE_unauthorized"
proof -
  let ?options = "\<lparr>ro_includeTerminalResponse = None, ro_caller = Some (Owner_id ''stranger'')\<rparr>"
  obtain status t where res: "getStatusResult demo_tasks_env ''r'' ?options (demo_tasks St_working 0) = (Inr status, t)"
    by (simp add: getStatusResult_def read_due_def thenE_def bindE_apply findRecord_def getE_def ret_def
        expireIfDue_def demo_currentMonotonic whenE_def demo_tasks_def demo_task_def demo_snapshot_def)
  have "status = No_status SE_unauthorized"
    using strangers_learn_nothing [OF demo_tasks_wf, of St_working 0 "''r''" demo_tasks_env "Owner_id ''stranger''"
      ?options "\<lparr>cr_caller = Some (Owner_id ''stranger''), cr_reason = None, cr_requestedAt = None\<rparr>" status t] res
    by (simp add: demo_tasks_def demo_task_def isAuthorized_def runtimeIdOf_def demo_tasks_env_def)
  with res show ?thesis by blast
qed

section \<open>Isolation\<close>

fun event_task :: "task_event \<Rightarrow> string" where
  "event_task (Aborted key _) = key"
| "event_task (StateChange key _ _ _) = key"
| "event_task (CancellationRequested key _ _) = key"
| "event_task (Expired key _) = key"

definition isolated :: "string \<Rightarrow> task_store \<Rightarrow> task_store \<Rightarrow> bool" where
  "isolated key s t \<longleftrightarrow> (\<forall>k. k \<noteq> key \<longrightarrow> map_of (ts_records t) k = map_of (ts_records s) k) \<and>
     (\<forall>k. k \<noteq> key \<longrightarrow> (k \<in> set (ts_queued t) \<longleftrightarrow> k \<in> set (ts_queued s))) \<and>
     (\<exists>es. ts_events t = ts_events s @ es \<and> (\<forall>e \<in> set es. event_task e = key))"

interpretation isolation: step_contract "isolated key" for key
proof
  show "isolated key s s" for s by (auto simp: isolated_def)
  show "isolated key s u" if "isolated key s t" "isolated key t u" for s t u
    using that unfolding isolated_def by (auto simp: ball_Un)
qed

lemma isolated_reading: "obeys only_reads m \<Longrightarrow> obeys (isolated key) m"
  by (auto simp: obeys_def only_reads_def isolated_def)

lemma isolated_change: "obeys (isolated key) (change_record key f)"
  unfolding change_record_def
  by (rule isolation.modE) (auto simp: isolated_def map_of_update split: option.split)

lemma isolated_put: "obeys (isolated key) (put_record key r)"
  unfolding put_record_def by (rule isolation.modE) (auto simp: isolated_def map_of_update)

lemma isolated_emit: "event_task e = key \<Longrightarrow> obeys (isolated key) (emit e)"
  unfolding emit_def by (rule isolation.modE) (auto simp: isolated_def)

lemma isolated_queue: "obeys (isolated key) (queue_add key)" "obeys (isolated key) (queue_delete key)"
  unfolding queue_add_def queue_delete_def by (rule isolation.modE; auto simp: isolated_def)+

lemma isolated_remove: "obeys (isolated key) (removeTask key)"
  unfolding removeTask_def by (rule isolation.modE) (auto simp: isolated_def map_of_delete)

lemma isolated_find: "obeys (isolated key) (findRecord k)"
  unfolding findRecord_def by (rule isolation.getE)

lemma isolated_ensureUsable: "obeys (isolated key) ensureUsable"
  unfolding ensureUsable_def by (intro isolation.closure)

lemmas isolated_basic = isolation.closure isolated_change isolated_put isolated_emit isolated_queue
  isolated_remove isolated_find isolated_ensureUsable
  isolated_reading [OF reading_currentNow] isolated_reading [OF reading_currentMonotonic]
  isolated_reading [OF reading_lift_sum] isolated_reading [OF reading_nextCancellation]
  isolated_reading [OF reading_nextUpdatedAt]

lemma isolated_abort: "obeys (isolated key) (abort key reason)"
  unfolding abort_def by (intro isolated_basic) simp

lemma isolated_retain: "obeys (isolated key) (clearExpiry key)" "obeys (isolated key) (schedulePurge env key)"
  unfolding clearExpiry_def schedulePurge_def by (auto intro: isolated_basic split: jsnum.split)

lemma isolated_transition_record:
  "obeys (isolated key) (transition_record env key expectedState nextState update r)"
  unfolding transition_record_def commit_transition_def Let_def
  by (intro isolated_basic isolated_abort isolated_retain) simp_all

lemma isolated_transition_now:
  "obeys (isolated key) (transition_now env key expectedState nextState update)"
  unfolding transition_now_def by (intro isolated_basic isolated_transition_record)

lemma isolated_expireRecord: "obeys (isolated key) (expireRecord env key)"
  unfolding expireRecord_def by (intro isolated_basic isolated_transition_now)

lemma isolated_expireIfDue: "obeys (isolated key) (expireIfDue env key)"
  unfolding expireIfDue_def by (intro isolated_basic isolated_expireRecord)

lemma isolated_tryTransition:
  "obeys (isolated key) (tryTransition env key expectedState nextState update)"
  unfolding tryTransition_def by (intro isolated_basic isolated_expireIfDue isolated_transition_now)

lemma isolated_transition: "obeys (isolated key) (transition env key expectedState nextState update)"
  unfolding transition_def by (intro isolated_basic isolated_tryTransition)

lemma isolated_execution_handle: "obeys (isolated key) (execution_handle key)"
  unfolding execution_handle_def by (intro isolated_basic)

lemma isolated_read_due: "obeys (isolated key) (read_due env key options)"
  unfolding read_due_def by (intro isolated_basic isolated_expireIfDue)

lemma isolated_cancel_record: "obeys (isolated key) (cancel_record env key request r)"
  unfolding cancel_record_def Let_def by (intro isolated_basic isolated_tryTransition)

lemma isolated_scheduleExpiry: "obeys (isolated key) (scheduleExpiry env key)"
  unfolding scheduleExpiry_def Let_def by (intro isolated_basic isolated_expireRecord)

lemma isolated_store_admitted: "obeys (isolated key) (store_admitted env key r)"
  unfolding store_admitted_def Let_def
  by (intro isolated_basic isolated_abort isolated_retain isolated_scheduleExpiry) simp

lemma prod_cases:
  "(\<And>a b. v = (a, b) \<Longrightarrow> obeys R (f a b)) \<Longrightarrow> obeys R (case v of (a, b) \<Rightarrow> f a b)"
  by (cases v) auto

lemma isolated_createTask: "obeys (isolated (ci_requestId input)) (createTask env input)"
  unfolding createTask_def admit_task_def Let_def
  by (intro isolated_basic isolated_store_admitted prod_cases)

fun call_task :: "task_call \<Rightarrow> string option" where
  "call_task (Create input) = Some (ci_requestId input)"
| "call_task (Get key _) = Some key"
| "call_task (GetStatus key _) = Some key"
| "call_task (GetHandle key) = Some key"
| "call_task (GetMetadata key) = Some key"
| "call_task (Owns key _) = Some key"
| "call_task (ListAll _) = None"
| "call_task (Begin key) = Some key"
| "call_task (TryTransition key _ _ _) = Some key"
| "call_task (TransitionOrThrow key _ _) = Some key"
| "call_task (Complete key _) = Some key"
| "call_task (Fail key _) = Some key"
| "call_task (Reject key _) = Some key"
| "call_task (Expire key) = Some key"
| "call_task (Cancel key _) = Some key"
| "call_task (ExpiryTimer key) = Some key"
| "call_task (Purge key) = Some key"
| "call_task (PurgeTimer key) = Some key"
| "call_task Clear = None"
| "call_task Dispose = None"

lemmas isolated_steps = transition_result_cases isolated_basic isolated_expireIfDue isolated_tryTransition
  isolated_transition isolated_read_due isolated_cancel_record isolated_execution_handle
  isolated_expireRecord isolated_retain

lemma isolated_calls:
  "obeys (isolated key) (getTask env key options)" "obeys (isolated key) (getStatusResult env key options)"
  "obeys (isolated key) (getTaskHandle env key)" "obeys (isolated key) (getRecordMetadata env key)"
  "obeys (isolated key) (ownsTask env key caller)" "obeys (isolated key) (beginExecution env key)"
  "obeys (isolated key) (transitionOrThrow env key nextState update)"
  "obeys (isolated key) (completeTask env key outcome)" "obeys (isolated key) (failTask env key outcome)"
  "obeys (isolated key) (rejectTask env key outcome)" "obeys (isolated key) (expireTask env key)"
  "obeys (isolated key) (cancelTask env key request)" "obeys (isolated key) (expiry_timer_fires env key)"
  "obeys (isolated key) (purgeTask key)" "obeys (isolated key) (purge_timer_fires key)"
  unfolding getTask_def getStatusResult_def getTaskHandle_def getRecordMetadata_def ownsTask_def
    beginExecution_def transitionOrThrow_def completeTask_def failTask_def rejectTask_def expireTask_def
    cancelTask_def expiry_timer_fires_def purgeTask_def purge_timer_fires_def
  by (intro isolated_steps)+

text \<open>
  C19: Isolation.  A call or timer about one task leaves every other task, and its place in the
  queue, exactly as it was, and everything it tells the observers (abort signals included) is
  about that task: cancelling one request never aborts another.
\<close>

theorem calls_are_isolated:
  assumes "call_task c = Some key" and "other \<noteq> key"
  shows "map_of (ts_records (task_step env c s)) other = map_of (ts_records s) other \<and>
    (other \<in> set (ts_queued (task_step env c s)) \<longleftrightarrow> other \<in> set (ts_queued s)) \<and>
    (\<exists>es. ts_events (task_step env c s) = ts_events s @ es \<and> (\<forall>e \<in> set es. event_task e = key))"
proof -
  have "isolated key s (task_step env c s)"
    using assms(1) isolated_createTask [of _ env] isolated_tryTransition [of key env]
    by (cases c) (auto intro: obeysD isolated_calls)
  then show ?thesis using assms(2) by (simp add: isolated_def)
qed

theorem calls_are_isolated_witness:
  "map_of (ts_records (task_step demo_tasks_env
      (Cancel ''other'' \<lparr>cr_caller = None, cr_reason = None, cr_requestedAt = None\<rparr>)
      (demo_tasks St_working 0))) ''r'' = Some (demo_task St_working)"
  using calls_are_isolated [of "Cancel ''other'' \<lparr>cr_caller = None, cr_reason = None, cr_requestedAt = None\<rparr>"
      "''other''" "''r''" demo_tasks_env "demo_tasks St_working 0"]
  by (simp add: demo_tasks_def)

section \<open>Cancellation\<close>

text \<open>Clocks that work: every reading of the wall clock is a valid time value, and the deadline of
  the task is never reached.\<close>

definition clocks_before :: "task_env \<Rightarrow> rat \<Rightarrow> bool" where
  "clocks_before env deadline \<longleftrightarrow>
     (\<forall>i. \<exists>q. te_wall env i = Fin q \<and> \<bar>q\<bar> \<le> MAX_TIME_VALUE) \<and>
     (\<forall>i. \<exists>q. te_mono env i = Fin q \<and> q < deadline)"

lemma expireIfDue_early:
  assumes "clocks_before env (st_deadlineMonotonicMs r)" and "map_of (ts_records s) key = Some r"
  shows "\<exists>w. expireIfDue env key s = (Inr (), w) \<and> only_reads s w \<and>
    (isTerminalTaskState (sn_state (st_snapshot r)) \<longrightarrow> w = s)"
proof -
  obtain q where q: "te_mono env (ts_monoReads s) = Fin q" "q < st_deadlineMonotonicMs r"
    using assms(1) by (auto simp: clocks_before_def)
  then have "currentMonotonic env s = (Inr q, s\<lparr>ts_monoReads := Suc (ts_monoReads s)\<rparr>)"
    by (simp add: currentMonotonic_def finite_reading_def exec_simps)
  with q(2) assms(2) show ?thesis
    by (auto simp: expireIfDue_def findRecord_def getE_def bindE_apply whenE_def ret_def only_reads_def)
qed

lemma currentNow_valid:
  assumes "clocks_before env d"
  shows "\<exists>q w. currentNow env s = (Inr q, w) \<and> only_reads s w \<and> \<bar>q\<bar> \<le> MAX_TIME_VALUE"
proof -
  obtain q where "te_wall env (ts_wallReads s) = Fin q" "\<bar>q\<bar> \<le> MAX_TIME_VALUE"
    using assms by (auto simp: clocks_before_def)
  then show ?thesis
    by (auto simp: currentNow_def finite_reading_def exec_simps only_reads_def)
qed

lemma valid_time:
  "\<bar>q\<bar> \<le> MAX_TIME_VALUE \<Longrightarrow> \<exists>n. normalizeTimestamp env (TS_date (Fin q)) = Inr n"
  by (simp add: normalizeTimestamp_def)

lemma nextUpdatedAt_valid:
  assumes "clocks_before env d" and "\<bar>st_updatedAtMs r\<bar> \<le> MAX_TIME_VALUE"
  shows "\<exists>n w. nextUpdatedAt env r None s = (Inr n, w) \<and> only_reads s w"
proof -
  obtain q w where q: "currentNow env s = (Inr q, w)" "only_reads s w" "\<bar>q\<bar> \<le> MAX_TIME_VALUE"
    using currentNow_valid [OF assms(1)] by blast
  obtain n where n: "nowTimestamp env q = Inr n" using valid_time [OF q(3)] by (auto simp: nowTimestamp_def)
  obtain m where m: "nowTimestamp env (st_updatedAtMs r) = Inr m"
    using valid_time [OF assms(2)] by (auto simp: nowTimestamp_def)
  show ?thesis
    using q n m by (auto simp: nextUpdatedAt_def bindE_apply lift_sum_def ret_def Let_def max_def)
qed

text \<open>A legal cancelling transition goes through.\<close>

lemma cancel_transition:
  assumes "clocks_before env (st_deadlineMonotonicMs r)" and "map_of (ts_records s) key = Some r"
    and "canTransitionTaskState (sn_state (st_snapshot r)) target" and "target \<noteq> St_expired"
    and "aborting_state target" and "\<not> ts_disposed s" and "\<bar>st_updatedAtMs r\<bar> \<le> MAX_TIME_VALUE"
    and "up_cancellationRequested update = Some True" and "up_updatedAt update = None"
    and "up_requestedAt update = Some (TS_date (Fin q))" and "\<bar>q\<bar> \<le> MAX_TIME_VALUE"
  shows "\<exists>sn r' t. tryTransition env key None target update s =
      (Inr (Transitioned (sn_state (st_snapshot r)) sn), t) \<and>
    map_of (ts_records t) key = Some r' \<and> st_snapshot r' = sn \<and> sn_state sn = target \<and>
    sn_cancellationRequested sn \<and> st_aborted r' \<noteq> None"
proof -
  obtain w where w: "expireIfDue env key s = (Inr (), w)" "only_reads s w"
    using expireIfDue_early [OF assms(1,2)] by blast
  have r: "map_of (ts_records w) key = Some r" using assms(2) w(2) by (simp add: only_reads_def)
  obtain n where n: "normalizeTimestamp env (TS_date (Fin q)) = Inr n" using valid_time [OF assms(11)] by blast
  have "nextCancellation env r target update w = (Inr (True, Some (nt_value n)), w)"
    using assms(8,10) n by (simp add: nextCancellation_def Let_def bindE_apply ret_def lift_sum_def)
  then obtain c where c: "nextCancellation env r target update w = (Inr c, w)" "fst c" by fastforce
  obtain m u where m: "nextUpdatedAt env r None w = (Inr m, u)" "only_reads w u"
    using nextUpdatedAt_valid [OF assms(1,7)] by blast
  have ru: "map_of (ts_records u) key = Some r" using r m(2) by (simp add: only_reads_def)
  have "tryTransition env key None target update s =
      commit_transition env key (sn_state (st_snapshot r)) target update
        (nextSnapshot env r target update c m) (nt_epochMs m) u"
    using assms(2,3,4,6,9) w r c m terminal_no_transition [OF assms(3)]
    by (simp add: tryTransition_def thenE_def ensureUsable_def findRecord_def bindE_apply getE_def ret_def
        whenE_def transition_now_def transition_record_def Let_def)
  then show ?thesis using c(2) assms(5) by (simp add: commit_transition_apply [OF ru] map_of_update)
qed

text \<open>
  C17: What cancellation does.  While the clocks work and the deadline is not reached, an
  authorized cancellation of a known task always answers, by the task's state: work that is
  running becomes cancelling, work that has not begun (and a second request for cancelling
  work) becomes cancelled, in both cases with the request recorded and the task's signal
  aborted; a cancelled task confirms without changing, and a task that was only created or has
  ended otherwise is not cancelable and stays as it is.
\<close>

theorem cancellation_by_state:
  assumes "map_of (ts_records s) key = Some r" and "\<not> ts_disposed s"
    and "clocks_before env (st_deadlineMonotonicMs r)" and "\<bar>st_updatedAtMs r\<bar> \<le> MAX_TIME_VALUE"
    and "\<forall>caller. cr_caller request = Some caller \<longrightarrow> isAuthorized env r caller Act_cancel"
    and "cr_requestedAt request = None"
  shows "\<exists>outcome t. cancelTask env key request s = (Inr outcome, t) \<and>
    (let state = sn_state (st_snapshot r);
         target = (if state = St_working then St_cancelling else St_cancelled)
     in if state \<in> {St_working, St_accepted, St_queued, St_cancelling}
        then \<exists>r'. outcome = Cancelled_ok True target (st_snapshot r') \<and>
               map_of (ts_records t) key = Some r' \<and> sn_state (st_snapshot r') = target \<and>
               sn_cancellationRequested (st_snapshot r') \<and> st_aborted r' \<noteq> None
        else outcome = (if state = St_cancelled then Cancelled_ok False St_cancelled (st_snapshot r)
               else Cancel_refused SE_not_cancelable (Some (st_snapshot r))) \<and>
             map_of (ts_records t) key = Some r)"
proof -
  let ?state = "sn_state (st_snapshot r)"
  obtain w where w: "expireIfDue env key s = (Inr (), w)" "only_reads s w"
    using expireIfDue_early [OF assms(3,1)] by blast
  have r: "map_of (ts_records w) key = Some r" "\<not> ts_disposed w"
    using assms(1,2) w(2) by (auto simp: only_reads_def)
  have auth: "\<not> (case cr_caller request of None \<Rightarrow> False | Some caller \<Rightarrow> \<not> isAuthorized env r caller Act_cancel)"
    using assms(5) by (auto split: option.split)
  have start: "cancelTask env key request s = cancel_record env key request r w"
    using assms(1,2) w(1) r by (simp add: cancelTask_def thenE_def ensureUsable_def findRecord_def
        bindE_apply getE_def ret_def)
  show ?thesis
  proof (cases "isTerminalTaskState ?state")
    case True
    then show ?thesis
      using start auth r(1) by (cases ?state) (auto simp: cancel_record_def Let_def ret_def)
  next
    case False
    let ?target = "if ?state = St_working then St_cancelling else St_cancelled"
    obtain q u where q: "currentNow env w = (Inr q, u)" "only_reads w u" "\<bar>q\<bar> \<le> MAX_TIME_VALUE"
      using currentNow_valid [OF assms(3)] by blast
    have ru: "map_of (ts_records u) key = Some r" "\<not> ts_disposed u" using r q(2) by (auto simp: only_reads_def)
    let ?update = "cancel_update request (TS_date (Fin q)) (?state = St_working)"
    have go: "cancelTask env key request s = bindE (tryTransition env key None ?target ?update)
        (\<lambda>result. ret (case result of
            Transitioned _ snapshot \<Rightarrow> Cancelled_ok True ?target snapshot
          | Not_transitioned code snapshot \<Rightarrow> Cancel_refused (cancellationFailureCode code) snapshot)) u"
      using False auth q(1) assms(6) by (auto simp: start cancel_record_def Let_def bindE_apply ret_def)
    show ?thesis
    proof (cases "?state = St_created")
      case True
      obtain v where v: "expireIfDue env key u = (Inr (), v)" "only_reads u v"
        using expireIfDue_early [OF assms(3) ru(1)] by blast
      have rv: "map_of (ts_records v) key = Some r" using ru(1) v(2) by (simp add: only_reads_def)
      have "tryTransition env key None ?target ?update u =
          (Inr (Not_transitioned SE_invalid_transition (Some (st_snapshot r))), v)"
        using True ru v(1) rv
        by (simp add: tryTransition_def thenE_def ensureUsable_def findRecord_def bindE_apply getE_def ret_def
            whenE_def transition_now_def transition_record_def Let_def canTransitionTaskState_def)
      then show ?thesis using True rv by (simp add: go bindE_apply ret_def cancellationFailureCode_def)
    next
      case False
      have upd: "up_cancellationRequested ?update = Some True" "up_updatedAt ?update = None"
        "up_requestedAt ?update = Some (TS_date (Fin q))"
        by (simp_all add: cancel_update_def empty_update_def)
      have target: "canTransitionTaskState ?state ?target" "?target \<noteq> St_expired" "aborting_state ?target"
        using False \<open>\<not> isTerminalTaskState ?state\<close>
        by (cases ?state; simp add: canTransitionTaskState_def aborting_state_def)+
      obtain sn r' t where "tryTransition env key None ?target ?update u = (Inr (Transitioned ?state sn), t)"
          "map_of (ts_records t) key = Some r'" "st_snapshot r' = sn" "sn_state sn = ?target"
          "sn_cancellationRequested sn" "st_aborted r' \<noteq> None"
        using cancel_transition [OF assms(3) ru(1) target ru(2) assms(4) upd q(3)] by blast
      moreover have "?state \<in> {St_working, St_accepted, St_queued, St_cancelling}"
        using False \<open>\<not> isTerminalTaskState ?state\<close> by (cases ?state) auto
      ultimately show ?thesis by (auto simp: go bindE_apply ret_def)
    qed
  qed
qed

theorem cancellation_by_state_witness:
  "\<exists>outcome t sn. cancelTask (demo_tasks_env\<lparr>te_mono := \<lambda>_. Fin 5, te_wall := \<lambda>_. Fin 7\<rparr>) ''r''
      \<lparr>cr_caller = Some (Owner_id ''peer''), cr_reason = None, cr_requestedAt = None\<rparr>
      (demo_tasks St_working 0) = (Inr outcome, t) \<and> outcome = Cancelled_ok True St_cancelling sn"
proof -
  let ?env = "demo_tasks_env\<lparr>te_mono := \<lambda>_. Fin 5, te_wall := \<lambda>_. Fin 7\<rparr>"
  let ?request = "\<lparr>cr_caller = Some (Owner_id ''peer''), cr_reason = None, cr_requestedAt = None\<rparr>"
  have r: "map_of (ts_records (demo_tasks St_working 0)) ''r'' = Some (demo_task St_working)"
    by (simp add: demo_tasks_def)
  have clocks: "clocks_before ?env (st_deadlineMonotonicMs (demo_task St_working))"
    by (simp add: clocks_before_def demo_task_def MAX_TIME_VALUE_def)
  show ?thesis
    using cancellation_by_state [OF r _ clocks, of ?request]
    by (auto simp: demo_tasks_def demo_task_def demo_snapshot_def MAX_TIME_VALUE_def isAuthorized_def
        runtimeIdOf_def Let_def)
qed

section \<open>Admission\<close>

lemma expireRecord_outcome:
  assumes "map_of (ts_records s) key = Some r" and "expireRecord env key s = (x, t)"
  shows "\<exists>r'. map_of (ts_records t) key = Some r' \<and>
    st_owner r' = st_owner r \<and> (st_snapshot r' = st_snapshot r \<or> sn_state (st_snapshot r') = St_expired)"
proof (cases "isTerminalTaskState (sn_state (st_snapshot r)) \<or> ts_disposed s")
  case True
  then show ?thesis
    using assms by (auto simp: expireRecord_def findRecord_def thenE_def ensureUsable_def bindE_apply getE_def
        ret_def throw_def split: if_splits)
next
  case False
  obtain z u where z: "transition_record env key None St_expired (expiry_update ''task deadline expired'') r s = (z, u)"
    by fastforce
  have "t = u"
    using assms False z by (auto simp: expireRecord_def findRecord_def thenE_def ensureUsable_def bindE_apply
        getE_def ret_def transition_now_def split: sum.splits)
  then show ?thesis
    using transition_record_cases [OF z] assms(1)
    by (auto simp: only_reads_def commit_transition_apply map_of_update)
qed

lemma scheduleExpiry_outcome:
  assumes "map_of (ts_records s) key = Some r" and "scheduleExpiry env key s = (x, t)"
  shows "\<exists>r'. map_of (ts_records t) key = Some r' \<and>
    st_owner r' = st_owner r \<and> (st_snapshot r' = st_snapshot r \<or> sn_state (st_snapshot r') = St_expired)"
proof -
  obtain y w where y: "currentMonotonic env s = (y, w)" by fastforce
  have "only_reads s w" using obeys_result [OF reading_currentMonotonic y] .
  then have r: "map_of (ts_records w) key = Some r" using assms(1) by (simp add: only_reads_def)
  show ?thesis
    using assms y r expireRecord_outcome [OF r]
    by (cases y) (auto simp: scheduleExpiry_def findRecord_def bindE_apply getE_def Let_def
        change_record_apply map_of_update split: if_splits)
qed

lemma store_admitted_outcome:
  assumes "store_admitted env key r s = (Inr (), t)" and "st_aborted r = None" and "st_expiryTimer r = None"
  shows "\<exists>r'. map_of (ts_records t) key = Some r' \<and>
    st_owner r' = st_owner r \<and> (st_snapshot r' = st_snapshot r \<or> sn_state (st_snapshot r') = St_expired)"
proof (cases "isTerminalTaskState (sn_state (st_snapshot r))")
  case True
  then show ?thesis
    using assms by (auto simp: store_admitted_terminal retained_record_def map_of_update)
next
  case False
  then show ?thesis
    using assms(1) unfolding store_admitted_running [OF False]
    by (intro scheduleExpiry_outcome) (simp_all add: map_of_update)
qed

text \<open>
  C0: What admission returns.  A request id is admitted at most once: a second \<open>createTask\<close>
  throws \<open>duplicate\<close> and changes nothing.  When \<open>createTask\<close> returns a snapshot, the id was new,
  the snapshot shows the requested state or \<open>expired\<close>, and the store now holds that very
  snapshot, or already an expired one when the monotonic clock jumped past the deadline during
  the call, in which case the returned snapshot is stale.
\<close>

theorem admission_outcome:
  assumes "createTask env input s = (x, t)" and "key = ci_requestId input"
  shows "(map_of (ts_records s) key \<noteq> None \<and> \<not> ts_disposed s \<longrightarrow>
      x = Inl (TaskStoreError SE_duplicate (Some key) None) \<and> t = s) \<and>
    (\<forall>sn. x = Inr sn \<longrightarrow> map_of (ts_records s) key = None \<and>
      sn_state sn \<in> {requested_state input, St_expired} - {St_cancelling} \<and>
      (\<exists>r. map_of (ts_records t) key = Some r \<and> normalizeOwner input = Inr (st_owner r) \<and>
         (st_snapshot r = sn \<or> sn_state (st_snapshot r) = St_expired)))"
proof (intro conjI allI impI)
  assume "map_of (ts_records s) key \<noteq> None \<and> \<not> ts_disposed s"
  then show "x = Inl (TaskStoreError SE_duplicate (Some key) None)" "t = s"
    using assms by (auto simp: createTask_def thenE_def ensureUsable_def bindE_apply getE_def ret_def
        throw_def findRecord_def Let_def)
next
  fix sn
  assume "x = Inr sn"
  then obtain owner localOwner where o: "normalizeOwner input = Inr owner"
      "map_of (ts_records s) key = None" "requested_state input \<noteq> St_cancelling"
      "admit_task env input owner localOwner s = (Inr sn, t)"
    using assms by (auto simp: createTask_def thenE_def ensureUsable_def bindE_eq_Inr getE_def ret_def
        throw_def findRecord_def Let_def lift_sum_Inr split: if_splits)
  then obtain now a b c m w where w:
      "sn = admission_snapshot env input now a b c"
      "store_admitted env key (admitted_record input owner localOwner (nt_epochMs b)
         (m + max 0 (nt_epochMs b - now)) (nt_epochMs a) sn) w = (Inr (), t)"
    using assms(2) by (auto simp: admit_task_def thenE_def bindE_eq_Inr ret_def Let_def split: prod.splits)
  show "map_of (ts_records s) key = None" using o(2) .
  show "sn_state sn \<in> {requested_state input, St_expired} - {St_cancelling}"
    using w(1) o(3) by (auto split: if_splits)
  show "\<exists>r. map_of (ts_records t) key = Some r \<and> normalizeOwner input = Inr (st_owner r) \<and>
         (st_snapshot r = sn \<or> sn_state (st_snapshot r) = St_expired)"
    using store_admitted_outcome [OF w(2)] o(1) by (auto simp: admitted_record_def)
qed

definition demo_input :: create_input where
  "demo_input = \<lparr>ci_requestId = ''n'', ci_requester = None, ci_owner = Some (Owner_id ''peer''),
     ci_sender = None, ci_ownerRuntimeId = None, ci_senderRuntimeId = None, ci_ownerSessionId = None,
     ci_localOwner = None, ci_expectedTargetRuntimeId = None, ci_roomId = None,
     ci_responseContract = None, ci_ownership = None, ci_direction = None, ci_createdAt = None,
     ci_expiresAt = None, ci_initialState = None, ci_state = Some St_queued, ci_admissionState = None,
     ci_cancellationRequested = None, ci_requestedAt = None, ci_response = None, ci_content = None,
     ci_error = None\<rparr>"

theorem admission_outcome_witness:
  "\<exists>sn t r. createTask demo_tasks_env demo_input (demo_tasks St_working 0) = (Inr sn, t) \<and>
     map_of (ts_records t) ''n'' = Some r \<and> normalizeOwner demo_input = Inr (st_owner r)"
proof -
  obtain x t where res: "createTask demo_tasks_env demo_input (demo_tasks St_working 0) = (x, t)" by fastforce
  have owner: "normalizeOwner demo_input = Inr \<lparr>ow_runtimeId = ''peer'', ow_sessionId = None\<rparr>"
    by (simp add: normalizeOwner_def normalizeOwnerValue_def or_else_def runtimeIdOf_def demo_input_def)
  have local_owner: "normalizeLocalOwner demo_input ow (te_localOwnerRuntimeId demo_tasks_env) =
      Inr \<lparr>ow_runtimeId = ''me'', ow_sessionId = None\<rparr>" for ow
    by (simp add: normalizeLocalOwner_def normalizeOwnerValue_def runtimeIdOf_def demo_input_def demo_tasks_env_def)
  have state: "requested_state demo_input = St_queued" "ci_requestId demo_input = ''n''"
    by (simp_all add: requested_state_def or_else_def the_or_def demo_input_def)
  have times: "admission_times demo_tasks_env demo_input 0 =
      Inr (\<lparr>nt_value = ''t'', nt_epochMs = 0\<rparr>, \<lparr>nt_value = ''t'', nt_epochMs = 600000\<rparr>)"
    by (simp add: admission_times_def normalizeTimestamp_def the_or_def demo_input_def demo_tasks_env_def
        MAX_TIME_VALUE_def DEFAULT_REQUEST_TTL_MS_def)
  have requested: "admission_requestedAt demo_tasks_env demo_input 0 = Inr None"
    by (simp add: admission_requestedAt_def the_or_def demo_input_def)
  have "\<exists>sn. x = Inr sn"
    using res
    by (auto simp: createTask_def admit_task_def thenE_def ensureUsable_def bindE_apply getE_def ret_def
        findRecord_def lift_sum_def demo_currentNow demo_currentMonotonic owner local_owner state times requested
        demo_tasks_def Let_def store_admitted_running admitted_record_def scheduleExpiry_def
        change_record_def modE_def split: if_splits)
  then show ?thesis
    using admission_outcome [OF res HOL.refl] res by (auto simp: state)
qed

end
