(* ===== verification/Routing_Policy.thy ===== *)
theory Routing_Policy
  imports Protocol_Errors Task_State
begin

text \<open>
  The admission queue of the router (\<open>src/router/policy.ts\<close>): a bounded queue and a bounded
  set of active leases, with deadlines, cancellation and lookup by opaque handle, entry, entry
  id, request id or lease.  Records are shared objects of the code, so they live in a heap and
  are named by their token.  What other code may change about an entry while it is retained
  (its cancelled, aborted, runnable and state markers, its abort signal) is the view of the
  entry at a moment, and a moment is the number of clock readings made so far.  Readings of the
  clock, random UUIDs and \<open>Date.parse\<close> are fields of the environment.  Entries reported to
  \<open>onExpired\<close> are kept in order.
\<close>

section \<open>Data\<close>

datatype queue_deadline = QD_number jsnum | QD_date jsnum | QD_text string

text \<open>\<open>en_ref\<close> is the identity of the entry object.\<close>

record 'v queue_entry =
  en_ref :: nat
  en_id :: "string option"
  en_requestId :: "string option"
  en_value :: 'v
  en_expiresAt :: queue_deadline

record entry_view =
  ev_cancelled :: bool
  ev_aborted :: bool
  ev_state :: "string option"
  ev_runnable :: "bool option"
  ev_signalAborted :: bool
  ev_isCancelled :: bool

datatype record_status = RS_candidate | RS_queued | RS_active | RS_cancelled | RS_released

record 'v queue_record =
  qr_token :: nat
  qr_handle :: string
  qr_entry :: "'v queue_entry"
  qr_deadline :: rat
  qr_status :: record_status
  qr_expired :: bool
  qr_expiryNotified :: bool
  qr_cancellationRequested :: bool
  qr_lease :: bool

record 'v queue_lease =
  ql_handle :: string
  ql_requestId :: "string option"
  ql_value :: 'v
  ql_entry :: "'v queue_entry"
  ql_expiresAt :: rat

record policy_env =
  re_clock :: clock
  re_view :: "nat \<Rightarrow> nat \<Rightarrow> entry_view"
  re_parse :: "string \<Rightarrow> rat option"
  re_uuid :: "nat \<Rightarrow> string"
  re_retryAfterMs :: "jsnum option"

record 'v policy =
  rp_queueCapacity :: nat
  rp_activeCapacity :: nat
  rp_heap :: "nat \<rightharpoonup> 'v queue_record"
  rp_queue :: "nat list"
  rp_active :: "nat list"
  rp_handles :: "string \<rightharpoonup> nat"
  rp_entries :: "nat \<rightharpoonup> nat list"
  rp_entryIds :: "string \<rightharpoonup> nat list"
  rp_requestIds :: "string \<rightharpoonup> nat list"
  rp_nextToken :: nat
  rp_lastObservedNow :: jsnum
  rp_reads :: nat
  rp_uuids :: nat
  rp_expiredLog :: "nat list"

datatype policy_exn = Pol js_exn | Diverges

type_synonym ('v, 'a) policy_exec = "('v policy, policy_exn, 'a) exec"

datatype 'v admission =
    Accepted "'v queue_lease"
  | Queued "'v queue_entry" string nat
  | Busy protocol_error
  | Expired_admission protocol_error
  | Cancelled_admission protocol_error

text \<open>A lease object is one of its record; it still carries handle and request id.\<close>

datatype queue_target =
    By_string string
  | By_lease nat string "string option"
  | By_entry nat
  | By_reference string "string option"

datatype lookup = Found nat | Not_found | Ambiguous

datatype 'v cancellation =
    Cancelled_record "'v queue_entry" string
  | Cancelling_record "'v queue_entry" string
  | Expired_record "'v queue_entry" string
  | Not_cancelable_record "'v queue_entry" string
  | Not_found_record
  | Ambiguous_record

section \<open>Pure helpers\<close>

definition DEFAULT_QUEUE_CAPACITY :: nat where
  "DEFAULT_QUEUE_CAPACITY = 32"

definition queue_time_error :: policy_exn where
  "queue_time_error = Pol (RangeErrorExn ''queue time must be a finite number or valid Date'')"

definition resolveDeadline :: "policy_env \<Rightarrow> queue_deadline \<Rightarrow> policy_exn + rat" where
  "resolveDeadline env v =
     (case v of
        QD_number (Fin q) \<Rightarrow> Inr q
      | QD_number _ \<Rightarrow> Inl (Pol (RangeErrorExn ''expiresAt must be a finite number''))
      | QD_date (Fin q) \<Rightarrow> Inr q
      | QD_date _ \<Rightarrow> Inl queue_time_error
      | QD_text w \<Rightarrow>
          (case re_parse env w of
             Some q \<Rightarrow> Inr q
           | None \<Rightarrow> Inl (Pol (RangeErrorExn
               ''expiresAt must be a finite number, valid Date, or RFC 3339 timestamp''))))"

definition resolveConfiguredCapacity :: "jsnum option list \<Rightarrow> policy_exn + jsnum option" where
  "resolveConfiguredCapacity vs =
     (let configured = List.map_filter id vs
      in case configured of
           [] \<Rightarrow> Inr None
         | capacity # _ \<Rightarrow>
             if list_ex (\<lambda>v. v \<noteq> capacity \<or> v = NaN) configured
             then Inl (Pol (RangeErrorExn ''aliases must agree'')) else Inr (Some capacity))"

definition validateCapacity :: "jsnum \<Rightarrow> policy_exn + nat" where
  "validateCapacity v =
     (if \<not> is_safe_integer v \<or> v < Fin 1
      then Inl (Pol (RangeErrorExn ''must be a positive safe integer''))
      else if Fin (of_nat DEFAULT_QUEUE_CAPACITY) < v
      then Inl (Pol (RangeErrorExn ''must not exceed the maximum''))
      else Inr (nat \<lfloor>fin_val v\<rfloor>))"

text \<open>The aliases of both capacities, in the order of the code; a missing option is \<open>None\<close>.\<close>

definition resolveQueueCapacity :: "jsnum option list \<Rightarrow> policy_exn + nat" where
  "resolveQueueCapacity aliases =
     (case resolveConfiguredCapacity aliases of
        Inl x \<Rightarrow> Inl x
      | Inr configured \<Rightarrow> validateCapacity
          (case configured of None \<Rightarrow> Fin (of_nat DEFAULT_QUEUE_CAPACITY) | Some c \<Rightarrow> c))"

definition resolveActiveCapacity :: "jsnum option list \<Rightarrow> nat \<Rightarrow> policy_exn + nat" where
  "resolveActiveCapacity aliases queueCapacity =
     (case resolveConfiguredCapacity aliases of
        Inl x \<Rightarrow> Inl x
      | Inr configured \<Rightarrow> validateCapacity
          (case configured of None \<Rightarrow> Fin (of_nat queueCapacity) | Some c \<Rightarrow> c))"

definition TASK_STATE_NAMES :: "(string \<times> task_state) list" where
  "TASK_STATE_NAMES = [(''created'', St_created), (''accepted'', St_accepted), (''queued'', St_queued),
     (''working'', St_working), (''cancelling'', St_cancelling), (''completed'', St_completed),
     (''failed'', St_failed), (''rejected'', St_rejected), (''cancelled'', St_cancelled),
     (''expired'', St_expired)]"

definition isRunnableState :: "string option \<Rightarrow> bool" where
  "isRunnableState state =
     (case state of
        None \<Rightarrow> True
      | Some name \<Rightarrow>
          if name = ''aborted'' then False
          else (case map_of TASK_STATE_NAMES name of
              None \<Rightarrow> False
            | Some taskState \<Rightarrow> taskState = St_accepted \<or> taskState = St_queued))"

definition isEntryCancellationRequested :: "entry_view \<Rightarrow> bool" where
  "isEntryCancellationRequested v \<longleftrightarrow> ev_cancelled v \<or> ev_aborted v \<or>
     ev_state v = Some ''cancelled'' \<or> ev_state v = Some ''cancelling'' \<or>
     ev_signalAborted v \<or> ev_isCancelled v"

definition isTerminalOrAbortedState :: "string option \<Rightarrow> bool" where
  "isTerminalOrAbortedState state =
     (if state = Some ''aborted'' then True
      else case state of
          None \<Rightarrow> False
        | Some name \<Rightarrow> (case map_of TASK_STATE_NAMES name of
              None \<Rightarrow> False | Some taskState \<Rightarrow> isTerminalTaskState taskState))"

definition isRunnableRecord :: "'v queue_record \<Rightarrow> entry_view \<Rightarrow> rat \<Rightarrow> bool" where
  "isRunnableRecord r v now \<longleftrightarrow>
     (qr_status r = RS_candidate \<or> qr_status r = RS_queued) \<and> \<not> qr_expired r \<and>
     \<not> qr_cancellationRequested r \<and> ev_runnable v \<noteq> Some False \<and> qr_deadline r > now \<and>
     isRunnableState (ev_state v) \<and> \<not> isEntryCancellationRequested v"

text \<open>The error that accompanies each cancellation outcome.\<close>

fun cancellation_error :: "'v cancellation \<Rightarrow> protocol_error" where
  "cancellation_error (Cancelled_record _ _) =
     protocol_error EC_cancelled ''Queue entry was cancelled'' None"
| "cancellation_error (Cancelling_record _ _) =
     protocol_error EC_cancelled ''Active queue lease cancellation was requested'' None"
| "cancellation_error (Expired_record _ _) = protocol_error EC_expired ''Queue entry has expired'' None"
| "cancellation_error (Not_cancelable_record _ _) =
     protocol_error EC_not_cancelable ''Queue entry is no longer cancelable'' None"
| "cancellation_error Not_found_record = protocol_error EC_not_found ''Queue entry was not found'' None"
| "cancellation_error Ambiguous_record =
     protocol_error EC_ambiguous ''Queue handle identifies multiple queue entries'' None"

section \<open>Primitive steps\<close>

definition readMonotonicNow :: "policy_env \<Rightarrow> jsnum option \<Rightarrow> ('v, rat) policy_exec" where
  "readMonotonicNow env override =
     bindE (case override of
         Some v \<Rightarrow> ret v
       | None \<Rightarrow> bindE (getE rp_reads)
           (\<lambda>i. thenE (modE (\<lambda>s. s\<lparr>rp_reads := Suc i\<rparr>)) (ret (re_clock env i))))
     (\<lambda>candidate.
        if \<not> is_finite candidate then throw queue_time_error
        else bindE (getE rp_lastObservedNow)
          (\<lambda>last_now. if candidate < last_now then ret (fin_val last_now)
             else thenE (modE (\<lambda>s. s\<lparr>rp_lastObservedNow := candidate\<rparr>)) (ret (fin_val candidate))))"

definition validateRetryAfterMs :: "jsnum option \<Rightarrow> policy_exn + unit" where
  "validateRetryAfterMs retryAfterMs =
     (case retryAfterMs of
        None \<Rightarrow> Inr ()
      | Some v \<Rightarrow>
          if \<not> is_finite v \<or> v \<le> Fin 0
          then Inl (Pol (RangeErrorExn ''retryAfterMs must be a finite positive number''))
          else Inr ())"

definition empty_policy :: "nat \<Rightarrow> nat \<Rightarrow> 'v policy" where
  "empty_policy queueCapacity activeCapacity =
     \<lparr>rp_queueCapacity = queueCapacity, rp_activeCapacity = activeCapacity,
      rp_heap = Map.empty, rp_queue = [], rp_active = [], rp_handles = Map.empty,
      rp_entries = Map.empty, rp_entryIds = Map.empty, rp_requestIds = Map.empty,
      rp_nextToken = 1, rp_lastObservedNow = NegInf, rp_reads = 0, rp_uuids = 0, rp_expiredLog = []\<rparr>"

definition new_policy ::
  "policy_env \<Rightarrow> jsnum option list \<Rightarrow> jsnum option list \<Rightarrow> policy_exn + 'v policy" where
  "new_policy env queueAliases activeAliases =
     (case resolveQueueCapacity queueAliases of
        Inl x \<Rightarrow> Inl x
      | Inr queueCapacity \<Rightarrow>
          (case resolveActiveCapacity activeAliases queueCapacity of
             Inl x \<Rightarrow> Inl x
           | Inr activeCapacity \<Rightarrow>
               (case validateRetryAfterMs (re_retryAfterMs env) of
                  Inl x \<Rightarrow> Inl x
                | Inr _ \<Rightarrow>
                    (case readMonotonicNow env None (empty_policy queueCapacity activeCapacity) of
                       (Inl x, _) \<Rightarrow> Inl x
                     | (Inr _, s) \<Rightarrow> Inr s))))"

text \<open>Reading and changing a record of the heap.\<close>

definition load :: "nat \<Rightarrow> ('v, 'v queue_record option) policy_exec" where
  "load t = getE (\<lambda>s. rp_heap s t)"

definition alter :: "nat \<Rightarrow> ('v queue_record \<Rightarrow> 'v queue_record) \<Rightarrow> ('v, unit) policy_exec" where
  "alter t f = modE (\<lambda>s. s\<lparr>rp_heap := (rp_heap s)(t := map_option f (rp_heap s t))\<rparr>)"

definition runnable_now :: "policy_env \<Rightarrow> 'v queue_record \<Rightarrow> rat \<Rightarrow> ('v, bool) policy_exec" where
  "runnable_now env r now =
     getE (\<lambda>s. isRunnableRecord r (re_view env (en_ref (qr_entry r)) (rp_reads s)) now)"

definition cancellation_seen :: "policy_env \<Rightarrow> 'v queue_record \<Rightarrow> ('v, bool) policy_exec" where
  "cancellation_seen env r =
     getE (\<lambda>s. isEntryCancellationRequested (re_view env (en_ref (qr_entry r)) (rp_reads s)))"

text \<open>
  A fresh handle: UUIDs are drawn until one is not in use.  \<open>None\<close> is a loop that does not end, because every
  further UUID is in use.
\<close>

partial_function (option) draw_handle :: "policy_env \<Rightarrow> (string \<rightharpoonup> nat) \<Rightarrow> nat \<Rightarrow> (string \<times> nat) option" where
  "draw_handle env used i =
     (let handle = ''queue:'' @ re_uuid env i
      in if used handle \<noteq> None then draw_handle env used (Suc i) else Some (handle, Suc i))"

declare draw_handle.simps [code]

lemma draw_handle_first:
  "used (''queue:'' @ re_uuid env i) = None \<Longrightarrow> draw_handle env used i = Some (''queue:'' @ re_uuid env i, Suc i)"
  by (simp add: draw_handle.simps [of env used i])

definition empty_id :: "string option \<Rightarrow> bool" where
  "empty_id v \<longleftrightarrow> v = Some []"

definition createRecord :: "policy_env \<Rightarrow> 'v queue_entry \<Rightarrow> ('v, 'v queue_record) policy_exec" where
  "createRecord env entry =
     (if empty_id (en_id entry) \<or> empty_id (en_requestId entry)
      then throw (Pol (TypeErrorExn ''queue entry id and requestId must be non-empty strings when provided''))
      else bindE (getE (\<lambda>s. draw_handle env (rp_handles s) (rp_uuids s)))
        (\<lambda>drawn. case drawn of
            None \<Rightarrow> throw Diverges
          | Some (handle, i) \<Rightarrow>
              thenE (modE (\<lambda>s. s\<lparr>rp_uuids := i\<rparr>))
             (bindE (getE rp_nextToken)
             (\<lambda>token. thenE (modE (\<lambda>s. s\<lparr>rp_nextToken := Suc token\<rparr>))
               (case resolveDeadline env (en_expiresAt entry) of
                  Inl x \<Rightarrow> throw x
                | Inr deadline \<Rightarrow>
                    ret \<lparr>qr_token = token, qr_handle = handle, qr_entry = entry,
                      qr_deadline = deadline, qr_status = RS_candidate, qr_expired = False,
                      qr_expiryNotified = False, qr_cancellationRequested = False,
                      qr_lease = False\<rparr>)))))"

text \<open>An index maps a key to the set of records that carry it; the empty set is removed.\<close>

definition index_add :: "'k option \<Rightarrow> nat \<Rightarrow> ('k \<rightharpoonup> nat list) \<Rightarrow> ('k \<rightharpoonup> nat list)" where
  "index_add key t m =
     (case key of
        None \<Rightarrow> m
      | Some k \<Rightarrow> m(k \<mapsto> (case m k of
            None \<Rightarrow> [t] | Some ts \<Rightarrow> if t \<in> set ts then ts else ts @ [t])))"

definition index_delete :: "'k option \<Rightarrow> nat \<Rightarrow> ('k \<rightharpoonup> nat list) \<Rightarrow> ('k \<rightharpoonup> nat list)" where
  "index_delete key t m =
     (case key of
        None \<Rightarrow> m
      | Some k \<Rightarrow> (case m k of
            None \<Rightarrow> m
          | Some ts \<Rightarrow> (let rest = filter (\<lambda>u. u \<noteq> t) ts
              in m(k := (if rest = [] then None else Some rest)))))"

definition registerRecord :: "'v queue_record \<Rightarrow> ('v, unit) policy_exec" where
  "registerRecord r = modE (\<lambda>s. s\<lparr>
     rp_heap := (rp_heap s)(qr_token r \<mapsto> r),
     rp_handles := (rp_handles s)(qr_handle r \<mapsto> qr_token r),
     rp_entries := index_add (Some (en_ref (qr_entry r))) (qr_token r) (rp_entries s),
     rp_entryIds := index_add (en_id (qr_entry r)) (qr_token r) (rp_entryIds s),
     rp_requestIds := index_add (en_requestId (qr_entry r)) (qr_token r) (rp_requestIds s)\<rparr>)"

definition removed :: "nat \<Rightarrow> 'v queue_record \<Rightarrow> 'v policy \<Rightarrow> 'v policy" where
  "removed t r s = s\<lparr>
     rp_active := (if t \<in> set (rp_active s) then filter (\<lambda>u. u \<noteq> t) (rp_active s) else rp_active s),
     rp_queue := (if t \<in> set (rp_active s) then rp_queue s else remove1 t (rp_queue s)),
     rp_handles := (if rp_handles s (qr_handle r) = Some t
       then (rp_handles s)(qr_handle r := None) else rp_handles s),
     rp_entries := index_delete (Some (en_ref (qr_entry r))) t (rp_entries s),
     rp_entryIds := index_delete (en_id (qr_entry r)) t (rp_entryIds s),
     rp_requestIds := index_delete (en_requestId (qr_entry r)) t (rp_requestIds s),
     rp_heap := (rp_heap s)(t \<mapsto> r\<lparr>qr_lease := False, qr_status := RS_released\<rparr>)\<rparr>"

definition removeRecord :: "nat \<Rightarrow> ('v, unit) policy_exec" where
  "removeRecord t = modE (\<lambda>s. case rp_heap s t of None \<Rightarrow> s | Some r \<Rightarrow> removed t r s)"

definition markExpired :: "nat \<Rightarrow> ('v, unit) policy_exec" where
  "markExpired t = modE (\<lambda>s. case rp_heap s t of
       None \<Rightarrow> s
     | Some r \<Rightarrow>
         if qr_expiryNotified r then s\<lparr>rp_heap := (rp_heap s)(t \<mapsto> r\<lparr>qr_expired := True\<rparr>)\<rparr>
         else s\<lparr>rp_heap := (rp_heap s)(t \<mapsto> r\<lparr>qr_expired := True, qr_expiryNotified := True\<rparr>),
                rp_expiredLog := rp_expiredLog s @ [t]\<rparr>)"

section \<open>Operations\<close>

definition expire_queued :: "policy_env \<Rightarrow> rat \<Rightarrow> nat \<Rightarrow> ('v, 'v queue_entry list) policy_exec" where
  "expire_queued env now t = bindE (load t)
     (\<lambda>found. case found of
         None \<Rightarrow> ret []
       | Some r \<Rightarrow>
           (if qr_deadline r \<le> now
            then thenE (removeRecord t) (thenE (markExpired t) (ret [qr_entry r]))
            else bindE (runnable_now env r now)
              (\<lambda>ok. if ok then ret [] else thenE (removeRecord t) (ret []))))"

definition expire_active :: "rat \<Rightarrow> nat \<Rightarrow> ('v, 'v queue_entry list) policy_exec" where
  "expire_active now t = bindE (load t)
     (\<lambda>found. case found of
         None \<Rightarrow> ret []
       | Some r \<Rightarrow>
           (if qr_deadline r \<le> now \<and> \<not> qr_expired r
            then thenE (markExpired t) (ret [qr_entry r]) else ret []))"

definition expire_at :: "policy_env \<Rightarrow> rat \<Rightarrow> ('v, 'v queue_entry list) policy_exec" where
  "expire_at env now = bindE (getE rp_queue)
     (\<lambda>queue. bindE (forE (rev queue) (expire_queued env now))
     (\<lambda>from_queue. bindE (getE rp_active)
     (\<lambda>active. bindE (forE active (expire_active now))
     (\<lambda>from_active. ret (concat from_queue @ concat from_active)))))"

definition expire :: "policy_env \<Rightarrow> jsnum option \<Rightarrow> ('v, 'v queue_entry list) policy_exec" where
  "expire env now = bindE (readMonotonicNow env now) (expire_at env)"

text \<open>\<open>expire(now)\<close> with a time that was already resolved reads no clock, but resolves it again.\<close>

definition expire_resolved :: "policy_env \<Rightarrow> rat \<Rightarrow> ('v, 'v queue_entry list) policy_exec" where
  "expire_resolved env now = expire env (Some (Fin now))"

definition busyDecision :: "policy_env \<Rightarrow> ('v, 'v admission) policy_exec" where
  "busyDecision env = getE (\<lambda>s. Busy
     \<lparr>pe_code = EC_busy, pe_message = boundedMessage (js ''Routing capacity is temporarily unavailable''),
      pe_retryable = isRetryableErrorCode EC_busy, pe_retryAfterMs = re_retryAfterMs env,
      pe_details = boundedDetails count_len (Some (Object
        [(js ''capacity'', Number (Fin (of_nat (rp_queueCapacity s)))),
         (js ''queueCapacity'', Number (Fin (of_nat (rp_queueCapacity s)))),
         (js ''activeCapacity'', Number (Fin (of_nat (rp_activeCapacity s)))),
         (js ''queued'', Number (Fin (of_nat (length (rp_queue s))))),
         (js ''active'', Number (Fin (of_nat (length (rp_active s)))))]))\<rparr>)"

definition admissionDecisionFor :: "'v queue_record \<Rightarrow> jsnum \<Rightarrow> 'v admission" where
  "admissionDecisionFor r now =
     (if qr_expired r \<or> Fin (qr_deadline r) \<le> now
      then Expired_admission (protocol_error EC_expired ''Queue entry has expired'' None)
      else Cancelled_admission (protocol_error EC_cancelled ''Queue entry is not runnable'' None))"

definition lease_of :: "'v queue_record \<Rightarrow> 'v queue_lease" where
  "lease_of r = \<lparr>ql_handle = qr_handle r, ql_requestId = en_requestId (qr_entry r),
     ql_value = en_value (qr_entry r), ql_entry = qr_entry r, ql_expiresAt = qr_deadline r\<rparr>"

definition claimRecord :: "policy_env \<Rightarrow> nat \<Rightarrow> ('v, 'v queue_lease option) policy_exec" where
  "claimRecord env t = bindE (load t)
     (\<lambda>found. case found of
         None \<Rightarrow> ret None
       | Some r \<Rightarrow> bindE (getE (\<lambda>s. length (rp_active s) \<ge> rp_activeCapacity s))
           (\<lambda>full. if full then ret None
              else bindE (readMonotonicNow env None) (\<lambda>now. bindE (runnable_now env r now)
           (\<lambda>ok. if \<not> ok then ret None
              else bindE (readMonotonicNow env None) (\<lambda>now. bindE (runnable_now env r now)
           (\<lambda>ok. if \<not> ok then ret None
              else bindE (getE (\<lambda>s. length (rp_active s) \<ge> rp_activeCapacity s))
           (\<lambda>full. if full then ret None
              else thenE (modE (\<lambda>s. s\<lparr>rp_active := rp_active s @ [t]\<rparr>))
                (thenE (alter t (\<lambda>r. r\<lparr>qr_status := RS_active, qr_lease := True\<rparr>))
                (ret (Some (lease_of r)))))))))))"

definition admit_now ::
  "policy_env \<Rightarrow> 'v queue_record \<Rightarrow> ('v, 'v admission) policy_exec" where
  "admit_now env r = bindE (getE (\<lambda>s. length (rp_active s) \<ge> rp_activeCapacity s))
     (\<lambda>full. if full then busyDecision env
        else thenE (registerRecord r) (bindE (claimRecord env (qr_token r))
       (\<lambda>lease. case lease of
           Some l \<Rightarrow> ret (Accepted l)
         | None \<Rightarrow> bindE (getE rp_lastObservedNow)
             (\<lambda>observedNow. thenE (removeRecord (qr_token r))
               (ret (admissionDecisionFor r observedNow))))))"

definition admit_queued ::
  "policy_env \<Rightarrow> 'v queue_record \<Rightarrow> ('v, 'v admission) policy_exec" where
  "admit_queued env r = bindE (readMonotonicNow env None)
     (\<lambda>queueNow. thenE (expire_resolved env queueNow) (bindE (runnable_now env r queueNow)
     (\<lambda>ok. if \<not> ok then ret (admissionDecisionFor r (Fin queueNow))
        else bindE (getE (\<lambda>s. length (rp_queue s) \<ge> rp_queueCapacity s))
     (\<lambda>full. if full then busyDecision env
        else thenE (registerRecord r)
          (thenE (alter (qr_token r) (\<lambda>r. r\<lparr>qr_status := RS_queued\<rparr>))
          (thenE (modE (\<lambda>s. s\<lparr>rp_queue := rp_queue s @ [qr_token r]\<rparr>))
          (bindE (getE (\<lambda>s. length (rp_queue s)))
          (\<lambda>position. ret (Queued (qr_entry r) (qr_handle r) position)))))))))"

definition admit ::
  "policy_env \<Rightarrow> 'v queue_entry \<Rightarrow> bool \<Rightarrow> jsnum option \<Rightarrow> ('v, 'v admission) policy_exec" where
  "admit env entry startImmediately requestedNow =
     bindE (readMonotonicNow env requestedNow)
     (\<lambda>now. thenE (expire_resolved env now) (bindE (createRecord env entry)
     (\<lambda>r. bindE (runnable_now env r now)
     (\<lambda>ok. if \<not> ok then ret (admissionDecisionFor r (Fin now))
        else if startImmediately then admit_now env r else admit_queued env r))))"

text \<open>The loop of \<open>dequeue\<close>; every turn removes the head of the queue.\<close>

fun dequeue_loop :: "policy_env \<Rightarrow> nat \<Rightarrow> ('v, 'v queue_lease option) policy_exec" where
  "dequeue_loop env 0 = ret None"
| "dequeue_loop env (Suc fuel) = bindE (getE rp_queue)
     (\<lambda>queue. case queue of
         [] \<Rightarrow> ret None
       | t # rest \<Rightarrow>
           thenE (modE (\<lambda>s. s\<lparr>rp_queue := rest\<rparr>)) (bindE (claimRecord env t)
          (\<lambda>lease. case lease of
              Some l \<Rightarrow> ret (Some l)
            | None \<Rightarrow> bindE (getE (\<lambda>s. length (rp_active s) \<ge> rp_activeCapacity s))
                (\<lambda>full. if full
                   then thenE (modE (\<lambda>s. s\<lparr>rp_queue := t # rp_queue s\<rparr>)) (ret None)
                   else bindE (getE (\<lambda>s. case rp_heap s t of
                       None \<Rightarrow> False
                     | Some r \<Rightarrow> Fin (qr_deadline r) \<le> rp_lastObservedNow s \<or> qr_expired r))
                  (\<lambda>late. thenE (whenE late (markExpired t))
                    (thenE (removeRecord t) (dequeue_loop env fuel)))))))"

definition dequeue :: "policy_env \<Rightarrow> jsnum option \<Rightarrow> ('v, 'v queue_lease option) policy_exec" where
  "dequeue env now = bindE (readMonotonicNow env now)
     (\<lambda>resolvedNow. thenE (expire_resolved env resolvedNow)
     (bindE (getE (\<lambda>s. length (rp_active s) \<ge> rp_activeCapacity s))
     (\<lambda>full. if full then ret None
        else bindE (getE (\<lambda>s. length (rp_queue s))) (\<lambda>n. dequeue_loop env (Suc n)))))"

section \<open>Lookup\<close>

definition entry_request :: "'v policy \<Rightarrow> nat \<Rightarrow> string option" where
  "entry_request s t = (case rp_heap s t of None \<Rightarrow> None | Some r \<Rightarrow> en_requestId (qr_entry r))"

definition lookupEntryRecords :: "'v policy \<Rightarrow> nat list \<Rightarrow> string option \<Rightarrow> lookup" where
  "lookupEntryRecords s ts requestId =
     (let candidates = (case requestId of
          None \<Rightarrow> ts
        | Some _ \<Rightarrow> filter (\<lambda>t. entry_request s t = requestId) ts)
      in case candidates of [] \<Rightarrow> Not_found | [t] \<Rightarrow> Found t | _ \<Rightarrow> Ambiguous)"

definition lookup_handle :: "'v policy \<Rightarrow> string \<Rightarrow> string option \<Rightarrow> lookup" where
  "lookup_handle s handle requestId =
     (case rp_handles s handle of
        None \<Rightarrow> Not_found
      | Some t \<Rightarrow>
          if requestId \<noteq> None \<and> entry_request s t \<noteq> requestId then Not_found else Found t)"

definition findRecord :: "'v policy \<Rightarrow> queue_target \<Rightarrow> string option \<Rightarrow> lookup" where
  "findRecord s target requestId =
     (let found =
        (case target of
           By_string k \<Rightarrow>
             (case rp_handles s k of
                Some t \<Rightarrow> Found t
              | None \<Rightarrow>
                  (case (case rp_entryIds s k of Some ts \<Rightarrow> Some ts | None \<Rightarrow> rp_requestIds s k) of
                     None \<Rightarrow> Not_found
                   | Some ts \<Rightarrow> lookupEntryRecords s ts requestId))
         | By_lease t handle leaseRequestId \<Rightarrow>
             (case rp_heap s t of
                Some r \<Rightarrow> if qr_lease r then Found t else lookup_handle s handle leaseRequestId
              | None \<Rightarrow> lookup_handle s handle leaseRequestId)
         | By_entry ref \<Rightarrow>
             (case rp_entries s ref of
                Some ts \<Rightarrow> lookupEntryRecords s ts requestId
              | None \<Rightarrow> Not_found)
         | By_reference handle refRequestId \<Rightarrow> lookup_handle s handle refRequestId)
      in case found of
           Found t \<Rightarrow>
             if requestId \<noteq> None \<and> entry_request s t \<noteq> requestId then Not_found else Found t
         | _ \<Rightarrow> found)"

section \<open>Release and cancellation\<close>

definition release :: "queue_target \<Rightarrow> string option \<Rightarrow> ('v, bool) policy_exec" where
  "release target requestId = bindE (getE (\<lambda>s. findRecord s target requestId))
     (\<lambda>found. case found of
         Found t \<Rightarrow> bindE (load t)
           (\<lambda>r. case r of
               None \<Rightarrow> ret False
             | Some r \<Rightarrow>
                 (if qr_status r \<noteq> RS_active \<and> qr_status r \<noteq> RS_queued then ret False
                  else thenE (removeRecord t) (ret True)))
       | _ \<Rightarrow> ret False)"

definition cancel_queued :: "nat \<Rightarrow> 'v queue_record \<Rightarrow> ('v, 'v cancellation) policy_exec" where
  "cancel_queued t r =
     thenE (alter t (\<lambda>r. r\<lparr>qr_cancellationRequested := True, qr_status := RS_cancelled\<rparr>))
    (thenE (removeRecord t) (ret (Cancelled_record (qr_entry r) (qr_handle r))))"

definition cancel_active ::
  "policy_env \<Rightarrow> nat \<Rightarrow> 'v queue_record \<Rightarrow> ('v, 'v cancellation) policy_exec" where
  "cancel_active env t r = bindE (readMonotonicNow env None)
     (\<lambda>now. if qr_deadline r \<le> now
        then thenE (markExpired t) (ret (Expired_record (qr_entry r) (qr_handle r)))
        else bindE (cancellation_seen env r)
       (\<lambda>seen. if qr_cancellationRequested r \<or> seen
          then thenE (alter t (\<lambda>r. r\<lparr>qr_cancellationRequested := True\<rparr>))
            (ret (Cancelling_record (qr_entry r) (qr_handle r)))
          else bindE (getE (\<lambda>s. ev_state (re_view env (en_ref (qr_entry r)) (rp_reads s))))
         (\<lambda>state. if isTerminalOrAbortedState state
            then ret (Not_cancelable_record (qr_entry r) (qr_handle r))
            else thenE (alter t (\<lambda>r. r\<lparr>qr_cancellationRequested := True\<rparr>))
              (ret (Cancelling_record (qr_entry r) (qr_handle r))))))"

definition cancel_waiting ::
  "policy_env \<Rightarrow> nat \<Rightarrow> 'v queue_record \<Rightarrow> ('v, 'v cancellation) policy_exec" where
  "cancel_waiting env t r = bindE (cancellation_seen env r)
     (\<lambda>seen. if seen then cancel_queued t r
        else bindE (readMonotonicNow env None)
       (\<lambda>now. if qr_deadline r \<le> now
          then thenE (removeRecord t) (thenE (markExpired t)
            (ret (Expired_record (qr_entry r) (qr_handle r))))
          else bindE (runnable_now env r now)
         (\<lambda>ok. if \<not> ok
            then bindE (cancellation_seen env r)
              (\<lambda>seen. if seen then cancel_queued t r
                 else thenE (removeRecord t) (ret (Not_cancelable_record (qr_entry r) (qr_handle r))))
            else cancel_queued t r)))"

definition cancelRecord :: "policy_env \<Rightarrow> nat \<Rightarrow> ('v, 'v cancellation) policy_exec" where
  "cancelRecord env t = bindE (load t)
     (\<lambda>found. case found of
         None \<Rightarrow> ret Not_found_record
       | Some r \<Rightarrow> bindE (readMonotonicNow env None)
           (\<lambda>now. if qr_expired r \<or> qr_deadline r \<le> now
              then thenE (whenE (qr_status r \<noteq> RS_active) (removeRecord t))
                (thenE (markExpired t) (ret (Expired_record (qr_entry r) (qr_handle r))))
              else if qr_status r = RS_active then cancel_active env t r
              else if qr_status r \<noteq> RS_queued then ret (Not_cancelable_record (qr_entry r) (qr_handle r))
              else cancel_waiting env t r))"

definition cancel :: "policy_env \<Rightarrow> queue_target \<Rightarrow> string option \<Rightarrow> ('v, 'v cancellation) policy_exec" where
  "cancel env target requestId = bindE (getE (\<lambda>s. findRecord s target requestId))
     (\<lambda>found. case found of
         Not_found \<Rightarrow> ret Not_found_record
       | Ambiguous \<Rightarrow> ret Ambiguous_record
       | Found t \<Rightarrow> cancelRecord env t)"

definition cancelByRequestId :: "policy_env \<Rightarrow> string \<Rightarrow> ('v, 'v cancellation) policy_exec" where
  "cancelByRequestId env requestId = bindE (getE (\<lambda>s. rp_requestIds s requestId))
     (\<lambda>found. case found of
         Some [t] \<Rightarrow> cancelRecord env t
       | Some (_ # _) \<Rightarrow> ret Ambiguous_record
       | _ \<Rightarrow> ret Not_found_record)"

definition isRunnable :: "policy_env \<Rightarrow> queue_target \<Rightarrow> jsnum option \<Rightarrow> ('v, bool) policy_exec" where
  "isRunnable env target now = bindE (readMonotonicNow env now)
     (\<lambda>resolvedNow. thenE (expire_resolved env resolvedNow)
     (bindE (getE (\<lambda>s. findRecord s target None))
     (\<lambda>found. case found of
         Found t \<Rightarrow> bindE (load t)
           (\<lambda>r. case r of
               None \<Rightarrow> ret False
             | Some r \<Rightarrow> bindE (getE (\<lambda>s. fin_val (rp_lastObservedNow s))) (runnable_now env r))
       | _ \<Rightarrow> ret False)))"

definition peek :: "policy_env \<Rightarrow> jsnum option \<Rightarrow> ('v, 'v queue_entry option) policy_exec" where
  "peek env now = bindE (readMonotonicNow env now)
     (\<lambda>resolvedNow. thenE (expire_resolved env resolvedNow)
     (getE (\<lambda>s. case rp_queue s of
         [] \<Rightarrow> None
       | t # _ \<Rightarrow> map_option qr_entry (rp_heap s t))))"

end
