(* ===== verification/Routing_Invariant.thy ===== *)
theory Routing_Invariant
  imports Routing_Policy
begin

text \<open>
  The invariant of the routing policy: queue and active set are disjoint, duplicate free and
  within their capacities, a record is in exactly the list its status names, every index holds
  exactly the retained records, and every record is reported as expired at most once.
\<close>

section \<open>Invariant\<close>

definition members :: "('k \<rightharpoonup> nat list) \<Rightarrow> 'k \<Rightarrow> nat set" where
  "members m k = (case m k of None \<Rightarrow> {} | Some ts \<Rightarrow> set ts)"

definition tidy :: "('k \<rightharpoonup> nat list) \<Rightarrow> bool" where
  "tidy m \<longleftrightarrow> (\<forall>k ts. m k = Some ts \<longrightarrow> ts \<noteq> [] \<and> distinct ts)"

lemma members_add: "members (index_add key t m) k = (if key = Some k then insert t (members m k) else members m k)"
  by (auto simp: members_def index_add_def split: option.splits)

lemma members_delete: "members (index_delete key t m) k = (if key = Some k then members m k - {t} else members m k)"
  by (auto simp: members_def index_delete_def Let_def filter_empty_conv split: option.splits)

lemma tidy_add: "tidy m \<Longrightarrow> tidy (index_add key t m)"
  by (auto simp: tidy_def index_add_def split: option.splits if_splits)

lemma tidy_delete: "tidy m \<Longrightarrow> tidy (index_delete key t m)"
  by (auto simp: tidy_def index_delete_def Let_def split: option.splits if_splits)

text \<open>An index holds, under each key, exactly the registered records that carry it.\<close>

definition indexed :: "('v queue_record \<Rightarrow> 'k option) \<Rightarrow> ('k \<rightharpoonup> nat list) \<Rightarrow> nat set \<Rightarrow> (nat \<rightharpoonup> 'v queue_record) \<Rightarrow> bool" where
  "indexed key m R heap \<longleftrightarrow> tidy m \<and> (\<forall>k. members m k = {t \<in> R. \<exists>r. heap t = Some r \<and> key r = Some k})"

text \<open>The invariant, while the records \<open>X\<close> are registered but neither queued nor active.\<close>

definition registered :: "nat set \<Rightarrow> 'v policy \<Rightarrow> nat set" where
  "registered X s = set (rp_queue s) \<union> set (rp_active s) \<union> X"

definition lists_ok :: "nat set \<Rightarrow> 'v policy \<Rightarrow> bool" where
  "lists_ok X s \<longleftrightarrow> distinct (rp_queue s) \<and> distinct (rp_active s) \<and>
     set (rp_queue s) \<inter> set (rp_active s) = {} \<and> X \<inter> (set (rp_queue s) \<union> set (rp_active s)) = {} \<and>
     length (rp_queue s) \<le> rp_queueCapacity s \<and> length (rp_active s) \<le> rp_activeCapacity s"

definition heap_ok :: "nat set \<Rightarrow> 'v policy \<Rightarrow> bool" where
  "heap_ok X s \<longleftrightarrow> (\<forall>t \<in> registered X s. rp_heap s t \<noteq> None) \<and>
     (\<forall>t r. rp_heap s t = Some r \<longrightarrow> t < rp_nextToken s \<and> qr_token r = t \<and>
        (qr_lease r \<longleftrightarrow> t \<in> set (rp_active s)) \<and> (qr_status r = RS_active \<longleftrightarrow> t \<in> set (rp_active s)) \<and>
        (qr_status r = RS_released \<longleftrightarrow> t \<notin> registered X s) \<and>
        (t \<in> set (rp_queue s) \<longrightarrow> qr_status r = RS_queued \<and> \<not> qr_expired r \<and> \<not> qr_cancellationRequested r))"

definition indexes_ok :: "nat set \<Rightarrow> 'v policy \<Rightarrow> bool" where
  "indexes_ok R s \<longleftrightarrow>
     (\<forall>h t. rp_handles s h = Some t \<longleftrightarrow> t \<in> R \<and> (\<exists>r. rp_heap s t = Some r \<and> qr_handle r = h)) \<and>
     indexed (\<lambda>r. Some (en_ref (qr_entry r))) (rp_entries s) R (rp_heap s) \<and>
     indexed (\<lambda>r. en_id (qr_entry r)) (rp_entryIds s) R (rp_heap s) \<and>
     indexed (\<lambda>r. en_requestId (qr_entry r)) (rp_requestIds s) R (rp_heap s)"

definition log_ok :: "'v policy \<Rightarrow> bool" where
  "log_ok s \<longleftrightarrow> distinct (rp_expiredLog s) \<and>
     (\<forall>t. t \<in> set (rp_expiredLog s) \<longleftrightarrow> (\<exists>r. rp_heap s t = Some r \<and> qr_expiryNotified r))"

definition policy_inv :: "nat set \<Rightarrow> 'v policy \<Rightarrow> bool" where
  "policy_inv X s \<longleftrightarrow> lists_ok X s \<and> heap_ok X s \<and> indexes_ok (registered X s) s \<and> log_ok s"

lemmas policy_inv_defs = policy_inv_def lists_ok_def heap_ok_def indexes_ok_def log_ok_def registered_def

text \<open>Replacing a record by one with the same identity keeps the indexes.\<close>

definition same_identity :: "'v queue_record \<Rightarrow> 'v queue_record \<Rightarrow> bool" where
  "same_identity r r' \<longleftrightarrow> qr_token r' = qr_token r \<and> qr_handle r' = qr_handle r \<and>
     qr_entry r' = qr_entry r \<and> qr_deadline r' = qr_deadline r"

lemma indexed_heap_update:
  "heap t = Some r \<Longrightarrow> key r' = key r \<Longrightarrow> indexed key m R (heap(t \<mapsto> r')) = indexed key m R heap"
  unfolding indexed_def by (intro arg_cong2 [of _ _ _ _ "(\<and>)"] refl all_cong1 arg_cong2 [of _ _ _ _ "(=)"]) auto

lemma indexes_ok_heap_update:
  assumes "rp_heap s t = Some r" and "same_identity r r'" and "rp_heap s' = (rp_heap s)(t \<mapsto> r')"
    and "rp_handles s' = rp_handles s" and "rp_entries s' = rp_entries s"
    and "rp_entryIds s' = rp_entryIds s" and "rp_requestIds s' = rp_requestIds s"
  shows "indexes_ok R s' = indexes_ok R s"
proof -
  have "(\<exists>x. ((rp_heap s)(t \<mapsto> r')) u = Some x \<and> qr_handle x = h) = (\<exists>x. rp_heap s u = Some x \<and> qr_handle x = h)" for u h
    using assms(1,2) by (simp add: same_identity_def)
  then show ?thesis
    using assms(2-) by (simp add: indexes_ok_def same_identity_def
      indexed_heap_update [where heap = "rp_heap s" and t = t and r = r and r' = r', OF assms(1)])
qed

text \<open>Steps that change neither heap, lists nor indexes.\<close>

lemma policy_inv_frame:
  assumes "rp_heap t = rp_heap s" "rp_queue t = rp_queue s" "rp_active t = rp_active s"
    "rp_handles t = rp_handles s" "rp_entries t = rp_entries s" "rp_entryIds t = rp_entryIds s"
    "rp_requestIds t = rp_requestIds s" "rp_expiredLog t = rp_expiredLog s"
    "rp_queueCapacity t = rp_queueCapacity s" "rp_activeCapacity t = rp_activeCapacity s"
    "rp_nextToken s \<le> rp_nextToken t"
  shows "policy_inv X s \<Longrightarrow> policy_inv X t"
proof -
  assume inv: "policy_inv X s"
  then have "u < rp_nextToken t" if "rp_heap s u = Some r" for u r
    using that assms(11) by (auto simp: policy_inv_def heap_ok_def dest: less_le_trans)
  then have "heap_ok X t"
    using inv assms(1-10) by (simp add: policy_inv_def heap_ok_def registered_def)
  then show ?thesis
    using inv assms(1-10) by (simp add: policy_inv_def lists_ok_def indexes_ok_def log_ok_def registered_def)
qed

lemma policy_inv_markExpired:
  assumes "policy_inv X s" and "t \<notin> set (rp_queue s)"
  shows "policy_inv X (snd (markExpired t s))"
proof (cases "rp_heap s t")
  case None
  then show ?thesis using assms by (simp add: markExpired_def exec_simps)
next
  case (Some r)
  let ?r = "r\<lparr>qr_expired := True, qr_expiryNotified := True\<rparr>"
  have same: "same_identity r ?r" "same_identity r (r\<lparr>qr_expired := True\<rparr>)" by (simp_all add: same_identity_def)
  let ?s = "snd (markExpired t s)"
  have heap: "rp_heap ?s = (rp_heap s)(t \<mapsto> ?r)"
    using Some by (cases r) (simp add: markExpired_def exec_simps)
  have fields: "rp_queue ?s = rp_queue s" "rp_active ?s = rp_active s" "rp_handles ?s = rp_handles s"
    "rp_entries ?s = rp_entries s" "rp_entryIds ?s = rp_entryIds s" "rp_requestIds ?s = rp_requestIds s"
    "rp_queueCapacity ?s = rp_queueCapacity s" "rp_activeCapacity ?s = rp_activeCapacity s"
    "rp_nextToken ?s = rp_nextToken s"
    "rp_expiredLog ?s = rp_expiredLog s @ (if qr_expiryNotified r then [] else [t])"
    using Some by (simp_all add: markExpired_def exec_simps)
  have "indexes_ok (registered X s) ?s"
    using assms(1) indexes_ok_heap_update [OF Some same(1) heap] fields by (simp add: policy_inv_def)
  moreover have "registered X ?s = registered X s" by (simp add: registered_def fields)
  moreover have "lists_ok X ?s" using assms(1) by (simp add: policy_inv_def lists_ok_def fields)
  moreover have "heap_ok X ?s"
    using assms Some by (auto simp: policy_inv_def heap_ok_def fields heap registered_def)
  moreover have "log_ok ?s"
    using assms(1) Some by (auto simp: policy_inv_def log_ok_def fields heap)
  ultimately show ?thesis by (simp add: policy_inv_def)
qed

lemma indexed_delete:
  assumes "indexed key m R heap" and "heap t = Some r"
  shows "indexed key (index_delete (key r) t m) (R - {t}) (heap(t \<mapsto> r'))"
proof -
  have m: "members m k = {u \<in> R. \<exists>r. heap u = Some r \<and> key r = Some k}" for k
    using assms(1) by (simp add: indexed_def)
  have "members (index_delete (key r) t m) k = {u \<in> R - {t}. \<exists>x. (heap(t \<mapsto> r')) u = Some x \<and> key x = Some k}" for k
    unfolding members_delete m using assms(2) by auto
  then show ?thesis using assms(1) by (simp add: indexed_def tidy_delete)
qed

lemma indexed_add:
  assumes "indexed key m R heap" and "t \<notin> R"
  shows "indexed key (index_add (key r) t m) (insert t R) (heap(t \<mapsto> r))"
proof -
  have m: "members m k = {u \<in> R. \<exists>r. heap u = Some r \<and> key r = Some k}" for k
    using assms(1) by (simp add: indexed_def)
  have "members (index_add (key r) t m) k = {u \<in> insert t R. \<exists>x. (heap(t \<mapsto> r)) u = Some x \<and> key x = Some k}" for k
    unfolding members_add m using assms(2) by auto
  then show ?thesis using assms(1) by (simp add: indexed_def tidy_add)
qed

lemma removed_lists:
  assumes "policy_inv X s"
  shows "set (rp_queue (removed t r s)) = set (rp_queue s) - {t}"
    and "set (rp_active (removed t r s)) = set (rp_active s) - {t}"
    and "registered (X - {t}) (removed t r s) = registered X s - {t}"
  using assms by (auto simp: removed_def policy_inv_def lists_ok_def registered_def set_remove1_eq)

lemma removed_indexes:
  assumes "indexes_ok R s" and "rp_heap s t = Some r"
  shows "indexes_ok (R - {t}) (removed t r s)"
proof -
  have h: "rp_handles s h = Some u \<longleftrightarrow> u \<in> R \<and> (\<exists>r. rp_heap s u = Some r \<and> qr_handle r = h)" for h u
    using assms(1) by (simp add: indexes_ok_def)
  have "rp_handles (removed t r s) h = Some u \<longleftrightarrow>
      u \<in> R - {t} \<and> (\<exists>x. rp_heap (removed t r s) u = Some x \<and> qr_handle x = h)" for h u
    using h [of "qr_handle r" t] h [of h u] assms(2) by (auto simp: removed_def)
  then show ?thesis
    using assms indexed_delete [where heap = "rp_heap s" and t = t and r = r and key = "\<lambda>r. Some (en_ref (qr_entry r))"]
      indexed_delete [where heap = "rp_heap s" and t = t and r = r and key = "\<lambda>r. en_id (qr_entry r)"]
      indexed_delete [where heap = "rp_heap s" and t = t and r = r and key = "\<lambda>r. en_requestId (qr_entry r)"]
    by (simp add: indexes_ok_def removed_def)
qed

lemma policy_inv_removed:
  assumes inv: "policy_inv X s" and r: "rp_heap s t = Some r"
  shows "policy_inv (X - {t}) (removed t r s)"
proof -
  note lists = removed_lists [OF inv, of t r]
  have "lists_ok (X - {t}) (removed t r s)"
  proof -
    let ?s = "removed t r s"
    have old: "lists_ok X s" using inv by (simp add: policy_inv_def)
    have "distinct (rp_queue ?s)" "distinct (rp_active ?s)"
      using old by (simp_all add: lists_ok_def removed_def)
    moreover have "length (rp_queue ?s) \<le> length (rp_queue s)"
      by (simp add: removed_def length_remove1)
    moreover have "length (rp_active ?s) \<le> length (rp_active s)" by (simp add: removed_def)
    moreover have "rp_queueCapacity ?s = rp_queueCapacity s" "rp_activeCapacity ?s = rp_activeCapacity s"
      by (simp_all add: removed_def)
    ultimately show ?thesis using old unfolding lists_ok_def lists by auto
  qed
  moreover have "heap_ok (X - {t}) (removed t r s)"
  proof -
    have heap: "rp_heap (removed t r s) = (rp_heap s)(t \<mapsto> r\<lparr>qr_lease := False, qr_status := RS_released\<rparr>)"
      and next_token: "rp_nextToken (removed t r s) = rp_nextToken s"
      by (simp_all add: removed_def)
    have old: "heap_ok X s" using inv by (simp add: policy_inv_def)
    then have "t < rp_nextToken s" "qr_token r = t" using r by (auto simp: heap_ok_def)
    with old show ?thesis unfolding heap_ok_def lists heap next_token by simp
  qed
  moreover have "indexes_ok (registered (X - {t}) (removed t r s)) (removed t r s)"
    unfolding lists using inv r by (simp add: policy_inv_def removed_indexes)
  moreover have "log_ok (removed t r s)"
    using inv r by (auto simp: policy_inv_def log_ok_def removed_def)
  ultimately show ?thesis by (simp add: policy_inv_def)
qed

lemma removeRecord_inv: "hoare (policy_inv X) (removeRecord t) (\<lambda>_. policy_inv (X - {t})) E"
  unfolding removeRecord_def
proof (rule hoare_modE)
  fix s :: "'a policy"
  assume inv: "policy_inv X s"
  show "policy_inv (X - {t}) (case rp_heap s t of None \<Rightarrow> s | Some r \<Rightarrow> removed t r s)"
  proof (cases "rp_heap s t")
    case None
    have "\<forall>u \<in> registered X s. rp_heap s u \<noteq> None" using inv by (simp add: policy_inv_def heap_ok_def)
    then have "t \<notin> X" using None unfolding registered_def by blast
    then show ?thesis using inv None by simp
  next
    case (Some r)
    then show ?thesis using policy_inv_removed [OF inv] by simp
  qed
qed

text \<open>A record that was created and is registered nowhere.\<close>

definition fresh :: "'v queue_record \<Rightarrow> 'v policy \<Rightarrow> bool" where
  "fresh r s \<longleftrightarrow> rp_heap s (qr_token r) = None \<and> qr_token r < rp_nextToken s \<and> rp_handles s (qr_handle r) = None \<and>
     qr_status r = RS_candidate \<and> \<not> qr_expired r \<and> \<not> qr_expiryNotified r \<and> \<not> qr_cancellationRequested r \<and> \<not> qr_lease r"

lemma policy_inv_register:
  assumes inv: "policy_inv X s" and fr: "fresh r s"
  shows "policy_inv (insert (qr_token r) X) (snd (registerRecord r s))"
proof -
  let ?t = "qr_token r" and ?s = "snd (registerRecord r s)"
  have new: "?t \<notin> registered X s" using inv fr by (auto simp: policy_inv_def heap_ok_def fresh_def)
  have fields: "rp_queue ?s = rp_queue s" "rp_active ?s = rp_active s" "rp_heap ?s = (rp_heap s)(?t \<mapsto> r)"
    "rp_nextToken ?s = rp_nextToken s" "rp_expiredLog ?s = rp_expiredLog s"
    "rp_queueCapacity ?s = rp_queueCapacity s" "rp_activeCapacity ?s = rp_activeCapacity s"
    "rp_handles ?s = (rp_handles s)(qr_handle r \<mapsto> ?t)"
    "rp_entries ?s = index_add (Some (en_ref (qr_entry r))) ?t (rp_entries s)"
    "rp_entryIds ?s = index_add (en_id (qr_entry r)) ?t (rp_entryIds s)"
    "rp_requestIds ?s = index_add (en_requestId (qr_entry r)) ?t (rp_requestIds s)"
    by (simp_all add: registerRecord_def modE_def)
  have reg: "registered (insert ?t X) ?s = insert ?t (registered X s)" by (auto simp: registered_def fields)
  have "lists_ok (insert ?t X) ?s"
    using inv new by (auto simp: policy_inv_def lists_ok_def fields registered_def)
  moreover have "heap_ok (insert ?t X) ?s"
  proof -
    have "heap_ok X s" using inv by (simp add: policy_inv_def)
    then show ?thesis
      using fr new unfolding heap_ok_def reg fields fresh_def by (auto simp: registered_def)
  qed
  moreover have "log_ok ?s"
    using inv fr by (auto simp: policy_inv_def log_ok_def fields fresh_def)
  moreover have "indexes_ok (insert ?t (registered X s)) ?s"
  proof -
    have ix: "indexes_ok (registered X s) s" using inv by (simp add: policy_inv_def)
    then have h: "rp_handles s h = Some u \<longleftrightarrow> u \<in> registered X s \<and> (\<exists>r. rp_heap s u = Some r \<and> qr_handle r = h)" for h u
      by (simp add: indexes_ok_def)
    have "rp_handles ?s h = Some u \<longleftrightarrow>
        u \<in> insert ?t (registered X s) \<and> (\<exists>x. rp_heap ?s u = Some x \<and> qr_handle x = h)" for h u
      using h [of h u] h [of "qr_handle r" u] fr new by (auto simp: fields fresh_def)
    then show ?thesis
      using ix indexed_add [OF _ new, of "\<lambda>r. Some (en_ref (qr_entry r))" _ "rp_heap s" r]
        indexed_add [OF _ new, of "\<lambda>r. en_id (qr_entry r)" _ "rp_heap s" r]
        indexed_add [OF _ new, of "\<lambda>r. en_requestId (qr_entry r)" _ "rp_heap s" r]
      by (simp add: indexes_ok_def fields)
  qed
  ultimately show ?thesis by (simp add: policy_inv_def reg)
qed

section \<open>Clock readings\<close>

definition steady :: "policy_env \<Rightarrow> bool" where
  "steady env \<longleftrightarrow> (\<forall>i. is_finite (re_clock env i))"

definition observe :: "jsnum \<Rightarrow> 'v policy \<Rightarrow> 'v policy" where
  "observe v s = s\<lparr>rp_lastObservedNow := (if v < rp_lastObservedNow s then rp_lastObservedNow s else v)\<rparr>"

definition tick :: "policy_env \<Rightarrow> 'v policy \<Rightarrow> 'v policy" where
  "tick env s = observe (re_clock env (rp_reads s)) (s\<lparr>rp_reads := Suc (rp_reads s)\<rparr>)"

definition observed :: "'v policy \<Rightarrow> rat" where
  "observed s = fin_val (rp_lastObservedNow s)"

lemma readMonotonicNow_Some:
  "readMonotonicNow env (Some v) s =
     (if is_finite v then (Inr (observed (observe v s)), observe v s) else (Inl queue_time_error, s))"
  by (simp add: readMonotonicNow_def observe_def observed_def exec_simps)

lemma readMonotonicNow_None:
  "steady env \<Longrightarrow> readMonotonicNow env None s = (Inr (observed (tick env s)), tick env s)"
  by (simp add: readMonotonicNow_def tick_def observe_def observed_def steady_def exec_simps)

lemma tick_fields [simp]:
  "rp_queue (tick env s) = rp_queue s" "rp_active (tick env s) = rp_active s" "rp_heap (tick env s) = rp_heap s"
  "rp_activeCapacity (tick env s) = rp_activeCapacity s" "rp_queueCapacity (tick env s) = rp_queueCapacity s"
  "rp_handles (tick env s) = rp_handles s" "rp_nextToken (tick env s) = rp_nextToken s"
  "rp_expiredLog (tick env s) = rp_expiredLog s" "registered X (tick env s) = registered X s"
  "policy_inv X (tick env s) = policy_inv X s"
  by (simp_all add: tick_def observe_def registered_def policy_inv_def lists_ok_def heap_ok_def indexes_ok_def log_ok_def)

lemma observe_fields [simp]:
  "rp_queue (observe v s) = rp_queue s" "rp_active (observe v s) = rp_active s" "rp_heap (observe v s) = rp_heap s"
  "rp_activeCapacity (observe v s) = rp_activeCapacity s" "rp_queueCapacity (observe v s) = rp_queueCapacity s"
  "rp_handles (observe v s) = rp_handles s" "rp_nextToken (observe v s) = rp_nextToken s"
  "rp_expiredLog (observe v s) = rp_expiredLog s" "rp_reads (observe v s) = rp_reads s" "registered X (observe v s) = registered X s"
  "policy_inv X (observe v s) = policy_inv X s"
  by (simp_all add: observe_def registered_def policy_inv_def lists_ok_def heap_ok_def indexes_ok_def log_ok_def)

definition runnable_at :: "policy_env \<Rightarrow> 'v queue_record \<Rightarrow> 'v policy \<Rightarrow> bool" where
  "runnable_at env r s = isRunnableRecord r (re_view env (en_ref (qr_entry r)) (rp_reads s)) (observed s)"

section \<open>Claiming a record\<close>

definition activated :: "nat \<Rightarrow> 'v queue_record \<Rightarrow> 'v policy \<Rightarrow> 'v policy" where
  "activated t r s = s\<lparr>rp_active := rp_active s @ [t],
     rp_heap := (rp_heap s)(t \<mapsto> r\<lparr>qr_status := RS_active, qr_lease := True\<rparr>)\<rparr>"

lemma claimRecord_eq:
  assumes "steady env"
  shows "claimRecord env t s =
    (case rp_heap s t of
       None \<Rightarrow> (Inr None, s)
     | Some r \<Rightarrow>
         if rp_activeCapacity s \<le> length (rp_active s) then (Inr None, s)
         else if \<not> runnable_at env r (tick env s) then (Inr None, tick env s)
         else if \<not> runnable_at env r (tick env (tick env s)) then (Inr None, tick env (tick env s))
         else (Inr (Some (lease_of r)), activated t r (tick env (tick env s))))"
  by (simp add: claimRecord_def load_def alter_def runnable_now_def runnable_at_def activated_def
      bindE_apply getE_def thenE_def modE_def ret_def readMonotonicNow_None [OF assms] split: option.split)

lemma policy_inv_activated:
  assumes inv: "policy_inv {t} s" and r: "rp_heap s t = Some r" and room: "length (rp_active s) < rp_activeCapacity s"
  shows "policy_inv {} (activated t r s)"
proof -
  let ?s = "activated t r s" and ?r = "r\<lparr>qr_status := RS_active, qr_lease := True\<rparr>"
  have fields: "rp_queue ?s = rp_queue s" "rp_active ?s = rp_active s @ [t]" "rp_heap ?s = (rp_heap s)(t \<mapsto> ?r)"
    "rp_nextToken ?s = rp_nextToken s" "rp_expiredLog ?s = rp_expiredLog s"
    "rp_queueCapacity ?s = rp_queueCapacity s" "rp_activeCapacity ?s = rp_activeCapacity s"
    "rp_handles ?s = rp_handles s" "rp_entries ?s = rp_entries s" "rp_entryIds ?s = rp_entryIds s"
    "rp_requestIds ?s = rp_requestIds s"
    by (simp_all add: activated_def)
  have reg: "registered {} ?s = registered {t} s" by (auto simp: registered_def fields)
  have out: "t \<notin> set (rp_queue s)" "t \<notin> set (rp_active s)" using inv by (auto simp: policy_inv_def lists_ok_def)
  have "indexes_ok (registered {} ?s) ?s"
    unfolding reg using inv indexes_ok_heap_update [OF r _ fields(3), of "registered {t} s"] fields
    by (simp add: policy_inv_def same_identity_def)
  moreover have "lists_ok {} ?s"
    using inv room out by (auto simp: policy_inv_def lists_ok_def fields)
  moreover have "heap_ok {} ?s"
  proof -
    have "heap_ok {t} s" using inv by (simp add: policy_inv_def)
    then show ?thesis using r out unfolding heap_ok_def reg fields by (auto simp: registered_def)
  qed
  moreover have "log_ok ?s"
    using inv r by (auto simp: policy_inv_def log_ok_def fields)
  ultimately show ?thesis by (simp add: policy_inv_def)
qed

lemma policy_inv_enqueued:
  assumes inv: "policy_inv {t} s" and r: "rp_heap s t = Some r" and room: "length (rp_queue s) < rp_queueCapacity s"
    and clean: "\<not> qr_expired r" "\<not> qr_cancellationRequested r"
    and s': "s' = s\<lparr>rp_queue := q, rp_heap := (rp_heap s)(t \<mapsto> r\<lparr>qr_status := RS_queued\<rparr>)\<rparr>"
    and q: "q = rp_queue s @ [t] \<or> q = t # rp_queue s"
  shows "policy_inv {} s'"
proof -
  let ?r = "r\<lparr>qr_status := RS_queued\<rparr>"
  have fields: "rp_queue s' = q" "rp_active s' = rp_active s" "rp_heap s' = (rp_heap s)(t \<mapsto> ?r)"
    "rp_nextToken s' = rp_nextToken s" "rp_expiredLog s' = rp_expiredLog s"
    "rp_queueCapacity s' = rp_queueCapacity s" "rp_activeCapacity s' = rp_activeCapacity s"
    "rp_handles s' = rp_handles s" "rp_entries s' = rp_entries s" "rp_entryIds s' = rp_entryIds s"
    "rp_requestIds s' = rp_requestIds s"
    by (simp_all add: s')
  have set_q: "set q = insert t (set (rp_queue s))" "length q = Suc (length (rp_queue s))"
    "distinct q \<longleftrightarrow> t \<notin> set (rp_queue s) \<and> distinct (rp_queue s)"
    using q by auto
  have reg: "registered {} s' = registered {t} s" by (auto simp: registered_def fields set_q)
  have out: "t \<notin> set (rp_queue s)" "t \<notin> set (rp_active s)" using inv by (auto simp: policy_inv_def lists_ok_def)
  have "indexes_ok (registered {} s') s'"
    unfolding reg using inv indexes_ok_heap_update [OF r _ fields(3), of "registered {t} s"] fields
    by (simp add: policy_inv_def same_identity_def)
  moreover have "lists_ok {} s'"
    using inv room out by (auto simp: policy_inv_def lists_ok_def fields set_q)
  moreover have "heap_ok {} s'"
  proof -
    have old: "heap_ok {t} s" using inv by (simp add: policy_inv_def)
    then have "\<not> qr_lease r" using r out by (simp add: heap_ok_def)
    with old show ?thesis using r out clean unfolding heap_ok_def reg fields set_q by (auto simp: registered_def)
  qed
  moreover have "log_ok s'"
    using inv r by (auto simp: policy_inv_def log_ok_def fields)
  ultimately show ?thesis by (simp add: policy_inv_def)
qed

lemma policy_inv_shift:
  assumes "policy_inv {} s" and "rp_queue s = t # rest"
  shows "policy_inv {t} (s\<lparr>rp_queue := rest\<rparr>)"
proof -
  have reg: "registered {t} (s\<lparr>rp_queue := rest\<rparr>) = registered {} s" using assms(2) by (auto simp: registered_def)
  have "lists_ok {t} (s\<lparr>rp_queue := rest\<rparr>)" using assms by (auto simp: policy_inv_def lists_ok_def)
  moreover have "heap_ok {t} (s\<lparr>rp_queue := rest\<rparr>)"
    using assms unfolding policy_inv_def heap_ok_def reg by auto
  moreover have "indexes_ok (registered {} s) (s\<lparr>rp_queue := rest\<rparr>)" using assms(1) by (simp add: policy_inv_def indexes_ok_def)
  moreover have "log_ok (s\<lparr>rp_queue := rest\<rparr>)" using assms(1) by (simp add: policy_inv_def log_ok_def)
  ultimately show ?thesis by (simp add: policy_inv_def reg)
qed

section \<open>Every operation keeps the invariant\<close>

lemma hoare_readNow:
  assumes "steady env" and "\<And>s. P s \<Longrightarrow> P (tick env s)" and "\<And>v s. P s \<Longrightarrow> P (observe v s)"
  shows "hoare P (readMonotonicNow env now) (\<lambda>_. P) (\<lambda>_. P)"
  using assms(2,3) by (cases now) (auto simp: hoare_def readMonotonicNow_None [OF assms(1)] readMonotonicNow_Some)

lemma readNow_inv: "steady env \<Longrightarrow> hoare (policy_inv X) (readMonotonicNow env now) (\<lambda>_. policy_inv X) (\<lambda>_. policy_inv X)"
  by (rule hoare_readNow) simp_all

lemma removeRecord_out:
  "hoare (policy_inv X) (removeRecord t) (\<lambda>_ s. policy_inv (X - {t}) s \<and> t \<notin> set (rp_queue s)) E"
proof (rule hoareI)
  fix s u :: "'a policy" and x a
  assume inv: "policy_inv X s"
  show "removeRecord t s = (Inl x, u) \<Longrightarrow> E x u" by (simp add: removeRecord_def modE_def)
  assume run: "removeRecord t s = (Inr a, u)"
  then have "policy_inv (X - {t}) u" by (rule hoare_Inr [OF removeRecord_inv inv])
  moreover have "t \<notin> set (rp_queue u)"
  proof (cases "rp_heap s t")
    case None
    have "\<forall>v \<in> registered X s. rp_heap s v \<noteq> None" using inv by (simp add: policy_inv_def heap_ok_def)
    then have "t \<notin> set (rp_queue s)" using None unfolding registered_def by blast
    then show ?thesis using None run by (simp add: removeRecord_def modE_def)
  next
    case (Some r)
    then show ?thesis using run removed_lists(1) [OF inv, of t r] by (auto simp: removeRecord_def modE_def)
  qed
  ultimately show "policy_inv (X - {t}) u \<and> t \<notin> set (rp_queue u)" ..
qed

lemma markExpired_inv:
  "hoare (\<lambda>s. policy_inv X s \<and> t \<notin> set (rp_queue s)) (markExpired t) (\<lambda>_. policy_inv X) E"
proof (rule hoareI)
  fix s u :: "'a policy" and x a
  assume inv: "policy_inv X s \<and> t \<notin> set (rp_queue s)"
  show "markExpired t s = (Inl x, u) \<Longrightarrow> E x u" by (simp add: markExpired_def modE_def)
  show "markExpired t s = (Inr a, u) \<Longrightarrow> policy_inv X u" using policy_inv_markExpired [of X s t] inv by simp
qed

lemma expire_queued_inv:
  "hoare (policy_inv {}) (expire_queued env now t) (\<lambda>_. policy_inv {}) E"
  unfolding expire_queued_def load_def runnable_now_def
  by (intro hoare_get_bind hoare_option hoare_if hoare_ret
      hoare_then [OF hoare_pre [OF hoare_post [OF removeRecord_out [of "{}"]]]]
      hoare_then [OF hoare_pre [OF markExpired_inv]]) auto

lemma markExpired_queue: "rp_queue (snd (markExpired t s)) = rp_queue s"
  by (simp add: markExpired_def modE_def split: option.split)

lemma expire_active_inv:
  "t \<notin> set q \<Longrightarrow> hoare (\<lambda>s. policy_inv {} s \<and> rp_queue s = q) (expire_active now t) (\<lambda>_ s. policy_inv {} s \<and> rp_queue s = q) E"
proof (rule hoareI)
  fix s u :: "'a policy" and x a
  assume t: "t \<notin> set q" and s: "policy_inv {} s \<and> rp_queue s = q"
  have *: "policy_inv {} (snd (markExpired t s))" using policy_inv_markExpired s t by blast
  show "expire_active now t s = (Inl x, u) \<Longrightarrow> E x u"
    by (auto simp: expire_active_def load_def markExpired_def exec_simps split: option.splits if_splits)
  assume run: "expire_active now t s = (Inr a, u)"
  then have "u = s \<or> u = snd (markExpired t s)"
    by (cases "rp_heap s t") (auto simp: expire_active_def load_def markExpired_def exec_simps split: if_splits)
  then show "policy_inv {} u \<and> rp_queue u = q" using * s by (auto simp: markExpired_queue)
qed

lemma hoare_fix: "(\<And>q. hoare (\<lambda>s. P s \<and> f s = q) m Q E) \<Longrightarrow> hoare P m Q E"
  by (auto simp: hoare_def)

lemma hoare_known: "(b \<Longrightarrow> hoare P m Q E) \<Longrightarrow> (\<And>s. P s \<Longrightarrow> b) \<Longrightarrow> hoare P m Q E"
  by (auto simp: hoare_def)

lemma expire_actives_inv:
  "hoare (policy_inv {}) (bindE (getE rp_active) (\<lambda>active. bindE (forE active (expire_active now)) (\<lambda>es. ret (f es)))) (\<lambda>_. policy_inv {}) E"
proof (rule hoare_fix [where f = rp_queue], rule hoare_get_bind)
  fix q active
  let ?P = "\<lambda>s. (policy_inv {} s \<and> rp_queue s = q) \<and> rp_active s = active"
  show "hoare ?P (bindE (forE active (expire_active now)) (\<lambda>es. ret (f es))) (\<lambda>_. policy_inv {}) E"
  proof (rule hoare_known)
    show "set active \<inter> set q = {}" if "?P s" for s using that by (auto simp: policy_inv_def lists_ok_def)
    assume "set active \<inter> set q = {}"
    then have "hoare (\<lambda>s. policy_inv {} s \<and> rp_queue s = q) (forE active (expire_active now)) (\<lambda>_ s. policy_inv {} s \<and> rp_queue s = q) E"
      by (intro hoare_forE expire_active_inv) auto
    then show "hoare ?P (bindE (forE active (expire_active now)) (\<lambda>es. ret (f es))) (\<lambda>_. policy_inv {}) E"
      by (rule hoare_pre [OF hoare_bind]) (auto intro: hoare_ret)
  qed
qed

lemma expire_at_inv: "hoare (policy_inv {}) (expire_at env now) (\<lambda>_. policy_inv {}) E"
  unfolding expire_at_def
  by (intro hoare_get_bind hoare_bind [OF _ expire_actives_inv] hoare_pre [OF hoare_forE] expire_queued_inv) auto

lemma expire_inv: "steady env \<Longrightarrow> hoare (policy_inv {}) (expire env now) (\<lambda>_. policy_inv {}) (\<lambda>_. policy_inv {})"
  unfolding expire_def by (rule hoare_bind [OF readNow_inv expire_at_inv])

lemma expire_resolved_inv:
  "steady env \<Longrightarrow> hoare (policy_inv {}) (expire_resolved env now) (\<lambda>_. policy_inv {}) (\<lambda>_. policy_inv {})"
  unfolding expire_resolved_def by (rule expire_inv)

text \<open>What a turn of the \<open>dequeue\<close> loop does with a record that may not run.\<close>

definition after_claim :: "policy_env \<Rightarrow> 'v queue_record \<Rightarrow> 'v policy \<Rightarrow> 'v policy" where
  "after_claim env r s = (if runnable_at env r (tick env s) then tick env (tick env s) else tick env s)"

definition discarded :: "policy_env \<Rightarrow> nat \<Rightarrow> 'v queue_record \<Rightarrow> 'v policy \<Rightarrow> 'v policy" where
  "discarded env t r s =
     (let u = after_claim env r s;
          v = (if Fin (qr_deadline r) \<le> rp_lastObservedNow u \<or> qr_expired r then snd (markExpired t u) else u)
      in snd (removeRecord t v))"

lemma after_claim_fields [simp]:
  "rp_queue (after_claim env r s) = rp_queue s" "rp_active (after_claim env r s) = rp_active s" "rp_heap (after_claim env r s) = rp_heap s"
  "rp_activeCapacity (after_claim env r s) = rp_activeCapacity s" "policy_inv X (after_claim env r s) = policy_inv X s"
  by (simp_all add: after_claim_def)

lemma dequeue_loop_step:
  assumes "steady env" and "rp_queue s = t # rest" and "rp_heap s t = Some r"
  shows "dequeue_loop env (Suc n) s =
    (let s1 = s\<lparr>rp_queue := rest\<rparr>
     in if rp_activeCapacity s \<le> length (rp_active s) then (Inr None, s)
        else if runnable_at env r (tick env s1) \<and> runnable_at env r (tick env (tick env s1))
        then (Inr (Some (lease_of r)), activated t r (tick env (tick env s1)))
        else dequeue_loop env n (discarded env t r s1))"
proof -
  have same: "s\<lparr>rp_queue := t # rest\<rparr> = s" using assms(2) by simp
  have marks: "fst (markExpired t u) = Inr ()" "fst (removeRecord t u) = Inr ()" for u :: "'a policy"
    by (simp_all add: markExpired_def removeRecord_def modE_def)
  let ?s = "s\<lparr>rp_queue := rest\<rparr>"
  have late: "rp_heap ?s t = Some r" using assms(3) by simp
  note unfold = bindE_apply thenE_def getE_def modE_def ret_def whenE_def claimRecord_eq [OF assms(1)] Let_def
    same discarded_def after_claim_def marks split_beta
  show ?thesis
  proof (cases "runnable_at env r (tick env ?s)")
    case True
    then show ?thesis using assms(2,3)
      by (cases "Fin (qr_deadline r) \<le> rp_lastObservedNow (tick env (tick env ?s)) \<or> qr_expired r") (auto simp: unfold)
  next
    case False
    then show ?thesis using assms(2,3)
      by (cases "Fin (qr_deadline r) \<le> rp_lastObservedNow (tick env ?s) \<or> qr_expired r") (auto simp: unfold)
  qed
qed

lemma discarded_inv:
  assumes "policy_inv {t} s"
  shows "policy_inv {} (discarded env t r s)"
proof -
  have "t \<notin> set (rp_queue s)" using assms by (auto simp: policy_inv_def lists_ok_def)
  then have marked: "policy_inv {t} (snd (markExpired t (after_claim env r s)))"
    using assms by (intro policy_inv_markExpired) simp_all
  have "policy_inv {} (snd (removeRecord t u))" if "policy_inv {t} u" for u :: "'a policy"
    using hoare_both [OF removeRecord_inv [of "{t}" t] that] by simp
  then show ?thesis using assms marked by (simp add: discarded_def Let_def)
qed

lemma dequeue_loop_inv:
  "steady env \<Longrightarrow> policy_inv {} s \<Longrightarrow> policy_inv {} (snd (dequeue_loop env n s))"
proof (induction n arbitrary: s)
  case 0
  then show ?case by (simp add: ret_def)
next
  case (Suc n)
  show ?case
  proof (cases "rp_queue s")
    case Nil
    then show ?thesis using Suc.prems by (simp add: exec_simps)
  next
    case (Cons t rest)
    then have "t \<in> registered {} s" by (simp add: registered_def)
    then obtain r where r: "rp_heap s t = Some r" using Suc.prems by (auto simp: policy_inv_def heap_ok_def)
    let ?s = "s\<lparr>rp_queue := rest\<rparr>"
    have shifted: "policy_inv {t} ?s" by (rule policy_inv_shift [OF Suc.prems(2) Cons])
    have "policy_inv {} (activated t r (tick env (tick env ?s)))" if "\<not> rp_activeCapacity s \<le> length (rp_active s)"
      using shifted r that by (intro policy_inv_activated) simp_all
    then show ?thesis
      using Suc.IH [OF Suc.prems(1) discarded_inv [OF shifted]] Suc.prems
      unfolding dequeue_loop_step [OF Suc.prems(1) Cons r] Let_def by simp
  qed
qed

lemma hoare_inv: "(\<And>s. P s \<Longrightarrow> P (snd (m s))) \<Longrightarrow> hoare P m (\<lambda>_. P) (\<lambda>_. P)"
  by (metis hoareI snd_conv)

lemma dequeue_inv: "steady env \<Longrightarrow> hoare (policy_inv {}) (dequeue env now) (\<lambda>_. policy_inv {}) (\<lambda>_. policy_inv {})"
  unfolding dequeue_def
  by (rule hoare_bind [OF readNow_inv], assumption, rule hoare_then [OF expire_resolved_inv], assumption)
    (intro hoare_get_bind hoare_if hoare_ret hoare_pre [OF hoare_inv] dequeue_loop_inv; simp)

text \<open>What every operation keeps of a record that is not registered yet.\<close>

definition keeps :: "'v policy \<Rightarrow> 'v policy \<Rightarrow> bool" where
  "keeps s t \<longleftrightarrow> dom (rp_heap t) = dom (rp_heap s) \<and> dom (rp_handles t) \<subseteq> dom (rp_handles s) \<and>
     rp_nextToken t = rp_nextToken s \<and> rp_queueCapacity t = rp_queueCapacity s \<and> rp_activeCapacity t = rp_activeCapacity s"

interpretation kept: step_contract keeps
proof unfold_locales
  show "keeps s s" for s :: "'a policy" by (simp add: keeps_def)
  show "keeps s t \<Longrightarrow> keeps t u \<Longrightarrow> keeps s u" for s t u :: "'a policy"
    unfolding keeps_def by (elim conjE, intro conjI) (simp, erule (1) subset_trans, simp_all)
qed

lemma keeps_removeRecord: "obeys keeps (removeRecord t)"
  unfolding removeRecord_def
  by (rule kept.modE) (auto simp: keeps_def removed_def split: option.split if_splits)

lemma keeps_markExpired: "obeys keeps (markExpired t)"
  unfolding markExpired_def
  by (rule kept.modE) (auto simp: keeps_def split: option.split if_splits)

lemma keeps_readMonotonicNow: "obeys keeps (readMonotonicNow env now)"
  unfolding readMonotonicNow_def
  by (intro kept.closure kept.modE) (auto simp: keeps_def)

lemma keeps_expire: "obeys keeps (expire env now)"
  unfolding expire_def expire_at_def expire_queued_def expire_active_def load_def runnable_now_def
  by (intro kept.closure keeps_readMonotonicNow keeps_removeRecord keeps_markExpired)

lemma fresh_kept: "fresh r s \<Longrightarrow> keeps s t \<Longrightarrow> fresh r t"
  unfolding fresh_def keeps_def by (metis domIff subsetD)

lemma hoare_obeys:
  "hoare P m Q E \<Longrightarrow> obeys R m \<Longrightarrow> (\<And>s t. A s \<Longrightarrow> R s t \<Longrightarrow> A t) \<Longrightarrow>
   hoare (\<lambda>s. P s \<and> A s) m (\<lambda>a s. Q a s \<and> A s) E"
  unfolding hoare_def obeys_def by (fastforce split: prod.splits sum.splits)

lemma draw_handle_unused: "draw_handle env used i = Some (h, j) \<Longrightarrow> used h = None"
  using draw_handle.raw_induct [where P = "\<lambda>env used i r. used (fst r) = None" and y = "(h, j)"]
  by (force simp: Let_def split: if_splits)

text \<open>The loop ends as soon as one of the UUIDs to come is not in use, so it always ends when they are all different.\<close>

lemma draw_handle_returns:
  assumes "used (''queue:'' @ re_uuid env (i + n)) = None"
  shows "draw_handle env used i \<noteq> None"
  using assms
proof (induction n arbitrary: i)
  case 0
  then show ?case by (simp add: draw_handle.simps [of env used i] Let_def)
next
  case (Suc n)
  then have "draw_handle env used (Suc i) \<noteq> None" by simp
  then show ?case by (simp add: draw_handle.simps [of env used i] Let_def)
qed

lemma draw_handle_total:
  assumes "inj (re_uuid env)" and "finite (dom used)"
  shows "draw_handle env used i \<noteq> None"
proof -
  have "inj (\<lambda>n. ''queue:'' @ re_uuid env (i + n))"
    by (rule injI) (use assms(1) in \<open>auto dest: injD\<close>)
  then have "\<not> range (\<lambda>n. ''queue:'' @ re_uuid env (i + n)) \<subseteq> dom used"
    using assms(2) finite_subset finite_imageD infinite_UNIV_nat by metis
  then obtain n where "used (''queue:'' @ re_uuid env (i + n)) = None" by auto
  then show ?thesis by (rule draw_handle_returns)
qed

lemma createRecord_inv:
  "hoare (policy_inv {}) (createRecord env entry) (\<lambda>r s. policy_inv {} s \<and> fresh r s) (\<lambda>_. policy_inv {})"
proof (rule hoareI)
  fix s u :: "'a policy" and x r
  assume inv: "policy_inv {} s"
  have skip: "policy_inv {} (s\<lparr>rp_uuids := i\<rparr>)" "policy_inv {} (s\<lparr>rp_uuids := i, rp_nextToken := Suc (rp_nextToken s)\<rparr>)" for i
    by (rule policy_inv_frame [OF _ _ _ _ _ _ _ _ _ _ _ inv]; simp)+
  show "createRecord env entry s = (Inl x, u) \<Longrightarrow> policy_inv {} u"
    using inv skip by (auto simp: createRecord_def exec_simps split: if_splits option.splits prod.splits sum.splits)
  assume run: "createRecord env entry s = (Inr r, u)"
  then obtain h i deadline where drawn: "draw_handle env (rp_handles s) (rp_uuids s) = Some (h, i)"
    and r: "r = \<lparr>qr_token = rp_nextToken s, qr_handle = h, qr_entry = entry, qr_deadline = deadline, qr_status = RS_candidate,
      qr_expired = False, qr_expiryNotified = False, qr_cancellationRequested = False, qr_lease = False\<rparr>"
    and u: "u = s\<lparr>rp_uuids := i, rp_nextToken := Suc (rp_nextToken s)\<rparr>"
    by (auto simp: createRecord_def exec_simps split: if_splits option.splits prod.splits sum.splits)
  have "rp_heap s (rp_nextToken s) = None"
    using inv by (cases "rp_heap s (rp_nextToken s)") (auto simp: policy_inv_def heap_ok_def)
  moreover have "rp_handles s h = None" by (rule draw_handle_unused [OF drawn])
  ultimately have "fresh r u" by (simp add: fresh_def r u)
  with skip(2) u show "policy_inv {} u \<and> fresh r u" by simp
qed

lemma registerRecord_inv:
  "hoare (\<lambda>s. policy_inv {} s \<and> fresh r s) (registerRecord r)
    (\<lambda>_ s. policy_inv {qr_token r} s \<and> rp_heap s (qr_token r) = Some r) E"
proof (rule hoareI)
  fix s u :: "'a policy" and x a
  assume pre: "policy_inv {} s \<and> fresh r s"
  show "registerRecord r s = (Inl x, u) \<Longrightarrow> E x u" by (simp add: registerRecord_def modE_def)
  assume "registerRecord r s = (Inr a, u)"
  then have u: "u = snd (registerRecord r s)" by simp
  have "policy_inv {qr_token r} u" unfolding u using policy_inv_register pre by fastforce
  moreover have "rp_heap u (qr_token r) = Some r" by (simp add: u registerRecord_def modE_def)
  ultimately show "policy_inv {qr_token r} u \<and> rp_heap u (qr_token r) = Some r" ..
qed

lemma claimRecord_inv:
  assumes "steady env"
  shows "hoare (policy_inv {t}) (claimRecord env t)
    (\<lambda>lease. case lease of None \<Rightarrow> policy_inv {t} | Some _ \<Rightarrow> policy_inv {}) E"
proof (rule hoareI)
  fix s u :: "'a policy" and x lease
  assume inv: "policy_inv {t} s"
  show "claimRecord env t s = (Inl x, u) \<Longrightarrow> E x u"
    by (simp add: claimRecord_eq [OF assms] split: option.splits if_splits)
  have claimed: "policy_inv {} (activated t r (tick env (tick env s)))"
    if "rp_heap s t = Some r" "\<not> rp_activeCapacity s \<le> length (rp_active s)" for r
    using that inv by (intro policy_inv_activated) simp_all
  show "claimRecord env t s = (Inr lease, u) \<Longrightarrow>
      (case lease of None \<Rightarrow> policy_inv {t} | Some _ \<Rightarrow> policy_inv {}) u"
    using inv claimed by (auto simp: claimRecord_eq [OF assms] split: option.splits if_splits)
qed

lemma admit_now_inv:
  assumes "steady env"
  shows "hoare (\<lambda>s. policy_inv {} s \<and> fresh r s) (admit_now env r) (\<lambda>_. policy_inv {}) (\<lambda>_. policy_inv {})"
  unfolding admit_now_def busyDecision_def
  by (intro hoare_get_bind hoare_if hoare_getE hoare_then [OF hoare_pre [OF registerRecord_inv]]
      hoare_bind [OF hoare_pre [OF claimRecord_inv [OF assms]]] hoare_option hoare_ret
      hoare_then [OF hoare_pre [OF removeRecord_inv]]) auto

definition enqueued :: "'v queue_record \<Rightarrow> 'v policy \<Rightarrow> 'v policy" where
  "enqueued r s = (let s1 = snd (registerRecord r s)
     in s1\<lparr>rp_queue := rp_queue s1 @ [qr_token r], rp_heap := (rp_heap s1)(qr_token r \<mapsto> r\<lparr>qr_status := RS_queued\<rparr>)\<rparr>)"

lemma enqueue_eq:
  "thenE (registerRecord r) (thenE (alter (qr_token r) (\<lambda>r. r\<lparr>qr_status := RS_queued\<rparr>))
     (thenE (modE (\<lambda>s. s\<lparr>rp_queue := rp_queue s @ [qr_token r]\<rparr>))
     (bindE (getE (\<lambda>s. length (rp_queue s))) (\<lambda>position. ret (Queued (qr_entry r) (qr_handle r) position))))) s =
   (Inr (Queued (qr_entry r) (qr_handle r) (Suc (length (rp_queue s)))), enqueued r s)"
  by (simp add: enqueued_def registerRecord_def alter_def exec_simps)

lemma enqueued_inv:
  assumes "policy_inv {} s" and "fresh r s" and "length (rp_queue s) < rp_queueCapacity s"
  shows "policy_inv {} (enqueued r s)"
proof (rule policy_inv_enqueued [where s = "snd (registerRecord r s)" and t = "qr_token r" and r = r])
  show "policy_inv {qr_token r} (snd (registerRecord r s))" using policy_inv_register [OF assms(1,2)] by simp
qed (use assms in \<open>auto simp: enqueued_def registerRecord_def modE_def Let_def fresh_def\<close>)

lemma enqueue_inv:
  "hoare (\<lambda>s. (policy_inv {} s \<and> fresh r s) \<and> length (rp_queue s) < rp_queueCapacity s)
    (thenE (registerRecord r) (thenE (alter (qr_token r) (\<lambda>r. r\<lparr>qr_status := RS_queued\<rparr>))
     (thenE (modE (\<lambda>s. s\<lparr>rp_queue := rp_queue s @ [qr_token r]\<rparr>))
     (bindE (getE (\<lambda>s. length (rp_queue s))) (\<lambda>position. ret (Queued (qr_entry r) (qr_handle r) position))))))
    (\<lambda>_. policy_inv {}) E"
  by (rule hoareI) (auto simp: enqueue_eq intro: enqueued_inv)

lemma admit_queued_inv:
  assumes "steady env"
  shows "hoare (\<lambda>s. policy_inv {} s \<and> fresh r s) (admit_queued env r) (\<lambda>_. policy_inv {}) (\<lambda>_. policy_inv {})"
proof -
  let ?P = "\<lambda>s. policy_inv {} s \<and> fresh r s"
  have read: "hoare ?P (readMonotonicNow env None) (\<lambda>_. ?P) (\<lambda>_. policy_inv {})"
    by (rule hoare_obeys [OF readNow_inv [OF assms] keeps_readMonotonicNow fresh_kept])
  have exp: "hoare ?P (expire_resolved env now) (\<lambda>_. ?P) (\<lambda>_. policy_inv {})" for now
    unfolding expire_resolved_def by (rule hoare_obeys [OF expire_inv [OF assms] keeps_expire fresh_kept])
  show ?thesis
    unfolding admit_queued_def runnable_now_def busyDecision_def
    by (intro hoare_bind [OF read] hoare_then [OF exp] hoare_get_bind hoare_if hoare_ret hoare_getE
        hoare_pre [OF enqueue_inv]) auto
qed

lemma hoare_sum:
  "(\<And>x. v = Inl x \<Longrightarrow> hoare P (m x) Q E) \<Longrightarrow> (\<And>x. v = Inr x \<Longrightarrow> hoare P (k x) Q E) \<Longrightarrow>
   hoare P (case v of Inl x \<Rightarrow> m x | Inr x \<Rightarrow> k x) Q E"
  by (cases v) auto

lemma admit_inv:
  assumes "steady env"
  shows "hoare (policy_inv {}) (admit env entry imm now) (\<lambda>_. policy_inv {}) (\<lambda>_. policy_inv {})"
  unfolding admit_def runnable_now_def
  by (intro hoare_bind [OF readNow_inv [OF assms]] hoare_then [OF expire_resolved_inv [OF assms]]
      hoare_bind [OF createRecord_inv] hoare_get_bind hoare_if hoare_ret
      hoare_pre [OF admit_now_inv [OF assms]] hoare_pre [OF admit_queued_inv [OF assms]]) auto

lemma release_inv: "hoare (policy_inv {}) (release target q) (\<lambda>_. policy_inv {}) E"
  unfolding release_def load_def
proof (rule hoare_get_bind)
  fix found
  show "hoare (\<lambda>s. policy_inv {} s \<and> findRecord s target q = found)
     (case found of Found t \<Rightarrow> bindE (getE (\<lambda>s. rp_heap s t)) (\<lambda>r. case r of
               None \<Rightarrow> ret False
             | Some r \<Rightarrow>
                 (if qr_status r \<noteq> RS_active \<and> qr_status r \<noteq> RS_queued then ret False
                  else thenE (removeRecord t) (ret True)))
       | _ \<Rightarrow> ret False) (\<lambda>_. policy_inv {}) E"
    by (cases found)
      (auto intro!: hoare_ret hoare_get_bind hoare_option hoare_then [OF hoare_pre [OF removeRecord_inv [of "{}"]]])
qed

text \<open>Cancellation changes only the cancellation mark of a record that is not queued any more.\<close>

lemma policy_inv_touch:
  assumes inv: "policy_inv X s" and r: "rp_heap s t = Some r" and t: "t \<notin> set (rp_queue s)"
  shows "policy_inv X (s\<lparr>rp_heap := (rp_heap s)(t \<mapsto> r\<lparr>qr_cancellationRequested := True\<rparr>)\<rparr>)"
proof -
  let ?s = "s\<lparr>rp_heap := (rp_heap s)(t \<mapsto> r\<lparr>qr_cancellationRequested := True\<rparr>)\<rparr>"
  have reg: "registered X ?s = registered X s" by (simp add: registered_def)
  have "indexes_ok (registered X ?s) ?s"
    unfolding reg using inv
      indexes_ok_heap_update [OF r, of "r\<lparr>qr_cancellationRequested := True\<rparr>" ?s "registered X s"]
    by (simp add: policy_inv_def same_identity_def)
  moreover have "lists_ok X ?s" using inv by (simp add: policy_inv_def lists_ok_def)
  moreover have "heap_ok X ?s"
  proof -
    have "heap_ok X s" using inv by (simp add: policy_inv_def)
    then show ?thesis using r t unfolding heap_ok_def reg by auto
  qed
  moreover have "log_ok ?s" using inv r by (auto simp: policy_inv_def log_ok_def)
  ultimately show ?thesis by (simp add: policy_inv_def)
qed

definition cancelled :: "nat \<Rightarrow> 'v queue_record \<Rightarrow> 'v policy \<Rightarrow> 'v policy" where
  "cancelled t r s = (removed t r s)\<lparr>rp_heap := (rp_heap s)(t \<mapsto>
     r\<lparr>qr_lease := False, qr_status := RS_released, qr_cancellationRequested := True\<rparr>)\<rparr>"

lemma cancel_queued_eq:
  "rp_heap s t = Some r \<Longrightarrow> cancel_queued t r s = (Inr (Cancelled_record (qr_entry r) (qr_handle r)), cancelled t r s)"
  by (cases r) (simp add: cancel_queued_def alter_def removeRecord_def cancelled_def removed_def exec_simps)

lemma cancelled_inv:
  assumes inv: "policy_inv {} s" and r: "rp_heap s t = Some r"
  shows "policy_inv {} (cancelled t r s)"
proof -
  let ?u = "removed t r s"
  have u: "policy_inv {} ?u" using policy_inv_removed [OF inv r] by simp
  have "rp_heap ?u t = Some (r\<lparr>qr_lease := False, qr_status := RS_released\<rparr>)" by (simp add: removed_def)
  moreover have "t \<notin> set (rp_queue ?u)" using removed_lists(1) [OF inv] by auto
  ultimately have "policy_inv {} (?u\<lparr>rp_heap := (rp_heap ?u)(t \<mapsto>
      r\<lparr>qr_lease := False, qr_status := RS_released, qr_cancellationRequested := True\<rparr>)\<rparr>)"
    using policy_inv_touch [OF u] by simp
  moreover have "(rp_heap ?u)(t \<mapsto> x) = (rp_heap s)(t \<mapsto> x)" for x by (simp add: removed_def)
  ultimately show ?thesis by (simp add: cancelled_def)
qed

lemma cancel_queued_inv:
  "hoare (\<lambda>s. policy_inv {} s \<and> rp_heap s t = Some r) (cancel_queued t r) (\<lambda>_. policy_inv {}) E"
  by (rule hoareI) (auto simp: cancel_queued_eq intro: cancelled_inv)

lemma read_loaded:
  assumes "steady env"
  shows "hoare (\<lambda>s. policy_inv {} s \<and> rp_heap s t = Some r) (readMonotonicNow env now)
    (\<lambda>_ s. policy_inv {} s \<and> rp_heap s t = Some r) (\<lambda>_. policy_inv {})"
  by (rule hoare_post [OF hoare_readNow [OF assms]]) auto

lemma remove_then_mark:
  "hoare (policy_inv {}) (thenE (removeRecord t) (thenE (markExpired t) (ret a))) (\<lambda>_. policy_inv {}) E"
  by (rule hoare_then [OF removeRecord_out], simp, rule hoare_then [OF markExpired_inv], rule hoare_ret, simp)

lemma cancel_waiting_inv:
  assumes "steady env"
  shows "hoare (\<lambda>s. policy_inv {} s \<and> rp_heap s t = Some r) (cancel_waiting env t r) (\<lambda>_. policy_inv {}) (\<lambda>_. policy_inv {})"
  unfolding cancel_waiting_def cancellation_seen_def runnable_now_def
  by (intro hoare_get_bind hoare_if hoare_pre [OF cancel_queued_inv] hoare_bind [OF hoare_pre [OF read_loaded [OF assms]]]
      hoare_pre [OF remove_then_mark] hoare_ret hoare_then [OF hoare_pre [OF removeRecord_inv [of "{}"]]]) auto

lemma active_not_queued:
  "policy_inv {} s \<Longrightarrow> rp_heap s t = Some r \<Longrightarrow> qr_status r = RS_active \<Longrightarrow> t \<notin> set (rp_queue s)"
  by (auto simp: policy_inv_def heap_ok_def lists_ok_def)

lemma alter_active_inv:
  "qr_status r = RS_active \<Longrightarrow> hoare (\<lambda>s. policy_inv {} s \<and> rp_heap s t = Some r)
     (alter t (\<lambda>r. r\<lparr>qr_cancellationRequested := True\<rparr>)) (\<lambda>_. policy_inv {}) E"
  unfolding alter_def
  by (rule hoare_modE) (auto dest: active_not_queued intro!: policy_inv_touch)

lemma cancel_active_inv:
  assumes "steady env" and "qr_status r = RS_active"
  shows "hoare (\<lambda>s. policy_inv {} s \<and> rp_heap s t = Some r) (cancel_active env t r) (\<lambda>_. policy_inv {}) (\<lambda>_. policy_inv {})"
  unfolding cancel_active_def cancellation_seen_def
  by (intro hoare_get_bind hoare_if hoare_bind [OF read_loaded [OF assms(1)]] hoare_ret
      hoare_then [OF hoare_pre [OF alter_active_inv [OF assms(2)]]] hoare_then [OF hoare_pre [OF markExpired_inv]])
    (auto dest: active_not_queued [OF _ _ assms(2)])

lemma cancelRecord_inv:
  assumes "steady env"
  shows "hoare (policy_inv {}) (cancelRecord env t) (\<lambda>_. policy_inv {}) (\<lambda>_. policy_inv {})"
proof -
  have expired: "hoare (\<lambda>s. policy_inv {} s \<and> rp_heap s t = Some r)
      (thenE (whenE (qr_status r \<noteq> RS_active) (removeRecord t)) (thenE (markExpired t) (ret a)))
      (\<lambda>_. policy_inv {}) (\<lambda>_. policy_inv {})" for r and a :: "'a cancellation"
    by (rule hoare_then [where R = "\<lambda>s. policy_inv {} s \<and> t \<notin> set (rp_queue s)"],
        rule hoare_when, rule hoare_pre [OF hoare_post [OF removeRecord_out [of "{}"]]])
      (auto intro!: hoare_ret hoare_then [OF markExpired_inv] dest: active_not_queued)
  show ?thesis
    unfolding cancelRecord_def load_def
    by (intro hoare_get_bind hoare_option hoare_if hoare_ret hoare_bind [OF hoare_pre [OF read_loaded [OF assms]]]
        hoare_pre [OF cancel_active_inv [OF assms]] hoare_pre [OF cancel_waiting_inv [OF assms]] hoare_pre [OF expired]) auto
qed

section \<open>Histories\<close>

text \<open>A history is a list of calls of the public methods; a call that throws leaves its state behind.\<close>

datatype 'v policy_op =
    Op_admit "'v queue_entry" bool "jsnum option"
  | Op_dequeue "jsnum option"
  | Op_release queue_target "string option"
  | Op_cancel queue_target "string option"
  | Op_cancelByRequestId string
  | Op_expire "jsnum option"
  | Op_isRunnable queue_target "jsnum option"
  | Op_peek "jsnum option"

fun policy_step :: "policy_env \<Rightarrow> 'v policy_op \<Rightarrow> 'v policy \<Rightarrow> 'v policy" where
  "policy_step env (Op_admit e i now) s = snd (admit env e i now s)"
| "policy_step env (Op_dequeue now) s = snd (dequeue env now s)"
| "policy_step env (Op_release target q) s = snd (release target q s)"
| "policy_step env (Op_cancel target q) s = snd (cancel env target q s)"
| "policy_step env (Op_cancelByRequestId q) s = snd (cancelByRequestId env q s)"
| "policy_step env (Op_expire now) s = snd (expire env now s)"
| "policy_step env (Op_isRunnable target now) s = snd (isRunnable env target now s)"
| "policy_step env (Op_peek now) s = snd (peek env now s)"

definition policy_run :: "policy_env \<Rightarrow> 'v policy_op list \<Rightarrow> 'v policy \<Rightarrow> 'v policy" where
  "policy_run env ops s = fold (policy_step env) ops s"

lemma cancel_inv:
  assumes "steady env"
  shows "hoare (policy_inv {}) (cancel env target q) (\<lambda>_. policy_inv {}) (\<lambda>_. policy_inv {})"
  unfolding cancel_def
proof (rule hoare_get_bind)
  fix found
  show "hoare (\<lambda>s. policy_inv {} s \<and> findRecord s target q = found)
      (case found of Not_found \<Rightarrow> ret Not_found_record | Ambiguous \<Rightarrow> ret Ambiguous_record
        | Found t \<Rightarrow> cancelRecord env t) (\<lambda>_. policy_inv {}) (\<lambda>_. policy_inv {})"
    by (cases found) (auto intro: hoare_ret hoare_pre [OF cancelRecord_inv [OF assms]])
qed

lemma cancelByRequestId_inv:
  assumes "steady env"
  shows "hoare (policy_inv {}) (cancelByRequestId env q) (\<lambda>_. policy_inv {}) (\<lambda>_. policy_inv {})"
  unfolding cancelByRequestId_def
  by (rule hoare_get_bind)
    (auto intro: hoare_ret hoare_pre [OF cancelRecord_inv [OF assms]] split: option.split list.split)

lemma isRunnable_inv:
  assumes "steady env"
  shows "hoare (policy_inv {}) (isRunnable env target now) (\<lambda>_. policy_inv {}) (\<lambda>_. policy_inv {})"
  unfolding isRunnable_def load_def runnable_now_def
  apply (rule hoare_bind [OF readNow_inv [OF assms]], rule hoare_then [OF expire_resolved_inv [OF assms]], rule hoare_get_bind)
  subgoal for now found
    by (cases found) (auto intro!: hoare_ret hoare_get_bind hoare_option hoare_getE)
  done

lemma peek_inv:
  assumes "steady env"
  shows "hoare (policy_inv {}) (peek env now) (\<lambda>_. policy_inv {}) (\<lambda>_. policy_inv {})"
  unfolding peek_def
  by (rule hoare_bind [OF readNow_inv [OF assms]], rule hoare_then [OF expire_resolved_inv [OF assms]])
    (auto intro: hoare_getE)

lemma policy_step_inv:
  assumes "steady env"
  shows "policy_inv {} s \<Longrightarrow> policy_inv {} (policy_step env op s)"
  by (cases op)
    (simp_all add: hoare_both [OF admit_inv [OF assms]] hoare_both [OF dequeue_inv [OF assms]] hoare_both [OF release_inv]
      hoare_both [OF cancel_inv [OF assms]] hoare_both [OF cancelByRequestId_inv [OF assms]]
      hoare_both [OF expire_inv [OF assms]] hoare_both [OF isRunnable_inv [OF assms]] hoare_both [OF peek_inv [OF assms]])

lemma policy_run_inv: "steady env \<Longrightarrow> policy_inv {} s \<Longrightarrow> policy_inv {} (policy_run env ops s)"
  unfolding policy_run_def by (induction ops arbitrary: s) (auto simp: policy_step_inv)

lemma policy_inv_empty: "policy_inv {} (empty_policy q a)"
  by (simp add: policy_inv_defs empty_policy_def indexed_def tidy_def members_def)

lemma new_policy_inv:
  assumes "new_policy env qa aa = Inr s"
  obtains q a where "s = snd (readMonotonicNow env None (empty_policy q a))" "policy_inv {} s"
    "rp_queueCapacity s = q" "rp_activeCapacity s = a" "resolveQueueCapacity qa = Inr q" "resolveActiveCapacity aa q = Inr a"
    "rp_queue s = []" "rp_active s = []"
proof -
  obtain q a now where s: "resolveQueueCapacity qa = Inr q" "resolveActiveCapacity aa q = Inr a"
    "readMonotonicNow env None (empty_policy q a) = (Inr now, s)"
    using assms by (auto simp: new_policy_def split: sum.splits prod.splits)
  then have "s = tick env (empty_policy q a)"
    by (auto simp: readMonotonicNow_def tick_def observe_def exec_simps split: if_splits)
  then have "policy_inv {} s" "rp_queueCapacity s = q" "rp_activeCapacity s = a" "rp_queue s = []" "rp_active s = []"
    by (simp_all add: policy_inv_empty) (simp_all add: empty_policy_def)
  moreover have "s = snd (readMonotonicNow env None (empty_policy q a))" using s(3) by simp
  ultimately show ?thesis using s(1,2) that by blast
qed

lemma capacity_range:
  assumes "validateCapacity v = Inr q" shows "1 \<le> q \<and> q \<le> DEFAULT_QUEUE_CAPACITY"
proof -
  obtain x where v: "v = Fin x" "of_int \<lfloor>x\<rfloor> = x" "\<not> x < 1" "\<not> of_nat DEFAULT_QUEUE_CAPACITY < x" "q = nat \<lfloor>x\<rfloor>"
    using assms by (cases v) (auto simp: validateCapacity_def split: if_splits)
  then show ?thesis by (auto simp: le_nat_iff DEFAULT_QUEUE_CAPACITY_def)
qed

definition same_capacities :: "'v policy \<Rightarrow> 'v policy \<Rightarrow> bool" where
  "same_capacities s t \<longleftrightarrow> rp_queueCapacity t = rp_queueCapacity s \<and> rp_activeCapacity t = rp_activeCapacity s"

interpretation capacities: step_contract same_capacities
  by unfold_locales (simp_all add: same_capacities_def)

lemma capacities_keeps: "obeys keeps m \<Longrightarrow> obeys same_capacities m"
  by (erule obeys_mono) (simp add: keeps_def same_capacities_def)

lemmas capacities_primitive =
  capacities_keeps [OF keeps_readMonotonicNow] capacities_keeps [OF keeps_removeRecord]
  capacities_keeps [OF keeps_markExpired] capacities_keeps [OF keeps_expire]

lemma capacities_alter: "obeys same_capacities (alter t f)"
  unfolding alter_def by (rule capacities.modE) (simp add: same_capacities_def)

lemma capacities_register: "obeys same_capacities (registerRecord r)"
  unfolding registerRecord_def by (rule capacities.modE) (simp add: same_capacities_def)

lemma capacities_claimRecord: "obeys same_capacities (claimRecord env t)"
  unfolding claimRecord_def load_def runnable_now_def
  by (intro capacities.closure capacities.modE capacities_primitive capacities_alter) (simp_all add: same_capacities_def)

lemma capacities_createRecord: "obeys same_capacities (createRecord env e)"
  unfolding createRecord_def
  by (intro capacities.closure capacities.modE prod.case_cong)
    (auto simp: same_capacities_def intro!: capacities.closure capacities.modE split: prod.split sum.split)

lemma capacities_dequeue_loop: "obeys same_capacities (dequeue_loop env n)"
proof (induction n)
  case (Suc n)
  show ?case
    unfolding dequeue_loop.simps
    apply (intro capacities.bindE capacities.getE)
    subgoal for queue
      by (cases queue)
        (auto intro!: capacities.closure capacities.modE capacities_primitive capacities_claimRecord Suc.IH simp: same_capacities_def)
    done
qed (simp add: capacities.ret)

lemmas capacities_closed = capacities.closure capacities.modE capacities_primitive capacities_alter capacities_register
  capacities_claimRecord capacities_createRecord capacities_dequeue_loop
lemmas policy_reads = load_def runnable_now_def cancellation_seen_def busyDecision_def expire_resolved_def

lemma capacities_admit: "obeys same_capacities (admit env e i now)"
  unfolding admit_def admit_now_def admit_queued_def policy_reads
  by (intro capacities_closed) (simp_all add: same_capacities_def)

lemma capacities_dequeue: "obeys same_capacities (dequeue env now)"
  unfolding dequeue_def policy_reads by (intro capacities_closed)

lemma lookup_cases:
  "(\<And>t. v = Found t \<Longrightarrow> P (f t)) \<Longrightarrow> (v = Not_found \<Longrightarrow> P a) \<Longrightarrow> (v = Ambiguous \<Longrightarrow> P b) \<Longrightarrow>
   P (case v of Found t \<Rightarrow> f t | Not_found \<Rightarrow> a | Ambiguous \<Rightarrow> b)"
  by (cases v) auto

lemma capacities_release: "obeys same_capacities (release target q)"
  unfolding release_def policy_reads
  by (intro capacities_closed lookup_cases [where P = "obeys same_capacities"])

lemma capacities_cancelRecord: "obeys same_capacities (cancelRecord env t)"
  unfolding cancelRecord_def cancel_active_def cancel_waiting_def cancel_queued_def policy_reads
  by (intro capacities_closed)

lemma capacities_cancel: "obeys same_capacities (cancel env target q)"
  unfolding cancel_def
  by (intro capacities_closed capacities_cancelRecord lookup_cases [where P = "obeys same_capacities"])

lemma capacities_cancelByRequestId: "obeys same_capacities (cancelByRequestId env q)"
  unfolding cancelByRequestId_def
  by (intro capacities_closed capacities_cancelRecord)
    (auto intro: capacities_closed capacities_cancelRecord split: list.split)

lemma capacities_isRunnable: "obeys same_capacities (isRunnable env target now)"
  unfolding isRunnable_def policy_reads
  by (intro capacities_closed lookup_cases [where P = "obeys same_capacities"])

lemma capacities_peek: "obeys same_capacities (peek env now)"
  unfolding peek_def policy_reads by (intro capacities_closed)

lemma capacities_step: "same_capacities s (policy_step env op s)"
  by (cases op)
    (simp_all add: obeysD capacities_primitive capacities_admit capacities_dequeue capacities_release capacities_cancel
      capacities_cancelByRequestId capacities_isRunnable capacities_peek)

lemma policy_run_capacities: "same_capacities s (policy_run env ops s)"
  unfolding policy_run_def
proof (induction ops arbitrary: s)
  case (Cons op ops)
  then show ?case using capacities_step [of s env op] Cons.IH [of "policy_step env op s"] by (simp add: same_capacities_def)
qed (simp add: capacities.refl)

text \<open>C22: whatever calls are made of a routing policy, with whatever entries, cancellations and times, and
  however late the clock is: the queue and the active leases stay within their capacities, of at most 32 each, no
  record is in both or twice in one; each of the four indexes, by handle, by entry object, by entry id and by
  request id, resolves to exactly the retained records that carry the key; a record holds a lease exactly when it
  is active; and no expiry is reported twice.\<close>

theorem routing_policy_bounded_and_indexed:
  assumes "steady env" and "new_policy env queueAliases activeAliases = Inr s0"
    and "s = policy_run env ops s0"
  shows "length (rp_queue s) \<le> rp_queueCapacity s0 \<and> length (rp_active s) \<le> rp_activeCapacity s0 \<and>
    rp_queueCapacity s0 \<le> 32 \<and> rp_activeCapacity s0 \<le> 32 \<and>
    distinct (rp_queue s @ rp_active s) \<and>
    (\<forall>h t. rp_handles s h = Some t \<longleftrightarrow>
       t \<in> set (rp_queue s @ rp_active s) \<and> map_option qr_handle (rp_heap s t) = Some h) \<and>
    (\<forall>k. members (rp_entries s) k =
       {t \<in> set (rp_queue s @ rp_active s). \<exists>r. rp_heap s t = Some r \<and> en_ref (qr_entry r) = k}) \<and>
    (\<forall>k. members (rp_entryIds s) k =
       {t \<in> set (rp_queue s @ rp_active s). \<exists>r. rp_heap s t = Some r \<and> en_id (qr_entry r) = Some k}) \<and>
    (\<forall>k. members (rp_requestIds s) k =
       {t \<in> set (rp_queue s @ rp_active s). \<exists>r. rp_heap s t = Some r \<and> en_requestId (qr_entry r) = Some k}) \<and>
    (\<forall>t r. rp_heap s t = Some r \<longrightarrow> (qr_lease r \<longleftrightarrow> t \<in> set (rp_active s))) \<and>
    distinct (rp_expiredLog s)"
proof -
  obtain q a where s0: "policy_inv {} s0" "rp_queueCapacity s0 = q" "rp_activeCapacity s0 = a"
    "resolveQueueCapacity queueAliases = Inr q" "resolveActiveCapacity activeAliases q = Inr a"
    using new_policy_inv [OF assms(2)] by metis
  have small: "q \<le> 32" "a \<le> 32"
    using s0(4,5) capacity_range by (auto simp: resolveQueueCapacity_def resolveActiveCapacity_def DEFAULT_QUEUE_CAPACITY_def split: sum.splits)
  have inv: "policy_inv {} s" using policy_run_inv [OF assms(1) s0(1)] assms(3) by simp
  have caps: "same_capacities s0 s" using policy_run_capacities assms(3) by simp
  have reg: "registered {} s = set (rp_queue s @ rp_active s)" by (auto simp: registered_def)
  have leases: "\<forall>t r. rp_heap s t = Some r \<longrightarrow> (qr_lease r \<longleftrightarrow> t \<in> set (rp_active s))"
    using inv by (simp add: policy_inv_def heap_ok_def)
  have rest: "lists_ok {} s \<and> indexes_ok (set (rp_queue s @ rp_active s)) s \<and> log_ok s"
    using inv reg by (simp add: policy_inv_def)
  show ?thesis
    using rest leases caps small s0(2,3)
    unfolding lists_ok_def indexes_ok_def indexed_def log_ok_def same_capacities_def
    by (simp add: map_option_case split: option.split)
qed

text \<open>A concrete environment, in which the clock advances by one millisecond per reading.\<close>

definition plain_view :: entry_view where
  "plain_view = \<lparr>ev_cancelled = False, ev_aborted = False, ev_state = None, ev_runnable = None,
     ev_signalAborted = False, ev_isCancelled = False\<rparr>"

definition calm_env :: policy_env where
  "calm_env = \<lparr>re_clock = (\<lambda>i. Fin (of_nat i)), re_view = (\<lambda>_ _. plain_view), re_parse = (\<lambda>_. None),
     re_uuid = (\<lambda>i. replicate i CHR ''x''), re_retryAfterMs = None\<rparr>"

definition calm_entry :: "nat \<Rightarrow> rat \<Rightarrow> nat queue_entry" where
  "calm_entry n deadline = \<lparr>en_ref = n, en_id = None, en_requestId = Some ''r'', en_value = n,
     en_expiresAt = QD_number (Fin deadline)\<rparr>"

lemma steady_calm: "steady calm_env"
  by (simp add: steady_def calm_env_def)

lemma new_calm:
  "new_policy calm_env [] [Some (Fin 1)] =
     Inr ((empty_policy 32 1 :: nat policy)\<lparr>rp_lastObservedNow := Fin 0, rp_reads := 1\<rparr>)"
  by (simp add: new_policy_def resolveQueueCapacity_def resolveActiveCapacity_def resolveConfiguredCapacity_def
      validateCapacity_def validateRetryAfterMs_def readMonotonicNow_def calm_env_def exec_simps
      DEFAULT_QUEUE_CAPACITY_def max_safe_integer_def empty_policy_def map_filter_simps)

theorem routing_policy_bounded_and_indexed_witness:
  "\<exists>s0. new_policy calm_env [] [Some (Fin 1)] = Inr s0 \<and>
     length (rp_queue (policy_run calm_env [Op_admit (calm_entry 1 9) False None, Op_dequeue None] s0)) \<le> rp_queueCapacity s0"
  using routing_policy_bounded_and_indexed [OF steady_calm new_calm refl] new_calm by blast

end
