(* ===== verification/Routing_Expiry.thy ===== *)
theory Routing_Expiry
  imports Routing_Invariant
begin

text \<open>
  Why a record leaves the routing policy.  The first part ties the expiry mark to the clock: a record is marked
  only when its deadline has been reached by a time the policy has observed.  The second part is about the queue:
  a record is dropped from it by expiry or by \<open>dequeue\<close> only when it could not run.
\<close>

section \<open>The expiry mark\<close>

text \<open>The observed time is a number once the clock was read, and every marked record has reached its deadline.\<close>

definition timely :: "'v policy \<Rightarrow> bool" where
  "timely s \<longleftrightarrow> (rp_lastObservedNow s = NegInf \<or> is_finite (rp_lastObservedNow s)) \<and>
     (\<forall>t r. rp_heap s t = Some r \<and> qr_expired r \<longrightarrow> Fin (qr_deadline r) \<le> rp_lastObservedNow s)"

definition reached :: "rat \<Rightarrow> 'v policy \<Rightarrow> bool" where
  "reached n s \<longleftrightarrow> Fin n \<le> rp_lastObservedNow s"

definition forward :: "'v policy \<Rightarrow> 'v policy \<Rightarrow> bool" where
  "forward s u \<longleftrightarrow> rp_reads s \<le> rp_reads u \<and> (\<forall>q. reached q s \<longrightarrow> reached q u)"

lemma forward_trans: "forward s t \<Longrightarrow> forward t u \<Longrightarrow> forward s u"
  by (auto simp: forward_def)

lemma Fin_le_trans: "Fin p \<le> (v :: jsnum) \<Longrightarrow> \<not> w < v \<Longrightarrow> is_finite w \<Longrightarrow> Fin p \<le> w"
  by (cases v; cases w) auto

lemma Fin_le_mono: "p \<le> q \<Longrightarrow> Fin q \<le> (v :: jsnum) \<Longrightarrow> Fin p \<le> v"
  by (cases v) auto

lemma reached_mono: "p \<le> q \<Longrightarrow> reached q s \<Longrightarrow> reached p s"
  unfolding reached_def by (rule Fin_le_mono)

text \<open>
  The steps that keep what is known of a state, when the time \<open>n\<close> has been observed before them.  What is known is
  that the state is timely, or besides that the record \<open>t\<close> was read as \<open>r\<close>.
\<close>

definition knows :: "nat \<Rightarrow> 'v queue_record \<Rightarrow> 'v policy \<Rightarrow> bool" where
  "knows t r s \<longleftrightarrow> timely s \<and> (\<exists>x. rp_heap s t = Some x \<and> qr_deadline x = qr_deadline r) \<and>
     (qr_expired r \<longrightarrow> reached (qr_deadline r) s)"

definition keeping :: "('v policy \<Rightarrow> bool) \<Rightarrow> 'v policy \<Rightarrow> 'v policy \<Rightarrow> bool" where
  "keeping P s u \<longleftrightarrow> forward s u \<and> (P s \<longrightarrow> P u)"

definition keeping_from :: "rat \<Rightarrow> ('v policy \<Rightarrow> bool) \<Rightarrow> 'v policy \<Rightarrow> 'v policy \<Rightarrow> bool" where
  "keeping_from n P s u \<longleftrightarrow> forward s u \<and> (P s \<and> reached n s \<longrightarrow> P u)"

interpretation keeping: step_contract "keeping P" for P
  by unfold_locales (auto simp: keeping_def forward_def)

interpretation onward: step_contract "keeping_from n P" for n P
  by unfold_locales (auto simp: keeping_from_def forward_def)

lemma keeping_since: "obeys (keeping P) m \<Longrightarrow> obeys (keeping_from n P) m"
  by (erule obeys_mono) (auto simp: keeping_def keeping_from_def)

definition reading :: "policy_env \<Rightarrow> jsnum option \<Rightarrow> 'v policy \<Rightarrow> jsnum" where
  "reading env now s = (case now of Some v \<Rightarrow> v | None \<Rightarrow> re_clock env (rp_reads s))"

definition counted :: "jsnum option \<Rightarrow> 'v policy \<Rightarrow> 'v policy" where
  "counted now s = (case now of Some _ \<Rightarrow> s | None \<Rightarrow> s\<lparr>rp_reads := Suc (rp_reads s)\<rparr>)"

lemma readMonotonicNow_eq:
  "readMonotonicNow env now s =
     (if is_finite (reading env now s)
      then (Inr (observed (observe (reading env now s) (counted now s))), observe (reading env now s) (counted now s))
      else (Inl queue_time_error, counted now s))"
  by (cases now) (simp_all add: readMonotonicNow_def observe_def observed_def reading_def counted_def exec_simps)

lemma forward_observe: "is_finite v \<Longrightarrow> forward s (observe v s)"
  by (auto simp: forward_def reached_def observe_def intro: Fin_le_trans)

lemma forward_counted: "forward s (counted now s)"
  by (simp add: forward_def reached_def counted_def split: option.split)

lemma timely_counted [simp]: "timely (counted now s) = timely s"
  by (simp add: timely_def counted_def split: option.split)

lemma counted_fields [simp]: "rp_heap (counted now s) = rp_heap s" "rp_queue (counted now s) = rp_queue s"
  "rp_active (counted now s) = rp_active s"
  by (simp_all add: counted_def split: option.split)

lemma timely_observe: "is_finite v \<Longrightarrow> timely s \<Longrightarrow> timely (observe v s)"
  unfolding timely_def by (auto simp: observe_def intro: Fin_le_trans)

lemma reached_observe: "is_finite v \<Longrightarrow> timely s \<Longrightarrow> reached (observed (observe v s)) (observe v s)"
  by (auto simp: timely_def reached_def observed_def observe_def is_finite_iff)

text \<open>What survives a reading of the clock.\<close>

definition clock_proof :: "('v policy \<Rightarrow> bool) \<Rightarrow> bool" where
  "clock_proof P \<longleftrightarrow> (\<forall>s now. P s \<longrightarrow> timely s \<and> P (counted now s)) \<and>
     (\<forall>s v. P s \<and> is_finite v \<longrightarrow> P (observe v s))"

lemma clock_proof_timely: "clock_proof timely"
  by (simp add: clock_proof_def timely_observe)

lemma clock_proof_knows: "clock_proof (knows t r)"
proof -
  have "is_finite v \<Longrightarrow> reached q s \<Longrightarrow> reached q (observe v s)" "reached q s \<Longrightarrow> reached q (counted now s)"
    for v q now and s :: "'a policy"
    using forward_observe forward_counted unfolding forward_def by blast+
  then show ?thesis by (simp add: clock_proof_def knows_def timely_observe)
qed

lemma keeping_read_bind:
  assumes P: "clock_proof P" and k: "\<And>n. obeys (keeping_from n P) (k n)"
  shows "obeys (keeping P) (bindE (readMonotonicNow env now) k)"
proof (rule obeysI)
  fix s :: "'a policy"
  let ?u = "observe (reading env now s) (counted now s)"
  have fin: "forward s ?u \<and> (P s \<longrightarrow> P ?u \<and> reached (observed ?u) ?u)" if "is_finite (reading env now s)"
    using that P forward_trans [OF forward_counted forward_observe] reached_observe [of "reading env now s" "counted now s"]
    unfolding clock_proof_def by (metis timely_counted)
  moreover have "forward s (counted now s) \<and> (P s \<longrightarrow> P (counted now s))"
    using P forward_counted by (simp add: clock_proof_def)
  ultimately show "keeping P s (snd (bindE (readMonotonicNow env now) k s))"
    using obeysD [OF k, of "observed ?u" ?u] forward_trans
    by (auto simp: keeping_def keeping_from_def bindE_apply readMonotonicNow_eq)
qed

lemma bindE_ret_right: "bindE m ret = m"
  by (simp add: fun_eq_iff bindE_def ret_def split: prod.split sum.split)

lemma keeping_read: "clock_proof P \<Longrightarrow> obeys (keeping P) (readMonotonicNow env now)"
  using keeping_read_bind [of P ret env now, OF _ onward.ret] by (simp add: bindE_ret_right)

lemma keeping_from_read_bind:
  "clock_proof P \<Longrightarrow> (\<And>n. obeys (keeping_from n P) (k n)) \<Longrightarrow>
   obeys (keeping_from m P) (bindE (readMonotonicNow env now) k)"
  by (rule keeping_since [OF keeping_read_bind])

text \<open>Reading a record.\<close>

lemma keeping_load_bind:
  assumes "\<And>r. obeys (keeping (knows t r)) (k (Some r))" and "obeys (keeping timely) (k None)"
  shows "obeys (keeping timely) (bindE (load t) k)"
proof (rule obeysI)
  fix s
  show "keeping timely s (snd (bindE (load t) k s))"
  proof (cases "rp_heap s t")
    case None
    then show ?thesis using obeysD [OF assms(2)] by (simp add: load_def bindE_getE)
  next
    case (Some r)
    have "timely s \<Longrightarrow> knows t r s" using Some by (auto simp: knows_def timely_def reached_def)
    then show ?thesis using Some obeysD [OF assms(1), of r s] by (auto simp: load_def bindE_getE keeping_def knows_def)
  qed
qed

lemma keeping_from_load_bind:
  assumes "\<And>r. obeys (keeping_from n (knows t r)) (k (Some r))" and "obeys (keeping_from n timely) (k None)"
  shows "obeys (keeping_from n timely) (bindE (load t) k)"
proof (rule obeysI)
  fix s
  show "keeping_from n timely s (snd (bindE (load t) k s))"
  proof (cases "rp_heap s t")
    case None
    then show ?thesis using obeysD [OF assms(2)] by (simp add: load_def bindE_getE)
  next
    case (Some r)
    have "timely s \<Longrightarrow> knows t r s" using Some by (auto simp: knows_def timely_def reached_def)
    then show ?thesis using Some obeysD [OF assms(1), of r s] by (auto simp: load_def bindE_getE keeping_from_def knows_def)
  qed
qed

text \<open>Primitive steps.\<close>

definition record_proof :: "('v policy \<Rightarrow> bool) \<Rightarrow> bool" where
  "record_proof P \<longleftrightarrow> (P = timely \<or> (\<exists>t r. P = knows t r))"

lemma keeping_removeRecord: "record_proof P \<Longrightarrow> obeys (keeping P) (removeRecord v)"
  unfolding removeRecord_def
  by (rule keeping.modE)
    (auto simp: record_proof_def keeping_def forward_def timely_def knows_def reached_def removed_def split: option.splits)

lemma keeping_alter:
  assumes "record_proof P" and f: "\<And>r. qr_expired (f r) = qr_expired r \<and> qr_deadline (f r) = qr_deadline r"
  shows "obeys (keeping P) (alter v f)"
proof -
  have t: "timely (s\<lparr>rp_heap := (rp_heap s)(v := map_option f (rp_heap s v))\<rparr>)" if "timely s" for s :: "'a policy"
    using that f unfolding timely_def by (auto split: if_splits)
  show ?thesis
    unfolding alter_def
  proof (rule keeping.modE)
    fix s :: "'a policy"
    show "keeping P s (s\<lparr>rp_heap := (rp_heap s)(v := map_option f (rp_heap s v))\<rparr>)"
      using assms(1) t [of s] f by (auto simp: record_proof_def keeping_def forward_def knows_def reached_def)
  qed
qed

lemma from_markExpired:
  "qr_deadline r \<le> n \<or> qr_expired r \<Longrightarrow> obeys (keeping_from n (knows t r)) (markExpired t)"
  unfolding markExpired_def
  by (rule onward.modE)
    (auto simp: keeping_from_def forward_def timely_def knows_def reached_def intro: Fin_le_mono split: option.splits)

lemma keeping_known: "obeys (keeping_from n (knows t r)) m \<Longrightarrow> qr_deadline r \<le> n \<or> qr_expired r \<Longrightarrow>
   obeys (keeping_from n (knows t r)) (thenE m (thenE (markExpired t) (ret x)))"
  by (intro onward.thenE onward.ret from_markExpired)

lemma record_proofs: "record_proof timely" "record_proof (knows t r)"
  by (auto simp: record_proof_def)

lemmas keeping_primitive = keeping_since [OF keeping_removeRecord] keeping_since [OF keeping_alter]
  keeping_removeRecord keeping_alter keeping_known record_proofs
  keeping_read [OF clock_proof_timely] keeping_read [OF clock_proof_knows]

lemma from_expire_queued: "obeys (keeping_from now timely) (expire_queued env now t)"
  unfolding expire_queued_def runnable_now_def
  by (rule keeping_from_load_bind)
    (auto intro!: onward.closure keeping_primitive simp: option.case)

lemma from_expire_active: "obeys (keeping_from now timely) (expire_active now t)"
  unfolding expire_active_def
  by (rule keeping_from_load_bind) (auto intro!: onward.closure from_markExpired)

lemma from_expire_at: "obeys (keeping_from now timely) (expire_at env now)"
  unfolding expire_at_def by (intro onward.closure from_expire_queued from_expire_active)

lemma keeping_expire: "obeys (keeping timely) (expire env now)"
  unfolding expire_def by (intro keeping_read_bind clock_proof_timely from_expire_at)

lemma keeping_createRecord_bind:
  assumes "\<And>r. \<not> qr_expired r \<Longrightarrow> obeys (keeping timely) (k r)"
  shows "obeys (keeping timely) (bindE (createRecord env entry) k)"
proof (rule obeysI)
  fix s :: "'a policy"
  have frame: "forward s (s\<lparr>rp_uuids := i\<rparr>)" "forward s (s\<lparr>rp_uuids := i, rp_nextToken := n\<rparr>)"
    "timely (s\<lparr>rp_uuids := i\<rparr>) = timely s" "timely (s\<lparr>rp_uuids := i, rp_nextToken := n\<rparr>) = timely s" for i n
    by (simp_all add: forward_def reached_def timely_def)
  have after: "keeping timely s (snd (k r (s\<lparr>rp_uuids := i, rp_nextToken := n\<rparr>)))" if "\<not> qr_expired r" for r i n
    using obeysD [OF assms [OF that], of "s\<lparr>rp_uuids := i, rp_nextToken := n\<rparr>"] frame(2) [of n i] frame(4) forward_trans
    unfolding keeping_def by blast
  show "keeping timely s (snd (bindE (createRecord env entry) k s))"
    using after frame keeping.refl
    by (auto simp: createRecord_def exec_simps keeping_def split: option.split prod.split sum.split)
qed

lemma keeping_registerRecord: "\<not> qr_expired r \<Longrightarrow> obeys (keeping timely) (registerRecord r)"
  unfolding registerRecord_def
  by (rule keeping.modE) (auto simp: keeping_def forward_def timely_def reached_def)

lemma keeping_lists: "obeys (keeping timely) (modE (\<lambda>s. s\<lparr>rp_queue := f s\<rparr>))" "obeys (keeping timely) (modE (\<lambda>s. s\<lparr>rp_active := f s\<rparr>))"
  by (auto intro!: keeping.modE simp: keeping_def forward_def timely_def reached_def)

lemma keeping_read_only: "(\<And>n. obeys (keeping timely) (k n)) \<Longrightarrow> obeys (keeping timely) (bindE (readMonotonicNow env now) k)"
  by (rule keeping_read_bind [OF clock_proof_timely keeping_since])

lemma keeping_load: "obeys (keeping P) (load t)"
  unfolding load_def by (rule keeping.getE)

lemma keeping_claimRecord: "obeys (keeping timely) (claimRecord env t)"
  unfolding claimRecord_def runnable_now_def
  by (intro keeping.closure keeping_load keeping_read_only keeping_primitive keeping_lists) simp

lemma keeping_late: "obeys (keeping timely) m \<Longrightarrow>
  obeys (keeping timely) (bindE (getE (\<lambda>s. case rp_heap s t of
       None \<Rightarrow> False | Some r \<Rightarrow> Fin (qr_deadline r) \<le> rp_lastObservedNow s \<or> qr_expired r))
     (\<lambda>late. thenE (whenE late (markExpired t)) m))"
proof (rule obeys_getE_bind)
  fix s :: "'a policy"
  let ?late = "case rp_heap s t of
       None \<Rightarrow> False | Some r \<Rightarrow> Fin (qr_deadline r) \<le> rp_lastObservedNow s \<or> qr_expired r"
  assume m: "obeys (keeping timely) m"
  have "keeping timely s (snd (whenE ?late (markExpired t) s))"
    by (auto simp: whenE_def markExpired_def modE_def ret_def keeping_def forward_def timely_def reached_def split: option.split)
  moreover have "fst (whenE ?late (markExpired t) s) = Inr ()"
    by (simp add: whenE_def markExpired_def modE_def ret_def)
  ultimately show "keeping timely s (snd (thenE (whenE ?late (markExpired t)) m s))"
    using keeping.trans [OF _ obeysD [OF m]] by (cases "whenE ?late (markExpired t) s") (simp add: thenE_def bindE_apply)
qed

lemma queue_cases: "obeys R a \<Longrightarrow> (\<And>x xs. obeys R (f x xs)) \<Longrightarrow> obeys R (case ys of [] \<Rightarrow> a | x # xs \<Rightarrow> f x xs)"
  by (cases ys) auto

lemma keeping_dequeue_loop: "obeys (keeping timely) (dequeue_loop env n)"
proof (induction n)
  case (Suc n)
  show ?case
    unfolding dequeue_loop.simps
    by (intro keeping.closure keeping_lists keeping_claimRecord keeping_late keeping_primitive queue_cases Suc)
qed (simp add: keeping.ret)

lemmas keeping_steps = keeping.closure keeping_lists keeping_claimRecord keeping_primitive keeping_registerRecord
  keeping_expire queue_cases

lemma keeping_admit: "obeys (keeping timely) (admit env entry imm now)"
  unfolding admit_def admit_now_def admit_queued_def expire_resolved_def runnable_now_def busyDecision_def
  by (intro keeping_read_only keeping_createRecord_bind keeping_steps) simp_all

lemma keeping_dequeue: "obeys (keeping timely) (dequeue env now)"
  unfolding dequeue_def expire_resolved_def by (intro keeping_read_only keeping_steps keeping_dequeue_loop)

lemma keeping_release: "obeys (keeping timely) (release target q)"
  unfolding release_def policy_reads by (intro keeping_steps lookup_cases [where P = "obeys (keeping timely)"])

lemma keeping_cancel_queued: "record_proof P \<Longrightarrow> obeys (keeping P) (cancel_queued t r)"
  unfolding cancel_queued_def by (intro keeping.closure keeping_removeRecord keeping_alter) simp_all

lemma from_marked:
  "qr_deadline r \<le> n \<or> qr_expired r \<Longrightarrow> obeys (keeping_from n (knows t r)) (thenE (markExpired t) (ret x))"
  by (intro onward.thenE onward.ret from_markExpired)

lemma keeping_cancel_active: "obeys (keeping (knows t r)) (cancel_active env t r)"
  unfolding cancel_active_def cancellation_seen_def
  by (rule keeping_read_bind [OF clock_proof_knows])
    (intro onward.if_cases, blast intro: from_marked, intro onward.closure keeping_since [OF keeping_alter] record_proofs, simp_all)

lemma keeping_cancel_waiting: "obeys (keeping (knows t r)) (cancel_waiting env t r)"
  unfolding cancel_waiting_def cancellation_seen_def runnable_now_def
  by (intro keeping.closure keeping_read_bind [OF clock_proof_knows] keeping_cancel_queued record_proofs onward.if_cases)
    (auto intro!: onward.closure keeping_since [OF keeping_removeRecord] keeping_since [OF keeping_cancel_queued]
      record_proofs from_markExpired)

lemma keeping_cancelRecord: "obeys (keeping timely) (cancelRecord env t)"
  unfolding cancelRecord_def
  by (rule keeping_load_bind)
    (auto intro!: keeping_read_bind [OF clock_proof_knows] onward.closure from_markExpired keeping.ret
      keeping_since [OF keeping_removeRecord] keeping_since [OF keeping_cancel_active]
      keeping_since [OF keeping_cancel_waiting] record_proofs)

lemma keeping_cancel: "obeys (keeping timely) (cancel env target q)"
  unfolding cancel_def by (intro keeping.closure keeping_cancelRecord lookup_cases [where P = "obeys (keeping timely)"])

lemma keeping_cancelByRequestId: "obeys (keeping timely) (cancelByRequestId env q)"
  unfolding cancelByRequestId_def
  by (intro keeping.closure keeping_cancelRecord) (auto intro: keeping.closure keeping_cancelRecord split: list.split)

lemma keeping_isRunnable: "obeys (keeping timely) (isRunnable env target now)"
  unfolding isRunnable_def policy_reads
  by (intro keeping_read_only keeping_steps lookup_cases [where P = "obeys (keeping timely)"])

lemma keeping_peek: "obeys (keeping timely) (peek env now)"
  unfolding peek_def policy_reads by (intro keeping_read_only keeping_steps)

lemma keeping_step: "keeping timely s (policy_step env op s)"
  by (cases op)
    (simp_all add: obeysD keeping_admit keeping_dequeue keeping_release keeping_cancel keeping_cancelByRequestId
      keeping_isRunnable keeping_peek keeping_expire)

lemma timely_run: "timely s \<Longrightarrow> timely (policy_run env ops s)"
  unfolding policy_run_def
  by (induction ops arbitrary: s) (use keeping_step in \<open>auto simp: keeping_def\<close>)

lemma new_policy_timely:
  assumes "new_policy env queueAliases activeAliases = Inr s"
  shows "timely s"
proof -
  obtain q a n where "readMonotonicNow env None (empty_policy q a) = (Inr n, s)"
    using assms by (auto simp: new_policy_def split: sum.splits prod.splits)
  moreover have "timely (empty_policy q a)" by (simp add: timely_def empty_policy_def)
  ultimately show ?thesis
    using obeys_result [OF keeping_read [OF clock_proof_timely]] by (fastforce simp: keeping_def)
qed

section \<open>Records dropped from the queue\<close>

text \<open>
  Why a queued record could not run between two states: its deadline was reached by an observed time, or at one of
  the clock readings between them the caller's entry did not allow it.
\<close>

definition entry_blocked :: "entry_view \<Rightarrow> bool" where
  "entry_blocked v \<longleftrightarrow> ev_runnable v = Some False \<or> ev_cancelled v \<or> ev_aborted v \<or> ev_signalAborted v \<or> ev_isCancelled v \<or>
     ev_state v \<notin> {None, Some ''accepted'', Some ''queued''}"

definition could_not_run :: "policy_env \<Rightarrow> 'v queue_record \<Rightarrow> 'v policy \<Rightarrow> 'v policy \<Rightarrow> bool" where
  "could_not_run env r s u \<longleftrightarrow> Fin (qr_deadline r) \<le> rp_lastObservedNow u \<or>
     (\<exists>i. rp_reads s \<le> i \<and> i \<le> rp_reads u \<and> entry_blocked (re_view env (en_ref (qr_entry r)) i))"

lemma queued_not_runnable:
  assumes "\<not> isRunnableRecord r v now" and "qr_status r = RS_queued" "\<not> qr_expired r" "\<not> qr_cancellationRequested r"
  shows "qr_deadline r \<le> now \<or> entry_blocked v"
  using assms
  by (auto simp: isRunnableRecord_def isRunnableState_def isEntryCancellationRequested_def entry_blocked_def
      TASK_STATE_NAMES_def split: option.splits if_splits)

lemma could_not_run_mono:
  "forward s t \<Longrightarrow> forward u w \<Longrightarrow> could_not_run env r t u \<Longrightarrow> could_not_run env r s w"
  unfolding could_not_run_def forward_def reached_def by (meson order_trans)

lemma could_not_run_identity: "same_identity r r' \<Longrightarrow> could_not_run env r' s u = could_not_run env r s u"
  by (simp add: same_identity_def could_not_run_def)

definition clean :: "nat list \<Rightarrow> 'v policy \<Rightarrow> bool" where
  "clean a s \<longleftrightarrow> rp_active s = a \<and> distinct (rp_queue s @ a) \<and>
     (\<forall>v \<in> set (rp_queue s). \<exists>r. rp_heap s v = Some r \<and> qr_status r = RS_queued \<and> \<not> qr_expired r \<and> \<not> qr_cancellationRequested r)"

definition excused :: "policy_env \<Rightarrow> 'v policy \<Rightarrow> 'v policy \<Rightarrow> bool" where
  "excused env s u \<longleftrightarrow> (\<forall>v \<in> set (rp_queue s). \<forall>r. rp_heap s v = Some r \<longrightarrow>
     (v \<in> set (rp_queue u) \<and> (\<exists>r'. rp_heap u v = Some r' \<and> same_identity r r')) \<or> could_not_run env r s u)"

lemma excused_refl: "excused env s s"
  by (simp add: excused_def same_identity_def)

lemma excused_trans:
  assumes f: "forward s t" "forward t u" and st: "excused env s t" and tu: "excused env t u"
  shows "excused env s u"
  unfolding excused_def
proof (intro ballI allI impI)
  fix v r assume v: "v \<in> set (rp_queue s)" "rp_heap s v = Some r"
  have refl: "forward s s" for s :: "'a policy" by (simp add: forward_def)
  consider r' where "v \<in> set (rp_queue t)" "rp_heap t v = Some r'" "same_identity r r'" | "could_not_run env r s t"
    using st v unfolding excused_def by blast
  then show "(v \<in> set (rp_queue u) \<and> (\<exists>r'. rp_heap u v = Some r' \<and> same_identity r r')) \<or> could_not_run env r s u"
  proof cases
    case 1
    then consider r'' where "v \<in> set (rp_queue u)" "rp_heap u v = Some r''" "same_identity r' r''" | "could_not_run env r' t u"
      using tu unfolding excused_def by blast
    then show ?thesis
    proof cases
      case a: 1
      then have "same_identity r r''" using 1(3) by (simp add: same_identity_def)
      then show ?thesis using a by blast
    next
      case 2
      then show ?thesis using could_not_run_mono [OF f(1) refl] could_not_run_identity [OF 1(3)] by blast
    qed
  next
    case 2
    then show ?thesis using could_not_run_mono [OF refl f(2)] by blast
  qed
qed

definition orderly :: "policy_env \<Rightarrow> nat list \<Rightarrow> rat \<Rightarrow> 'v policy \<Rightarrow> 'v policy \<Rightarrow> bool" where
  "orderly env a n s u \<longleftrightarrow> forward s u \<and> (clean a s \<and> reached n s \<longrightarrow> clean a u \<and> excused env s u)"

interpretation orderly: step_contract "orderly env a n" for env a n
proof unfold_locales
  show "orderly env a n s s" for s :: "'a policy" by (simp add: orderly_def excused_refl forward_def)
  show "orderly env a n s t \<Longrightarrow> orderly env a n t u \<Longrightarrow> orderly env a n s u" for s t u :: "'a policy"
    unfolding orderly_def using excused_trans forward_trans by (meson forward_def)
qed

text \<open>Dropping one record.\<close>

lemma forward_same: "rp_reads u = rp_reads s \<Longrightarrow> rp_lastObservedNow u = rp_lastObservedNow s \<Longrightarrow> forward s u"
  by (simp add: forward_def reached_def)

lemma drop_one:
  assumes "clean a s" and "t \<notin> set a" and r: "rp_heap s t = Some r"
    and "t \<in> set (rp_queue s) \<Longrightarrow> could_not_run env r s u" and "rp_queue u = remove1 t (rp_queue s)" "rp_active u = rp_active s"
    and heap: "\<And>v. v \<noteq> t \<Longrightarrow> rp_heap u v = rp_heap s v"
  shows "clean a u \<and> excused env s u"
proof -
  have d: "distinct (rp_queue s)" using assms(1) by (simp add: clean_def)
  then have out: "t \<notin> set (rp_queue u)" using assms(5) by simp
  have sub: "set (rp_queue u) \<subseteq> set (rp_queue s)" using assms(5) set_remove1_subset by metis
  have "clean a u"
    unfolding clean_def
  proof (intro conjI ballI)
    show "rp_active u = a" "distinct (rp_queue u @ a)" using assms(1,5,6) sub by (auto simp: clean_def)
    fix v assume v: "v \<in> set (rp_queue u)"
    then have "v \<noteq> t" using out by blast
    then show "\<exists>r. rp_heap u v = Some r \<and> qr_status r = RS_queued \<and> \<not> qr_expired r \<and> \<not> qr_cancellationRequested r"
      using assms(1) v sub heap by (auto simp: clean_def)
  qed
  moreover have "excused env s u"
    unfolding excused_def
  proof (intro ballI allI impI)
    fix v x assume v: "v \<in> set (rp_queue s)" "rp_heap s v = Some x"
    show "(v \<in> set (rp_queue u) \<and> (\<exists>r'. rp_heap u v = Some r' \<and> same_identity x r')) \<or> could_not_run env x s u"
    proof (cases "v = t")
      case True
      then show ?thesis using v r assms(4) by simp
    next
      case False
      then show ?thesis using v heap assms(5) by (simp add: same_identity_def)
    qed
  qed
  ultimately show ?thesis ..
qed

lemma orderly_expire_queued:
  assumes "t \<notin> set a"
  shows "obeys (orderly env a now) (expire_queued env now t)"
proof (rule obeysI)
  fix s :: "'a policy"
  let ?u = "snd (expire_queued env now t s)"
  show "orderly env a now s ?u"
  proof (cases "rp_heap s t")
    case None
    then have "?u = s" by (simp add: expire_queued_def load_def exec_simps)
    then show ?thesis by (simp add: orderly.refl)
  next
    case (Some r)
    let ?v = "re_view env (en_ref (qr_entry r)) (rp_reads s)"
    consider "?u = s" | (drop) "?u \<noteq> s" "qr_deadline r \<le> now \<or> \<not> isRunnableRecord r ?v now"
      using Some by (cases "qr_deadline r \<le> now"; cases "isRunnableRecord r ?v now") (auto simp: expire_queued_def load_def runnable_now_def exec_simps)
    then show ?thesis
    proof cases
      case 1
      then show ?thesis by (simp add: orderly.refl)
    next
      case drop
      have u: "rp_reads ?u = rp_reads s" "rp_lastObservedNow ?u = rp_lastObservedNow s" "rp_active ?u = rp_active s \<or> t \<in> set (rp_active s)"
        "t \<in> set (rp_active s) \<or> rp_queue ?u = remove1 t (rp_queue s)" "\<And>v. v \<noteq> t \<Longrightarrow> rp_heap ?u v = rp_heap s v"
        using Some drop
        by (auto simp: expire_queued_def load_def runnable_now_def removeRecord_def removed_def markExpired_def exec_simps)
      show ?thesis
        unfolding orderly_def
      proof (intro conjI impI)
        show "forward s ?u" using u by (intro forward_same)
        assume pre: "clean a s \<and> reached now s"
        have out: "t \<notin> set (rp_active s)" using pre assms by (simp add: clean_def)
        have "could_not_run env r s ?u" if "t \<in> set (rp_queue s)"
        proof -
          have "qr_deadline r \<le> now \<or> entry_blocked ?v"
            using drop(2) queued_not_runnable [of r ?v now] that pre Some by (auto simp: clean_def)
          then show ?thesis
            using pre reached_mono [of "qr_deadline r" now s] u(1,2) by (auto simp: could_not_run_def reached_def)
        qed
        then have "clean a ?u \<and> excused env s ?u"
          using u(3,4,5) out pre by (intro drop_one [OF _ assms Some]) auto
        then show "clean a ?u" "excused env s ?u" by simp_all
      qed
    qed
  qed
qed

lemma queue_untouched:
  assumes "clean a s" and "rp_queue u = rp_queue s" "rp_active u = rp_active s"
    and "\<And>v. v \<in> set (rp_queue s) \<Longrightarrow> rp_heap u v = rp_heap s v"
  shows "clean a u \<and> excused env s u"
  using assms by (simp add: clean_def excused_def same_identity_def)

lemma markExpired_fields:
  "rp_reads (snd (markExpired t s)) = rp_reads s" "rp_lastObservedNow (snd (markExpired t s)) = rp_lastObservedNow s"
  "rp_active (snd (markExpired t s)) = rp_active s" "rp_queue (snd (markExpired t s)) = rp_queue s"
  "v \<noteq> t \<Longrightarrow> rp_heap (snd (markExpired t s)) v = rp_heap s v"
  by (auto simp: markExpired_def modE_def split: option.split)

lemma forward_marked: "forward s (snd (markExpired t s))"
  by (rule forward_same [OF markExpired_fields(1,2)])

lemma orderly_marked: "t \<in> set a \<Longrightarrow> obeys (orderly env a n) (markExpired t)"
proof (rule obeysI)
  fix s :: "'a policy"
  assume t: "t \<in> set a"
  let ?u = "snd (markExpired t s)"
  have "clean a ?u \<and> excused env s ?u" if "clean a s"
  proof -
    have "t \<notin> set (rp_queue s)" using t that by (auto simp: clean_def)
    then have "v \<in> set (rp_queue s) \<Longrightarrow> rp_heap ?u v = rp_heap s v" for v using markExpired_fields(5) by metis
    then show ?thesis using queue_untouched [OF that] markExpired_fields(3,4) by metis
  qed
  then show "orderly env a n s ?u" by (simp add: orderly_def forward_marked)
qed

lemma orderly_expire_active: "t \<in> set a \<Longrightarrow> obeys (orderly env a n) (expire_active now t)"
  unfolding expire_active_def load_def by (intro orderly.closure orderly_marked)

lemma policy_inv_clean: "policy_inv {} s \<Longrightarrow> clean (rp_active s) s"
  by (fastforce simp: clean_def policy_inv_def lists_ok_def heap_ok_def registered_def)

lemma forward_obeys: "obeys (keeping_from n P) m \<Longrightarrow> forward s (snd (m s))"
  unfolding obeys_def keeping_from_def by blast

lemma orderly_expire_at:
  "policy_inv {} s \<Longrightarrow> orderly env (rp_active s) now s (snd (expire_at env now s))"
proof -
  let ?a = "rp_active s" and ?actives = "\<lambda>from_queue :: 'a queue_entry list list. \<lambda>active. bindE (forE active (expire_active now))
     (\<lambda>from_active. ret (concat from_queue @ concat from_active))"
  assume inv: "policy_inv {} s"
  have actives: "obeys (orderly env ?a now) (bindE (getE rp_active) (?actives q))" for q
  proof (rule obeys_getE_bind)
    fix v :: "'a policy"
    show "orderly env ?a now v (snd (?actives q (rp_active v) v))"
    proof (cases "rp_active v = ?a")
      case True
      have "obeys (orderly env ?a now) (?actives q ?a)"
        by (intro orderly.closure orderly_expire_active) simp
      then show ?thesis unfolding True by (rule obeysD)
    next
      case False
      have "obeys (keeping_from now timely) (?actives q (rp_active v))"
        by (intro onward.closure from_expire_active)
      then show ?thesis using forward_obeys False by (fastforce simp: orderly_def clean_def)
    qed
  qed
  have "obeys (orderly env ?a now) (bindE (forE (rev (rp_queue s)) (expire_queued env now))
     (\<lambda>from_queue. bindE (getE rp_active) (?actives from_queue)))"
    using policy_inv_clean [OF inv]
    by (intro orderly.bindE orderly.forE orderly_expire_queued actives) (auto simp: clean_def)
  from obeysD [OF this, of s] show ?thesis by (simp add: expire_at_def bindE_getE)
qed

lemma excused_expire_at:
  "policy_inv {} s \<Longrightarrow> reached now s \<Longrightarrow> excused env s (snd (expire_at env now s)) \<and> forward s (snd (expire_at env now s))"
  using orderly_expire_at [where s = s and env = env and now = now] policy_inv_clean [where s = s] by (simp add: orderly_def)

text \<open>Reading the clock and expiring at that time.\<close>

lemma excused_read:
  assumes "readMonotonicNow env now s = (x, u)"
  shows "forward s u" and "excused env s u" and "timely s \<Longrightarrow> x = Inr n \<Longrightarrow> reached n u"
proof -
  show "forward s u" using obeys_result [OF keeping_read [OF clock_proof_timely] assms] by (simp add: keeping_def)
  have "rp_queue u = rp_queue s" "rp_heap u = rp_heap s" using assms by (auto simp: readMonotonicNow_eq split: if_splits)
  then show "excused env s u" by (simp add: excused_def same_identity_def)
  show "timely s \<Longrightarrow> x = Inr n \<Longrightarrow> reached n u"
    using assms reached_observe [of "reading env now s" "counted now s"] by (auto simp: readMonotonicNow_eq split: if_splits)
qed

lemma excused_expire_resolved:
  assumes "steady env" and inv: "policy_inv {} s" and "timely s" and "expire_resolved env n s = (x, u)"
  shows "forward s u \<and> excused env s u"
proof (cases "readMonotonicNow env (Some (Fin n)) s")
  case (Pair y t)
  note read = excused_read [OF Pair]
  have t: "policy_inv {} t" using hoare_both [OF readNow_inv [OF assms(1)] inv, of "Some (Fin n)"] Pair by simp
  show ?thesis
  proof (cases y)
    case (Inl e)
    then show ?thesis using assms(4) Pair read by (simp add: expire_resolved_def expire_def bindE_apply)
  next
    case (Inr m)
    then have "u = snd (expire_at env m t)" using assms(4) Pair by (simp add: expire_resolved_def expire_def bindE_apply)
    then show ?thesis
      using excused_expire_at [OF t read(3) [OF assms(3) Inr]] excused_trans read(1,2) forward_trans by metis
  qed
qed

lemma timely_expire_resolved: "timely s \<Longrightarrow> expire_resolved env n s = (x, u) \<Longrightarrow> timely u"
  using obeys_result [OF keeping_expire, of env "Some (Fin n)" s x u] by (simp add: expire_resolved_def keeping_def)

text \<open>The loop of \<open>dequeue\<close>: a record that was not leased could not run.\<close>

lemma forward_tick: "steady env \<Longrightarrow> forward s (tick env s)"
  using excused_read(1) readMonotonicNow_None by blast

lemma not_runnable_at:
  assumes "\<not> runnable_at env r s" and "timely s" and "is_finite (rp_lastObservedNow s)"
    and "qr_status r = RS_queued" "\<not> qr_expired r" "\<not> qr_cancellationRequested r"
  shows "could_not_run env r s s"
proof -
  have "qr_deadline r \<le> observed s \<or> entry_blocked (re_view env (en_ref (qr_entry r)) (rp_reads s))"
    using queued_not_runnable [OF _ assms(4-6)] assms(1) by (simp add: runnable_at_def)
  then show ?thesis using assms(3) by (auto simp: could_not_run_def observed_def is_finite_iff)
qed

lemma timely_marked:
  "timely s \<Longrightarrow> rp_heap s t = Some r \<Longrightarrow> Fin (qr_deadline r) \<le> rp_lastObservedNow s \<or> qr_expired r \<Longrightarrow>
   timely (snd (markExpired t s))"
  by (auto simp: timely_def markExpired_def modE_def)

lemma tick_time:
  assumes "steady env" and "timely s"
  shows "timely (tick env s)" and "is_finite (rp_lastObservedNow (tick env s))"
proof -
  have "keeping timely s (tick env s)"
    using obeysD [OF keeping_read [OF clock_proof_timely, where env = env and now = None], of s] by (simp add: readMonotonicNow_None [OF assms(1)])
  then show "timely (tick env s)" using assms(2) by (simp add: keeping_def)
  show "is_finite (rp_lastObservedNow (tick env s))"
  proof -
    obtain q where "re_clock env (rp_reads s) = Fin q" using assms(1) by (auto simp: steady_def is_finite_iff)
    then show ?thesis using assms(2) by (auto simp: tick_def observe_def timely_def is_finite_iff)
  qed
qed

lemma after_claim_time:
  assumes "steady env" and "timely s"
  shows "timely (after_claim env r s)" "is_finite (rp_lastObservedNow (after_claim env r s))" "forward s (after_claim env r s)"
  using tick_time [OF assms(1,2)] tick_time [OF assms(1) tick_time(1) [OF assms]] forward_tick [OF assms(1), of s]
    forward_trans [OF forward_tick [OF assms(1), of s] forward_tick [OF assms(1)]]
  by (simp_all add: after_claim_def)

lemma discarded_time:
  assumes "steady env" and "timely s" and "rp_heap s t = Some r"
  shows "timely (discarded env t r s) \<and> forward (after_claim env r s) (discarded env t r s)"
proof -
  let ?c = "after_claim env r s"
  let ?m = "if Fin (qr_deadline r) \<le> rp_lastObservedNow ?c \<or> qr_expired r then snd (markExpired t ?c) else ?c"
  have "timely ?m" using timely_marked [of ?c t r] after_claim_time(1) [OF assms(1,2)] assms(3) by simp
  moreover have "forward ?c ?m" by (simp add: forward_marked forward_same)
  moreover have "keeping timely ?m (snd (removeRecord t ?m))"
    by (rule obeysD [OF keeping_removeRecord]) (simp add: record_proof_def)
  ultimately have "timely (snd (removeRecord t ?m)) \<and> forward ?c (snd (removeRecord t ?m))"
    using forward_trans unfolding keeping_def by blast
  then show ?thesis by (simp add: discarded_def Let_def)
qed

lemma discarded_others:
  "v \<noteq> t \<Longrightarrow> rp_heap (discarded env t r s) v = rp_heap s v"
  by (auto simp: discarded_def Let_def removeRecord_def modE_def removed_def markExpired_def split: option.split)

lemma discarded_could_not_run:
  assumes "steady env" and "timely s" and "\<not> (runnable_at env r (tick env s) \<and> runnable_at env r (tick env (tick env s)))"
    and "qr_status r = RS_queued" "\<not> qr_expired r" "\<not> qr_cancellationRequested r"
  shows "could_not_run env r (after_claim env r s) (after_claim env r s)"
proof -
  have "\<not> runnable_at env r (after_claim env r s)" using assms(3) by (auto simp: after_claim_def)
  then show ?thesis
    using not_runnable_at after_claim_time(1,2) [OF assms(1,2)] assms(4-6) by blast
qed

text \<open>One turn of the loop that discards a record.\<close>

lemma discarded_effect:
  assumes "policy_inv {t} s" and "rp_heap s t = Some r"
  shows "rp_active (discarded env t r s) = rp_active s" and "rp_queue (discarded env t r s) = rp_queue s"
    and "rp_activeCapacity (discarded env t r s) = rp_activeCapacity s"
    and "v \<noteq> t \<Longrightarrow> rp_heap (discarded env t r s) v = rp_heap s v"
    and "\<exists>x. rp_heap (discarded env t r s) t = Some x \<and> qr_status x = RS_released"
proof -
  have "t \<notin> set (rp_active s)" "t \<notin> set (rp_queue s)" using assms(1) by (auto simp: policy_inv_def lists_ok_def)
  then show "rp_active (discarded env t r s) = rp_active s" "rp_queue (discarded env t r s) = rp_queue s"
    "rp_activeCapacity (discarded env t r s) = rp_activeCapacity s"
    "v \<noteq> t \<Longrightarrow> rp_heap (discarded env t r s) v = rp_heap s v"
    "\<exists>x. rp_heap (discarded env t r s) t = Some x \<and> qr_status x = RS_released"
    using assms(2)
    by (auto simp: discarded_def Let_def markExpired_def removeRecord_def modE_def removed_def remove1_idem)
qed

lemma excused_dequeue_loop:
  assumes "steady env" and "policy_inv {} s" and "timely s" and "dequeue_loop env n s = (Inr res, u)"
    and "v \<in> set (rp_queue s)" and "rp_heap s v = Some x"
  shows "v \<in> set (rp_queue u) \<or> (res \<noteq> None \<and> rp_active u = rp_active s @ [v]) \<or> could_not_run env x s u"
  using assms(2-)
proof (induction n arbitrary: s)
  case 0
  then show ?case by (simp add: ret_def)
next
  case (Suc n)
  obtain t rest where q: "rp_queue s = t # rest" using Suc.prems(4) by (cases "rp_queue s") auto
  then have "t \<in> registered {} s" by (simp add: registered_def)
  then obtain r where r: "rp_heap s t = Some r" using Suc.prems(1) by (auto simp: policy_inv_def heap_ok_def)
  let ?s = "s\<lparr>rp_queue := rest\<rparr>" and ?d = "discarded env t r (s\<lparr>rp_queue := rest\<rparr>)"
  have shifted: "policy_inv {t} ?s" by (rule policy_inv_shift [OF Suc.prems(1) q])
  have st: "timely ?s" "forward s ?s" using Suc.prems(2) by (auto simp: timely_def forward_same)
  have status: "qr_status r = RS_queued" "\<not> qr_expired r" "\<not> qr_cancellationRequested r"
    using policy_inv_clean [OF Suc.prems(1)] q r by (auto simp: clean_def)
  note step = Suc.prems(3) [unfolded dequeue_loop_step [OF assms(1) q r] Let_def]
  consider (full) "u = s"
    | (claim) "res \<noteq> None" "u = activated t r (tick env (tick env ?s))"
    | (skip) "\<not> (runnable_at env r (tick env ?s) \<and> runnable_at env r (tick env (tick env ?s)))" "dequeue_loop env n ?d = (Inr res, u)"
    using step by (auto split: if_splits)
  then show ?case
  proof cases
    case full
    then show ?thesis using Suc.prems(4) by simp
  next
    case claim
    then show ?thesis using Suc.prems(4) q by (auto simp: activated_def)
  next
    case skip
    have d: "timely ?d" "forward (after_claim env r ?s) ?d" using discarded_time [OF assms(1) st(1), of t r] r by simp_all
    have fd: "forward s ?d" using forward_trans [OF st(2) forward_trans [OF after_claim_time(3) [OF assms(1) st(1)] d(2)]] .
    have fu: "forward ?d u" using obeys_result [OF keeping_dequeue_loop skip(2)] by (simp add: keeping_def)
    have dq: "rp_queue ?d = rest" "rp_active ?d = rp_active s"
      using discarded_effect(1,2) [OF shifted, of r env] r by simp_all
    show ?thesis
    proof (cases "v = t")
      case True
      have "could_not_run env r (after_claim env r ?s) (after_claim env r ?s)"
        by (rule discarded_could_not_run [OF assms(1) st(1) skip(1) status])
      then have "could_not_run env r s u"
        using could_not_run_mono forward_trans st(2) after_claim_time(3) [OF assms(1) st(1)] d(2) fu by metis
      then show ?thesis using True r Suc.prems(5) by simp
    next
      case False
      then have "v \<in> set (rp_queue ?d)" "rp_heap ?d v = Some x"
        using Suc.prems(4,5) q dq discarded_others [of v t env r ?s] by simp_all
      from Suc.IH [OF discarded_inv [OF shifted] d(1) skip(2) this]
      have "v \<in> set (rp_queue u) \<or> res \<noteq> None \<and> rp_active u = rp_active s @ [v] \<or> could_not_run env x ?d u"
        using dq by simp
      moreover have "forward u u" by (simp add: forward_def)
      ultimately show ?thesis using could_not_run_mono [OF fd] by blast
    qed
  qed
qed

lemma forward_dequeue_loop: "dequeue_loop env n s = (x, u) \<Longrightarrow> forward s u"
  using obeys_result [OF keeping_dequeue_loop, of env n s x u] by (simp add: keeping_def)

end
