(* ===== verification/Routing_Queue.thy ===== *)
theory Routing_Queue
  imports Routing_Expiry "HOL-Library.Sublist"
begin

text \<open>
  What the operations of the routing policy return: the order in which \<open>dequeue\<close> serves the
  queue and the guards a lease has passed, when admission answers busy, that cancellation and
  release are final, and that the observed clock only moves forward.
\<close>

section \<open>What expiry leaves alone\<close>

definition quiet :: "nat list \<Rightarrow> 'v policy \<Rightarrow> 'v policy \<Rightarrow> bool" where
  "quiet a s u \<longleftrightarrow> (rp_active s = a \<longrightarrow> rp_active u = a \<and> subseq (rp_queue u) (rp_queue s) \<and>
     (\<forall>t r. rp_heap s t = Some r \<longrightarrow> (\<exists>r'. rp_heap u t = Some r' \<and> same_identity r r')))"

lemma same_identity_trans: "same_identity r r' \<Longrightarrow> same_identity r' r'' \<Longrightarrow> same_identity r r''"
  by (simp add: same_identity_def)

interpretation quiet: step_contract "quiet a" for a
proof unfold_locales
  show "quiet a s s" for s :: "'a policy" by (simp add: quiet_def same_identity_def)
  show "quiet a s t \<Longrightarrow> quiet a t u \<Longrightarrow> quiet a s u" for s t u :: "'a policy"
    unfolding quiet_def using subseq_order.trans same_identity_trans by meson
qed

lemma subseq_remove1: "subseq (remove1 x xs) xs"
  by (induction xs) auto

lemma quiet_removeRecord: "t \<notin> set a \<Longrightarrow> obeys (quiet a) (removeRecord t)"
  unfolding removeRecord_def
  by (rule quiet.modE) (auto simp: quiet_def removed_def same_identity_def subseq_remove1 split: option.split)

lemma quiet_markExpired: "obeys (quiet a) (markExpired t)"
  unfolding markExpired_def
  by (rule quiet.modE) (auto simp: quiet_def same_identity_def split: option.split)

lemma quiet_readMonotonicNow: "obeys (quiet a) (readMonotonicNow env now)"
  unfolding readMonotonicNow_def
  by (intro quiet.closure quiet.modE) (auto simp: quiet_def same_identity_def)

lemma quiet_expire_queued: "t \<notin> set a \<Longrightarrow> obeys (quiet a) (expire_queued env now t)"
  unfolding expire_queued_def policy_reads
  by (intro quiet.closure quiet_removeRecord quiet_markExpired)

lemma quiet_expire_active: "obeys (quiet a) (expire_active now t)"
  unfolding expire_active_def policy_reads by (intro quiet.closure quiet_markExpired)

lemma quiet_expire_at:
  assumes "policy_inv {} s"
  shows "quiet (rp_active s) s (snd (expire_at env now s))"
proof -
  have "obeys (quiet (rp_active s)) (bindE (forE (rev (rp_queue s)) (expire_queued env now))
     (\<lambda>from_queue. bindE (getE rp_active)
     (\<lambda>active. bindE (forE active (expire_active now))
     (\<lambda>from_active. ret (concat from_queue @ concat from_active)))))"
    using assms
    by (intro quiet.closure quiet_expire_queued quiet_expire_active) (auto simp: policy_inv_def lists_ok_def)
  then show ?thesis using obeysD by (fastforce simp: expire_at_def bindE_apply getE_def)
qed

lemma quiet_expire:
  assumes "steady env" and "policy_inv {} s"
  shows "quiet (rp_active s) s (snd (expire env now s))"
proof (cases "readMonotonicNow env now s")
  case (Pair x u)
  have inv: "policy_inv {} u"
    using hoare_both [OF readNow_inv [OF assms(1)] assms(2), of now] Pair by simp
  have su: "quiet (rp_active s) s u" using obeys_result [OF quiet_readMonotonicNow Pair] .
  have "rp_active u = rp_active s" using su by (simp add: quiet_def)
  then have "quiet (rp_active s) u (snd (expire_at env n u))" for n using quiet_expire_at [OF inv] by metis
  then show ?thesis using su quiet.trans [OF su] Pair
    by (cases x) (auto simp: expire_def bindE_apply)
qed

section \<open>The order of the queue\<close>

text \<open>What a lease has passed: both clock readings next to the handover.\<close>

definition leased :: "policy_env \<Rightarrow> nat \<Rightarrow> 'v queue_lease \<Rightarrow> 'v policy \<Rightarrow> bool" where
  "leased env t l u \<longleftrightarrow> (\<exists>r. rp_heap u t = Some r \<and> l = lease_of r \<and> qr_status r = RS_active \<and>
     qr_deadline r > observed u \<and> \<not> isEntryCancellationRequested (re_view env (en_ref (qr_entry r)) (rp_reads u)))"

lemma activated_leased:
  assumes "runnable_at env r u"
  shows "leased env t (lease_of r) (activated t r u)"
  using assms
  by (cases r) (simp add: leased_def activated_def runnable_at_def isRunnableRecord_def lease_of_def observed_def)

lemma dequeue_loop_outcome:
  assumes "steady env" and "policy_inv {} s" and "length (rp_queue s) < n" and "dequeue_loop env n s = (Inr res, u)"
  shows "case res of
      None \<Rightarrow> rp_active u = rp_active s \<and> (rp_activeCapacity s \<le> length (rp_active s) \<or> rp_queue u = [])
    | Some l \<Rightarrow> \<exists>pre t. rp_queue s = pre @ t # rp_queue u \<and> rp_active u = rp_active s @ [t] \<and>
        length (rp_active s) < rp_activeCapacity s \<and> leased env t l u"
  using assms(2-)
proof (induction n arbitrary: s)
  case (Suc n)
  show ?case
  proof (cases "rp_queue s")
    case Nil
    then show ?thesis using Suc.prems(3) by (auto simp: exec_simps)
  next
    case (Cons t rest)
    then have "t \<in> registered {} s" by (simp add: registered_def)
    then obtain r where r: "rp_heap s t = Some r" using Suc.prems(1) by (auto simp: policy_inv_def heap_ok_def)
    let ?s = "s\<lparr>rp_queue := rest\<rparr>" and ?u = "tick env (tick env (s\<lparr>rp_queue := rest\<rparr>))"
    have shifted: "policy_inv {t} ?s" by (rule policy_inv_shift [OF Suc.prems(1) Cons])
    note step = Suc.prems(3) [unfolded dequeue_loop_step [OF assms(1) Cons r] Let_def]
    consider (full) "rp_activeCapacity s \<le> length (rp_active s)"
      | (claim) "\<not> rp_activeCapacity s \<le> length (rp_active s)" "runnable_at env r (tick env ?s) \<and> runnable_at env r ?u"
      | (skip) "\<not> rp_activeCapacity s \<le> length (rp_active s)" "\<not> (runnable_at env r (tick env ?s) \<and> runnable_at env r ?u)"
      by blast
    then show ?thesis
    proof cases
      case full
      then show ?thesis using step by auto
    next
      case claim
      then have "res = Some (lease_of r)" "u = activated t r ?u" using step by auto
      moreover have "leased env t (lease_of r) (activated t r ?u)" using claim by (intro activated_leased) simp
      moreover have "rp_queue s = [] @ t # rp_queue (activated t r ?u)" using Cons by (simp add: activated_def)
      moreover have "rp_active (activated t r ?u) = rp_active s @ [t]" by (simp add: activated_def)
      ultimately have "\<exists>pre v. rp_queue s = pre @ v # rp_queue u \<and> rp_active u = rp_active s @ [v] \<and>
          length (rp_active s) < rp_activeCapacity s \<and> leased env v (lease_of r) u"
        using claim(1) by (intro exI [of _ "[]"] exI [of _ t]) auto
      then show ?thesis using \<open>res = Some (lease_of r)\<close> by simp
    next
      case skip
      let ?d = "discarded env t r ?s"
      have run: "dequeue_loop env n ?d = (Inr res, u)" using step skip by auto
      have r': "rp_heap ?s t = Some r" using r by simp
      have d: "rp_active ?d = rp_active s" "rp_queue ?d = rest" "rp_activeCapacity ?d = rp_activeCapacity s"
        using discarded_effect(1,2,3) [OF shifted r', of env] by simp_all
      have "length (rp_queue ?d) < n" using Suc.prems(2) Cons d by simp
      note IH = Suc.IH [OF discarded_inv [OF shifted] this run, unfolded d]
      show ?thesis
      proof (cases res)
        case None
        then show ?thesis using IH by simp
      next
        case (Some l)
        then obtain pre v where "rest = pre @ v # rp_queue u" "rp_active u = rp_active s @ [v]"
          "length (rp_active s) < rp_activeCapacity s" "leased env v l u"
          using IH by auto
        then have "rp_queue s = (t # pre) @ v # rp_queue u" using Cons by simp
        then show ?thesis using Some \<open>rp_active u = rp_active s @ [v]\<close> \<open>length (rp_active s) < rp_activeCapacity s\<close>
            \<open>leased env v l u\<close> by fastforce
      qed
    qed
  qed
qed simp

text \<open>The states of a policy between calls.\<close>

definition policy_reachable :: "policy_env \<Rightarrow> 'v policy \<Rightarrow> bool" where
  "policy_reachable env s \<longleftrightarrow> steady env \<and>
     (\<exists>queueAliases activeAliases s0 ops. new_policy env queueAliases activeAliases = Inr s0 \<and> s = policy_run env ops s0)"

lemma reachable_inv: "policy_reachable env s \<Longrightarrow> policy_inv {} s"
  unfolding policy_reachable_def using new_policy_inv policy_run_inv by metis

lemma reachable_timely: "policy_reachable env s \<Longrightarrow> timely s"
  unfolding policy_reachable_def using new_policy_timely timely_run by metis

lemma reachable_steady: "policy_reachable env s \<Longrightarrow> steady env"
  by (simp add: policy_reachable_def)

lemma subseq_set: "subseq xs ys \<Longrightarrow> set xs \<subseteq> set ys"
  by (induction rule: list_emb.induct) auto

text \<open>Reading the clock and expiring, as \<open>admit\<close> and \<open>dequeue\<close> do first.\<close>

lemma read_and_expire:
  assumes "steady env" and "policy_inv {} s" and "readMonotonicNow env now s = (x, s1)"
    and "expire_resolved env n s1 = (y, s2)"
  shows "policy_inv {} s2" and "quiet (rp_active s) s s2" and "rp_active s2 = rp_active s"
    and "subseq (rp_queue s2) (rp_queue s)" and "same_capacities s s2"
proof -
  have s1: "policy_inv {} s1" using hoare_both [OF readNow_inv [OF assms(1)] assms(2), of now] assms(3) by simp
  have q1: "quiet (rp_active s) s s1" using obeys_result [OF quiet_readMonotonicNow assms(3)] .
  then have a1: "rp_active s1 = rp_active s" by (simp add: quiet_def)
  show "policy_inv {} s2" using hoare_both [OF expire_resolved_inv [OF assms(1)] s1, of n] assms(4) by simp
  have "quiet (rp_active s) s1 s2"
    using quiet_expire [OF assms(1) s1, of "Some (Fin n)"] assms(4) a1 by (simp add: expire_resolved_def)
  then show "quiet (rp_active s) s s2" by (rule quiet.trans [OF q1])
  then show "rp_active s2 = rp_active s" "subseq (rp_queue s2) (rp_queue s)" by (simp_all add: quiet_def)
  have "same_capacities s s1" using obeys_result [OF capacities_keeps [OF keeps_readMonotonicNow] assms(3)] .
  moreover have "same_capacities s1 s2"
    using obeys_result [OF capacities_keeps [OF keeps_expire], of env "Some (Fin n)" s1 y s2] assms(4) by (simp add: expire_resolved_def)
  ultimately show "same_capacities s s2" by (rule capacities.trans)
qed

lemma dequeue_order:
  assumes "policy_reachable env s" and "dequeue env now s = (Inr res, u)"
  shows "case res of
      None \<Rightarrow> rp_active u = rp_active s \<and> (rp_activeCapacity s \<le> length (rp_active s) \<or> rp_queue u = [])
    | Some l \<Rightarrow> \<exists>pre t post. rp_queue s = pre @ t # post \<and> rp_active u = rp_active s @ [t] \<and>
        length (rp_active s) < rp_activeCapacity s \<and> leased env t l u \<and> subseq (rp_queue u) post \<and>
        (\<forall>v \<in> set pre. v \<notin> set (rp_queue u @ rp_active u))"
proof -
  note inv = reachable_inv [OF assms(1)] and steady = reachable_steady [OF assms(1)]
  obtain n s1 where read: "readMonotonicNow env now s = (Inr n, s1)"
    using assms(2) by (auto simp: dequeue_def bindE_apply split: prod.splits sum.splits)
  obtain es s2 where exp: "expire_resolved env n s1 = (Inr es, s2)"
    using assms(2) read by (auto simp: dequeue_def bindE_apply thenE_def split: prod.splits sum.splits)
  note s2 = read_and_expire [OF steady inv read exp]
  have rest: "(if rp_activeCapacity s2 \<le> length (rp_active s2) then (Inr None, s2)
      else dequeue_loop env (Suc (length (rp_queue s2))) s2) = (Inr res, u)"
    using assms(2) read exp by (simp add: dequeue_def bindE_apply thenE_def getE_def ret_def split: if_splits del: dequeue_loop.simps)
  show ?thesis
  proof (cases "rp_activeCapacity s2 \<le> length (rp_active s2)")
    case True
    then show ?thesis using rest s2 by (auto simp: same_capacities_def)
  next
    case False
    then have run: "dequeue_loop env (Suc (length (rp_queue s2))) s2 = (Inr res, u)" using rest by (simp del: dequeue_loop.simps)
    note out = dequeue_loop_outcome [OF steady s2(1) _ run]
    show ?thesis
    proof (cases res)
      case None
      then show ?thesis using out s2(3,5) by (simp add: same_capacities_def)
    next
      case (Some l)
      then obtain pre0 t where t: "rp_queue s2 = pre0 @ t # rp_queue u" "rp_active u = rp_active s @ [t]"
        "length (rp_active s) < rp_activeCapacity s" "leased env t l u"
        using out s2(3,5) by (auto simp: same_capacities_def)
      have "subseq (pre0 @ t # rp_queue u) (rp_queue s)" using s2(4) t(1) by simp
      then obtain us vs where us: "rp_queue s = us @ vs" "subseq (t # rp_queue u) vs"
        using list_emb_appendD by metis
      obtain ws post where ws: "vs = ws @ t # post" "subseq (rp_queue u) post"
        using list_emb_ConsD [OF us(2)] by auto
      define pre where "pre = us @ ws"
      have post: "rp_queue s = pre @ t # post" "subseq (rp_queue u) post"
        using us(1) ws by (simp_all add: pre_def)
      have "distinct (pre @ t # post)" "set (pre @ t # post) \<inter> set (rp_active s) = {}"
        using inv post(1) by (simp_all add: policy_inv_def lists_ok_def)
      moreover have "set (rp_queue u) \<subseteq> set post" using post(2) by (rule subseq_set)
      ultimately have "\<forall>v \<in> set pre. v \<notin> set (rp_queue u @ rp_active u)" unfolding t(2) by auto
      then show ?thesis using Some t post by (simp only: option.case) blast
    qed
  qed
qed

lemma dequeue_excused:
  assumes reach: "policy_reachable env s" and run: "dequeue env now s = (Inr res, u)" and v: "v \<in> set (rp_queue s)"
  shows "v \<in> set (rp_queue u) \<or> (res \<noteq> None \<and> rp_active u = rp_active s @ [v]) \<or>
    (\<exists>r. rp_heap s v = Some r \<and> could_not_run env r s u)"
proof -
  note inv = reachable_inv [OF reach] and steady = reachable_steady [OF reach] and time = reachable_timely [OF reach]
  obtain n s1 where read: "readMonotonicNow env now s = (Inr n, s1)"
    using run by (auto simp: dequeue_def bindE_apply split: prod.splits sum.splits)
  obtain es s2 where exp: "expire_resolved env n s1 = (Inr es, s2)"
    using run read by (auto simp: dequeue_def bindE_apply thenE_def split: prod.splits sum.splits)
  note s2 = read_and_expire [OF steady inv read exp]
  have s1: "policy_inv {} s1" "timely s1"
    using hoare_both [OF readNow_inv [OF steady] inv, of now] obeys_result [OF keeping_read [OF clock_proof_timely] read] time read
    by (simp_all add: keeping_def)
  have to2: "forward s1 s2 \<and> excused env s1 s2" by (rule excused_expire_resolved [OF steady s1 exp])
  then have f2: "forward s s2" and e2: "excused env s s2"
    using excused_read(1,2) [OF read] forward_trans excused_trans by blast+
  have rest: "u = s2 \<or> dequeue_loop env (Suc (length (rp_queue s2))) s2 = (Inr res, u)"
    using run read exp by (auto simp: dequeue_def bindE_apply thenE_def getE_def ret_def split: if_splits simp del: dequeue_loop.simps)
  have fu: "forward s2 u"
    using rest
  proof
    show "u = s2 \<Longrightarrow> forward s2 u" by (simp add: forward_def)
    show "dequeue_loop env (Suc (length (rp_queue s2))) s2 = (Inr res, u) \<Longrightarrow> forward s2 u" by (rule forward_dequeue_loop)
  qed
  obtain r where r: "rp_heap s v = Some r"
    using policy_inv_clean [OF inv] v by (auto simp: clean_def)
  have refl: "forward s s" "forward u u" by (simp_all add: forward_def)
  consider r' where "v \<in> set (rp_queue s2)" "rp_heap s2 v = Some r'" "same_identity r r'" | "could_not_run env r s s2"
    using e2 v r unfolding excused_def by blast
  then show ?thesis
  proof cases
    case 1
    have "v \<in> set (rp_queue u) \<or> (res \<noteq> None \<and> rp_active u = rp_active s @ [v]) \<or> could_not_run env r' s2 u"
      using rest excused_dequeue_loop [OF steady s2(1) timely_expire_resolved [OF s1(2) exp] _ 1(1,2)] 1(1) s2(3) by metis
    then show ?thesis using could_not_run_mono [OF f2 refl(2)] could_not_run_identity [OF 1(3)] r by blast
  next
    case 2
    then show ?thesis using could_not_run_mono [OF refl(1) fu] r by blast
  qed
qed

text \<open>C23: a lease from \<open>dequeue\<close> is the oldest record of the queue that may run: its deadline lies after the last
  clock reading and no cancellation is visible at it, it takes a free active slot, every older record could not run
  and has left the queue, and the younger ones keep their order.  Without a lease, either the active slots are all
  taken or the queue is now empty.  In every case a record that was queued is still queued, or is the one leased, or
  could not run: its deadline was reached by the observed time, or at a clock reading of this call the caller's
  entry was not runnable, cancelled, aborted or in a state other than accepted or queued.\<close>

theorem dequeue_serves_in_order:
  assumes "policy_reachable env s" and "dequeue env now s = (Inr res, u)"
  shows "(case res of
      None \<Rightarrow> rp_active u = rp_active s \<and> (rp_activeCapacity s \<le> length (rp_active s) \<or> rp_queue u = [])
    | Some l \<Rightarrow> \<exists>pre t post. rp_queue s = pre @ t # post \<and> rp_active u = rp_active s @ [t] \<and>
        length (rp_active s) < rp_activeCapacity s \<and> leased env t l u \<and> subseq (rp_queue u) post \<and>
        (\<forall>v \<in> set pre. v \<notin> set (rp_queue u @ rp_active u) \<and>
           (\<exists>r. rp_heap s v = Some r \<and> could_not_run env r s u))) \<and>
    (\<forall>v \<in> set (rp_queue s). v \<in> set (rp_queue u) \<or> (res \<noteq> None \<and> rp_active u = rp_active s @ [v]) \<or>
       (\<exists>r. rp_heap s v = Some r \<and> could_not_run env r s u))"
proof (intro conjI ballI dequeue_excused [OF assms])
  show "case res of
      None \<Rightarrow> rp_active u = rp_active s \<and> (rp_activeCapacity s \<le> length (rp_active s) \<or> rp_queue u = [])
    | Some l \<Rightarrow> \<exists>pre t post. rp_queue s = pre @ t # post \<and> rp_active u = rp_active s @ [t] \<and>
        length (rp_active s) < rp_activeCapacity s \<and> leased env t l u \<and> subseq (rp_queue u) post \<and>
        (\<forall>v \<in> set pre. v \<notin> set (rp_queue u @ rp_active u) \<and>
           (\<exists>r. rp_heap s v = Some r \<and> could_not_run env r s u))"
  proof (cases res)
    case None
    then show ?thesis using dequeue_order [OF assms] by simp
  next
    case (Some l)
    then obtain pre t post where t: "rp_queue s = pre @ t # post" "rp_active u = rp_active s @ [t]"
      "length (rp_active s) < rp_activeCapacity s" "leased env t l u" "subseq (rp_queue u) post"
      and gone: "\<forall>v \<in> set pre. v \<notin> set (rp_queue u @ rp_active u)"
      using dequeue_order [OF assms] by auto
    have "\<exists>r. rp_heap s v = Some r \<and> could_not_run env r s u" if "v \<in> set pre" for v
      using dequeue_excused [OF assms, of v] gone that t(1,2) by auto
    then show ?thesis using Some t gone by (simp only: option.case) blast
  qed
qed

lemma reachable_calm: "policy_reachable calm_env (policy_run calm_env ops
    ((empty_policy 32 1 :: nat policy)\<lparr>rp_lastObservedNow := Fin 0, rp_reads := 1\<rparr>))"
  unfolding policy_reachable_def using steady_calm new_calm by blast

lemmas policy_eval = draw_handle_first policy_run_def admit_def admit_now_def admit_queued_def expire_resolved_def expire_def expire_at_def
  expire_queued_def expire_active_def load_def runnable_now_def createRecord_def registerRecord_def alter_def
  isRunnableRecord_def isEntryCancellationRequested_def isRunnableState_def readMonotonicNow_def resolveDeadline_def
  claimRecord_def lease_of_def dequeue_def calm_env_def calm_entry_def plain_view_def empty_policy_def empty_id_def
  index_add_def index_delete_def Let_def exec_simps

text \<open>One active slot, two queued records.\<close>

definition calm_queue :: "nat policy" where
  "calm_queue = policy_run calm_env [Op_admit (calm_entry 1 50) False None, Op_admit (calm_entry 2 90) False None]
     ((empty_policy 32 1)\<lparr>rp_lastObservedNow := Fin 0, rp_reads := 1\<rparr>)"

lemma reachable_calm_queue: "policy_reachable calm_env calm_queue"
  unfolding calm_queue_def by (rule reachable_calm)

lemma calm_queue_eval: "rp_queue calm_queue = [1, 2] \<and> rp_active calm_queue = []"
  unfolding calm_queue_def by (simp add: policy_eval)

theorem dequeue_serves_in_order_witness:
  "\<exists>l u. dequeue calm_env None calm_queue = (Inr (Some l), u) \<and>
     (\<exists>t post. rp_queue calm_queue = t # post \<and> rp_active u = [t] \<and> leased calm_env t l u \<and> subseq (rp_queue u) post)"
proof -
  obtain l u where run: "dequeue calm_env None calm_queue = (Inr (Some l), u)" and "rp_active u = [1]"
    unfolding calm_queue_def by (simp add: policy_eval)
  then show ?thesis
    using dequeue_serves_in_order [OF reachable_calm_queue run] calm_queue_eval
    by (auto simp: Cons_eq_append_conv)
qed

section \<open>Admission\<close>

lemma createRecord_effect:
  assumes "createRecord env entry s = (Inr r, u)"
  shows "rp_queue u = rp_queue s" "rp_active u = rp_active s" "rp_heap u = rp_heap s" "same_capacities s u"
    "qr_entry r = entry" "rp_lastObservedNow u = rp_lastObservedNow s"
  using assms by (auto simp: createRecord_def exec_simps same_capacities_def split: if_splits option.splits prod.splits sum.splits)

lemma registered_fields [simp]:
  "rp_queue (snd (registerRecord r s)) = rp_queue s" "rp_active (snd (registerRecord r s)) = rp_active s"
  "rp_activeCapacity (snd (registerRecord r s)) = rp_activeCapacity s"
  "rp_heap (snd (registerRecord r s)) (qr_token r) = Some r"
  "rp_handles (snd (registerRecord r s)) (qr_handle r) = Some (qr_token r)"
  by (simp_all add: registerRecord_def modE_def)

definition busy_answer :: "'v admission \<Rightarrow> bool" where
  "busy_answer d \<longleftrightarrow> (\<exists>e. d = Busy e \<and> pe_code e = EC_busy \<and> pe_retryable e)"

lemma busyDecision_answer: "busyDecision env s = (Inr d, u) \<Longrightarrow> u = s \<and> busy_answer d"
  by (auto simp: busyDecision_def getE_def busy_answer_def isRetryableErrorCode_def RETRYABLE_ERROR_CODES_def)

text \<open>What an answer of \<open>admit\<close> means for the state it leaves.\<close>

definition admission_ok :: "policy_env \<Rightarrow> 'v queue_entry \<Rightarrow> bool \<Rightarrow> 'v policy \<Rightarrow> 'v admission \<Rightarrow> 'v policy \<Rightarrow> bool" where
  "admission_ok env entry imm s d u \<longleftrightarrow> (case d of
     Accepted l \<Rightarrow> imm \<and> (\<exists>t. rp_active u = rp_active s @ [t] \<and> leased env t l u \<and> ql_entry l = entry) \<and>
       length (rp_active s) < rp_activeCapacity s \<and> subseq (rp_queue u) (rp_queue s)
   | Queued e h position \<Rightarrow> \<not> imm \<and> e = entry \<and> rp_active u = rp_active s \<and>
       (\<exists>q t. rp_queue u = q @ [t] \<and> subseq q (rp_queue s) \<and> rp_handles u h = Some t) \<and>
       position = length (rp_queue u) \<and> position \<le> rp_queueCapacity s
   | Busy e \<Rightarrow> pe_code e = EC_busy \<and> pe_retryable e \<and> rp_active u = rp_active s \<and> subseq (rp_queue u) (rp_queue s) \<and>
       (if imm then length (rp_active s) = rp_activeCapacity s else length (rp_queue u) = rp_queueCapacity s)
   | _ \<Rightarrow> rp_active u = rp_active s \<and> subseq (rp_queue u) (rp_queue s))"

lemma admit_now_outcome:
  assumes "steady env" and inv: "policy_inv {} s" and fr: "fresh r s" and run: "admit_now env r s = (Inr d, u)"
  shows "admission_ok env (qr_entry r) True s d u"
proof (cases "rp_activeCapacity s \<le> length (rp_active s)")
  case True
  then have "busyDecision env s = (Inr d, u)" using run by (simp add: admit_now_def bindE_apply getE_def)
  then have "u = s" "busy_answer d" using busyDecision_answer by auto
  then show ?thesis using True inv by (auto simp: admission_ok_def busy_answer_def policy_inv_def lists_ok_def)
next
  case False
  let ?t = "qr_token r" and ?s = "snd (registerRecord r s)"
  have reg: "registerRecord r s = (Inr (), ?s)" by (simp add: registerRecord_def modE_def)
  have run': "(bindE (claimRecord env ?t)
       (\<lambda>lease. case lease of
           Some l \<Rightarrow> ret (Accepted l)
         | None \<Rightarrow> bindE (getE rp_lastObservedNow)
             (\<lambda>observedNow. thenE (removeRecord ?t)
               (ret (admissionDecisionFor r observedNow))))) ?s = (Inr d, u)"
    using run False by (simp add: admit_now_def bindE_getE thenE_Inr [where m = "registerRecord r" and s = s, OF reg])
  have out: "?t \<notin> set (rp_queue s)" "?t \<notin> set (rp_active s)"
    using policy_inv_register [OF inv fr] by (auto simp: policy_inv_def lists_ok_def)
  have refused: "admission_ok env (qr_entry r) True s (admissionDecisionFor r n) (snd (removeRecord ?t v))"
    if "rp_active v = rp_active s" "rp_queue v = rp_queue s" for v n
  proof -
    have "rp_active (snd (removeRecord ?t v)) = rp_active s" "rp_queue (snd (removeRecord ?t v)) = rp_queue s"
      using that out by (simp_all add: removeRecord_def modE_def removed_def remove1_idem split: option.split)
    then show ?thesis by (simp add: admission_ok_def admissionDecisionFor_def)
  qed
  consider (no1) "\<not> runnable_at env r (tick env ?s)"
    | (no2) "runnable_at env r (tick env ?s)" "\<not> runnable_at env r (tick env (tick env ?s))"
    | (yes) "runnable_at env r (tick env ?s)" "runnable_at env r (tick env (tick env ?s))" by blast
  then show ?thesis
  proof cases
    case yes
    then have "d = Accepted (lease_of r)" "u = activated ?t r (tick env (tick env ?s))"
      using run' False by (simp_all add: bindE_apply claimRecord_eq [OF assms(1)] ret_def)
    moreover have "leased env ?t (lease_of r) (activated ?t r (tick env (tick env ?s)))" using yes by (intro activated_leased)
    ultimately show ?thesis using False by (auto simp: admission_ok_def activated_def lease_of_def)
  next
    case no1
    then have "d = admissionDecisionFor r (rp_lastObservedNow (tick env ?s))" "u = snd (removeRecord ?t (tick env ?s))"
      using run' False by (auto simp: bindE_apply thenE_def getE_def claimRecord_eq [OF assms(1)] ret_def removeRecord_def modE_def)
    then show ?thesis using refused by simp
  next
    case no2
    then have "d = admissionDecisionFor r (rp_lastObservedNow (tick env (tick env ?s)))"
      "u = snd (removeRecord ?t (tick env (tick env ?s)))"
      using run' False by (auto simp: bindE_apply thenE_def getE_def claimRecord_eq [OF assms(1)] ret_def removeRecord_def modE_def)
    then show ?thesis using refused by simp
  qed
qed

lemma admission_ok_later:
  assumes "admission_ok env e imm s' d u" and "rp_active s' = rp_active s" and "subseq (rp_queue s') (rp_queue s)"
    and "same_capacities s s'"
  shows "admission_ok env e imm s d u"
  using assms subseq_order.trans [OF _ assms(3)]
  by (cases d) (auto simp: admission_ok_def same_capacities_def)

lemma admit_queued_outcome:
  assumes "steady env" and inv: "policy_inv {} s" and fr: "fresh r s" and run: "admit_queued env r s = (Inr d, u)"
  shows "admission_ok env (qr_entry r) False s d u"
proof -
  obtain n s1 where read: "readMonotonicNow env None s = (Inr n, s1)"
    using run by (auto simp: admit_queued_def bindE_apply split: prod.splits sum.splits)
  obtain es s2 where exp: "expire_resolved env n s1 = (Inr es, s2)"
    using run read by (auto simp: admit_queued_def bindE_apply thenE_def split: prod.splits sum.splits)
  note s2 = read_and_expire [OF assms(1) inv read exp]
  have rest: "(if \<not> isRunnableRecord r (re_view env (en_ref (qr_entry r)) (rp_reads s2)) n
      then (Inr (admissionDecisionFor r (Fin n)), s2)
      else if rp_queueCapacity s2 \<le> length (rp_queue s2) then busyDecision env s2
      else (Inr (Queued (qr_entry r) (qr_handle r) (Suc (length (rp_queue s2)))), enqueued r s2)) = (Inr d, u)"
    using run read exp
    by (simp add: admit_queued_def bindE_Inr [where m = "readMonotonicNow env None" and s = s, OF read]
        thenE_Inr [where m = "expire_resolved env n" and s = s1, OF exp] bindE_getE runnable_now_def enqueue_eq
        ret_apply split: if_splits)
  have "admission_ok env (qr_entry r) False s2 d u"
  proof (cases "isRunnableRecord r (re_view env (en_ref (qr_entry r)) (rp_reads s2)) n")
    case False
    then show ?thesis using rest by (auto simp: admission_ok_def admissionDecisionFor_def)
  next
    case runnable: True
    show ?thesis
    proof (cases "rp_queueCapacity s2 \<le> length (rp_queue s2)")
      case True
      then have "busyDecision env s2 = (Inr d, u)" using rest runnable by simp
      then show ?thesis
        using True s2(1) busyDecision_answer [of env s2 d u]
        by (auto simp: admission_ok_def busy_answer_def policy_inv_def lists_ok_def)
    next
      case False
      then show ?thesis
        using rest runnable by (auto simp: admission_ok_def enqueued_def registerRecord_def modE_def Let_def)
    qed
  qed
  then show ?thesis by (rule admission_ok_later [OF _ s2(3,4,5)])
qed

text \<open>C0: admission answers by capacity.  An immediate admission is accepted exactly by taking a free active slot
  for that entry, whose guards it has just passed; a queued one goes to the end of the queue under the handle it
  returns, at the position it reports; \<open>busy\<close> is retryable and is answered only when the slots asked for are all
  taken; and no answer but \<open>accepted\<close> and \<open>queued\<close> retains anything.\<close>

theorem admission_answers_by_capacity:
  assumes "policy_reachable env s" and "admit env entry imm now s = (Inr d, u)"
  shows "admission_ok env entry imm s d u"
proof -
  note inv = reachable_inv [OF assms(1)] and steady = reachable_steady [OF assms(1)]
  obtain n s1 where read: "readMonotonicNow env now s = (Inr n, s1)"
    using assms(2) by (auto simp: admit_def bindE_apply split: prod.splits sum.splits)
  obtain es s2 where exp: "expire_resolved env n s1 = (Inr es, s2)"
    using assms(2) read by (auto simp: admit_def bindE_apply thenE_def split: prod.splits sum.splits)
  obtain r s3 where new: "createRecord env entry s2 = (Inr r, s3)"
    using assms(2) read exp by (auto simp: admit_def bindE_apply thenE_def split: prod.splits sum.splits)
  note s2 = read_and_expire [OF steady inv read exp]
  have s3: "policy_inv {} s3 \<and> fresh r s3" by (rule hoare_Inr [OF createRecord_inv s2(1) new])
  note eff = createRecord_effect [OF new]
  have rest: "(if \<not> isRunnableRecord r (re_view env (en_ref (qr_entry r)) (rp_reads s3)) n
      then (Inr (admissionDecisionFor r (Fin n)), s3)
      else if imm then admit_now env r s3 else admit_queued env r s3) = (Inr d, u)"
    using assms(2)
    by (simp add: admit_def bindE_Inr [where m = "readMonotonicNow env now" and s = s, OF read]
        thenE_Inr [where m = "expire_resolved env n" and s = s1, OF exp]
        bindE_Inr [where m = "createRecord env entry" and s = s2, OF new] bindE_getE runnable_now_def
        ret_apply split: if_splits)
  have "admission_ok env (qr_entry r) imm s3 d u"
  proof (cases "isRunnableRecord r (re_view env (en_ref (qr_entry r)) (rp_reads s3)) n")
    case False
    then show ?thesis using rest by (auto simp: admission_ok_def admissionDecisionFor_def)
  next
    case True
    then show ?thesis
      using rest s3 admit_now_outcome [OF steady, of s3 r d u] admit_queued_outcome [OF steady, of s3 r d u]
      by (cases imm) simp_all
  qed
  moreover have "same_capacities s s3" using capacities.trans [OF s2(5) eff(4)] .
  ultimately show ?thesis
    using admission_ok_later [of env entry imm s3 d u s] eff s2(3,4) by simp
qed

theorem admission_answers_by_capacity_witness:
  "\<exists>d u. admit calm_env (calm_entry 3 70) False None calm_queue = (Inr d, u) \<and>
     (\<exists>h. d = Queued (calm_entry 3 70) h 3) \<and> rp_active u = rp_active calm_queue"
proof -
  obtain d u where run: "admit calm_env (calm_entry 3 70) False None calm_queue = (Inr d, u)" and
    d: "\<exists>h. d = Queued (calm_entry 3 70) h 3"
    unfolding calm_queue_def by (simp add: policy_eval)
  then show ?thesis
    using admission_answers_by_capacity [OF reachable_calm_queue run] by (auto simp: admission_ok_def)
qed

section \<open>Cancellation\<close>

lemma findRecord_registered:
  assumes inv: "policy_inv {} s" and found: "findRecord s target q = Found t"
  shows "t \<in> registered {} s"
proof -
  have h: "rp_handles s k = Some v \<Longrightarrow> v \<in> registered {} s" for k v
    using inv by (auto simp: policy_inv_def indexes_ok_def)
  have ix: "ts \<noteq> [] \<and> set ts \<subseteq> registered {} s"
    if "rp_entries s k1 = Some ts \<or> rp_entryIds s k2 = Some ts \<or> rp_requestIds s k3 = Some ts" for ts k1 k2 k3
    using inv that unfolding policy_inv_def indexes_ok_def indexed_def tidy_def members_def
    by (elim disjE) (force split: option.splits)+
  have le: "lookupEntryRecords s ts w = Found v \<Longrightarrow> v \<in> set ts" for ts v w
    by (auto simp: lookupEntryRecords_def Let_def split: option.splits list.splits dest!: filter_eq_ConsD)
  have lh: "lookup_handle s k w = Found v \<Longrightarrow> v \<in> registered {} s" for k w v
    using h by (auto simp: lookup_handle_def split: option.splits if_splits)
  have lease: "rp_heap s v = Some r \<Longrightarrow> qr_lease r \<Longrightarrow> v \<in> registered {} s" for v r
    using inv by (auto simp: policy_inv_def heap_ok_def registered_def)
  have ixs: "\<And>k ts. rp_entries s k = Some ts \<Longrightarrow> set ts \<subseteq> registered {} s"
    "\<And>k ts. rp_entryIds s k = Some ts \<Longrightarrow> set ts \<subseteq> registered {} s"
    "\<And>k ts. rp_requestIds s k = Some ts \<Longrightarrow> set ts \<subseteq> registered {} s"
    using ix by blast+
  show ?thesis
  proof (cases target)
    case (By_string k)
    then show ?thesis using found
      by (auto simp: findRecord_def Let_def split: option.splits if_splits lookup.splits dest!: le dest: h ixs(2,3) [THEN subsetD])
  next
    case (By_lease v handle w)
    then show ?thesis using found
      by (auto simp: findRecord_def Let_def split: option.splits if_splits lookup.splits dest!: lh dest: lease)
  next
    case (By_entry ref)
    then show ?thesis using found
      by (auto simp: findRecord_def Let_def split: option.splits if_splits lookup.splits dest!: le dest: ixs(1) [THEN subsetD])
  next
    case (By_reference handle w)
    then show ?thesis using found
      by (auto simp: findRecord_def Let_def split: option.splits if_splits lookup.splits dest!: lh)
  qed
qed

text \<open>What each outcome of a cancellation says of the record it names.\<close>

definition cancellation_ok :: "nat \<Rightarrow> 'v queue_record \<Rightarrow> 'v policy \<Rightarrow> 'v cancellation \<Rightarrow> 'v policy \<Rightarrow> bool" where
  "cancellation_ok t r s d u \<longleftrightarrow> (case d of
     Cancelled_record e h \<Rightarrow> t \<in> set (rp_queue s) \<and> t \<notin> registered {} u \<and> e = qr_entry r \<and> h = qr_handle r
   | Cancelling_record e h \<Rightarrow> t \<in> set (rp_active s) \<and> rp_active u = rp_active s \<and>
       (\<exists>x. rp_heap u t = Some x \<and> qr_cancellationRequested x \<and> qr_status x = RS_active)
   | Expired_record e h \<Rightarrow> qr_deadline r \<le> observed u \<and> t \<notin> set (rp_queue u) \<and>
       t \<in> set (rp_expiredLog u) \<and> (t \<in> set (rp_active s) \<longrightarrow> rp_active u = rp_active s)
   | Not_cancelable_record e h \<Rightarrow> t \<notin> set (rp_queue u) \<and> (t \<in> set (rp_active s) \<longrightarrow> rp_active u = rp_active s)
   | _ \<Rightarrow> False)"

lemma observed_updates [simp]:
  "observed (removed t r s) = observed s" "observed (s\<lparr>rp_heap := h\<rparr>) = observed s"
  "observed (s\<lparr>rp_heap := h, rp_expiredLog := x\<rparr>) = observed s"
  by (simp_all add: observed_def removed_def)

lemma removed_out:
  assumes "policy_inv {} s" and "t \<notin> set (rp_active s)"
  shows "t \<notin> set (rp_queue (removed t r s))" "t \<notin> set (rp_active (removed t r s))" "rp_active (removed t r s) = rp_active s"
    "rp_expiredLog (removed t r s) = rp_expiredLog s" "rp_heap (removed t r s) = (rp_heap s)(t \<mapsto> r\<lparr>qr_lease := False, qr_status := RS_released\<rparr>)"
  using assms by (auto simp: removed_def policy_inv_def lists_ok_def set_remove1_eq)

lemma marked:
  assumes "rp_heap s t = Some r" and "log_ok s"
  shows "rp_queue (snd (markExpired t s)) = rp_queue s" "rp_active (snd (markExpired t s)) = rp_active s"
    "t \<in> set (rp_expiredLog (snd (markExpired t s)))" "observed (snd (markExpired t s)) = observed s"
  using assms by (auto simp: markExpired_def modE_def log_ok_def)

lemma removed_log_ok: "log_ok s \<Longrightarrow> rp_heap s t = Some r \<Longrightarrow> log_ok (removed t r s)"
  by (auto simp: log_ok_def removed_def)

lemma removeRecord_run: "rp_heap s t = Some r \<Longrightarrow> removeRecord t s = (Inr (), removed t r s)"
  by (simp add: removeRecord_def modE_def)

lemma markExpired_run: "markExpired t s = (Inr (), snd (markExpired t s))"
  by (simp add: markExpired_def modE_def)

lemma alter_run: "rp_heap s t = Some r \<Longrightarrow> alter t f s = (Inr (), s\<lparr>rp_heap := (rp_heap s)(t \<mapsto> f r)\<rparr>)"
  by (simp add: alter_def modE_def)

lemma cancelled_out: "policy_inv {} s \<Longrightarrow> rp_heap s t = Some r \<Longrightarrow> t \<notin> registered {} (cancelled t r s)"
  using removed_lists(1,2) [of "{}" s t r] by (auto simp: cancelled_def registered_def)

lemma waiting_outcome:
  assumes "steady env" and inv: "policy_inv {} s" and r: "rp_heap s t = Some r" and q: "t \<in> set (rp_queue s)"
    and run: "cancel_waiting env t r s = (Inr d, u)"
  shows "cancellation_ok t r s d u"
proof -
  have na: "t \<notin> set (rp_active s)" using inv q by (auto simp: policy_inv_def lists_ok_def)
  let ?e = "qr_entry r" and ?s = "tick env s"
  let ?m = "snd (markExpired t (removed t r ?s))"
  have cancelled_ok: "cancellation_ok t r s (Cancelled_record ?e (qr_handle r)) (cancelled t r v)"
    if "policy_inv {} v" "rp_heap v t = Some r" for v
    using q cancelled_out [OF that] by (simp add: cancellation_ok_def)
  have out: "t \<notin> set (rp_queue (removed t r ?s))"
    using removed_out(1) [of ?s t r] inv na by simp
  have heap: "rp_heap (removed t r ?s) t = Some (r\<lparr>qr_lease := False, qr_status := RS_released\<rparr>)" by (simp add: removed_def)
  have log: "log_ok (removed t r ?s)" using inv r by (intro removed_log_ok) (simp_all add: policy_inv_def log_ok_def)
  note step = bindE_getE bindE_Inr [where m = "readMonotonicNow env None", OF readMonotonicNow_None [OF assms(1)]]
    thenE_Inr [where m = "removeRecord t", OF removeRecord_run] ret_apply cancel_queued_eq [where t = t and r = r]
  have marked_run: "thenE (markExpired t) (ret x) v = (Inr x, snd (markExpired t v))" for x :: "'a cancellation" and v
    by (simp add: thenE_Inr [where m = "markExpired t", OF markExpired_run] ret_apply)
  consider (cancelled) v where "v = s \<or> v = ?s" "d = Cancelled_record ?e (qr_handle r)" "u = cancelled t r v"
    | (expired) "d = Expired_record ?e (qr_handle r)" "u = ?m" "qr_deadline r \<le> observed ?s"
    | (refused) "d = Not_cancelable_record ?e (qr_handle r)" "u = removed t r ?s"
    using run r
    by (auto simp: cancel_waiting_def cancellation_seen_def runnable_now_def step marked_run
        simp del: split_paired_Ex split: if_splits)
  then show ?thesis
  proof cases
    case cancelled
    then show ?thesis using cancelled_ok [of v] inv r by auto
  next
    case expired
    then show ?thesis
      using marked [OF heap log] out q na by (simp add: cancellation_ok_def)
  next
    case refused
    then show ?thesis using out na by (simp add: cancellation_ok_def)
  qed
qed

lemma active_outcome:
  assumes "steady env" and inv: "policy_inv {} s" and r: "rp_heap s t = Some r" and a: "t \<in> set (rp_active s)"
    and run: "cancel_active env t r s = (Inr d, u)"
  shows "cancellation_ok t r s d u"
proof -
  have nq: "t \<notin> set (rp_queue s)" using inv a by (auto simp: policy_inv_def lists_ok_def)
  have st: "qr_status r = RS_active" using inv a r by (auto simp: policy_inv_def heap_ok_def)
  let ?e = "qr_entry r" and ?s = "tick env s"
  have log: "log_ok ?s" using inv by (simp add: policy_inv_def log_ok_def)
  note step = bindE_getE bindE_Inr [where m = "readMonotonicNow env None", OF readMonotonicNow_None [OF assms(1)]]
    thenE_Inr [where m = "markExpired t", OF markExpired_run] ret_apply
    thenE_Inr [where m = "alter t (\<lambda>r. r\<lparr>qr_cancellationRequested := True\<rparr>)", OF alter_run]
  consider (expired) "d = Expired_record ?e (qr_handle r)" "u = snd (markExpired t ?s)" "qr_deadline r \<le> observed ?s"
    | (cancelling) "d = Cancelling_record ?e (qr_handle r)"
        "u = ?s\<lparr>rp_heap := (rp_heap ?s)(t \<mapsto> r\<lparr>qr_cancellationRequested := True\<rparr>)\<rparr>"
    | (refused) "d = Not_cancelable_record ?e (qr_handle r)" "u = ?s"
    using run r by (auto simp: cancel_active_def cancellation_seen_def step split: if_splits)
  then show ?thesis
  proof cases
    case expired
    then show ?thesis using marked [of ?s t r, OF _ log] r nq by (simp add: cancellation_ok_def)
  next
    case cancelling
    then show ?thesis using a st by (simp add: cancellation_ok_def)
  next
    case refused
    then show ?thesis using nq by (simp add: cancellation_ok_def)
  qed
qed

lemma cancellation_ok_tick: "cancellation_ok t r (tick env s) d u = cancellation_ok t r s d u"
  by (cases d) (simp_all add: cancellation_ok_def)

lemma cancelRecord_outcome:
  assumes "steady env" and time: "timely s" and inv: "policy_inv {} s" and reg: "t \<in> registered {} s" and run: "cancelRecord env t s = (Inr d, u)"
  shows "\<exists>r. rp_heap s t = Some r \<and> cancellation_ok t r s d u"
proof -
  obtain r where r: "rp_heap s t = Some r" using inv reg by (auto simp: policy_inv_def heap_ok_def)
  let ?e = "qr_entry r" and ?s = "tick env s"
  have inv': "policy_inv {} ?s" and r': "rp_heap ?s t = Some r" using inv r by simp_all
  have active: "qr_status r = RS_active \<longleftrightarrow> t \<in> set (rp_active s)" using inv r by (auto simp: policy_inv_def heap_ok_def)
  have queued: "t \<notin> set (rp_active s) \<Longrightarrow> t \<in> set (rp_queue s)" using reg by (auto simp: registered_def)
  have queued_status: "t \<in> set (rp_queue s) \<Longrightarrow> qr_status r = RS_queued" using inv r by (auto simp: policy_inv_def heap_ok_def)
  have run': "(if qr_expired r \<or> qr_deadline r \<le> observed ?s
        then thenE (whenE (qr_status r \<noteq> RS_active) (removeRecord t))
           (thenE (markExpired t) (ret (Expired_record ?e (qr_handle r))))
        else if qr_status r = RS_active then cancel_active env t r
        else if qr_status r \<noteq> RS_queued then ret (Not_cancelable_record ?e (qr_handle r))
        else cancel_waiting env t r) ?s = (Inr d, u)"
    using run r
    by (simp add: cancelRecord_def load_def bindE_getE
        bindE_Inr [where m = "readMonotonicNow env None" and s = s, OF readMonotonicNow_None [OF assms(1)]])
  have "cancellation_ok t r s d u"
  proof (cases "qr_expired r \<or> qr_deadline r \<le> observed ?s")
    case True
    have late: "qr_deadline r \<le> observed ?s"
    proof (cases "qr_expired r")
      case True
      then have "Fin (qr_deadline r) \<le> rp_lastObservedNow s" using time r by (auto simp: timely_def)
      then have "Fin (qr_deadline r) \<le> rp_lastObservedNow ?s"
        using forward_tick [OF assms(1), of s] by (simp add: forward_def reached_def)
      then show ?thesis using tick_time(2) [OF assms(1) time] by (auto simp: observed_def is_finite_iff)
    qed (use True in simp)
    define v where "v = (if t \<in> set (rp_active s) then ?s else removed t r ?s)"
    have du: "d = Expired_record ?e (qr_handle r)" "u = snd (markExpired t v)"
      using run' late r active
      by (auto simp: v_def whenE_def thenE_def [where m = "ret ()"] bindE_ret ret_apply
          thenE_Inr [where m = "removeRecord t", OF removeRecord_run]
          thenE_Inr [where m = "markExpired t", OF markExpired_run] split: if_splits)
    have "\<exists>x. rp_heap v t = Some x" using r by (simp add: v_def removed_def)
    then obtain x where x: "rp_heap v t = Some x" ..
    have "log_ok v" using inv' r' removed_log_ok [of ?s t r] by (simp add: v_def policy_inv_def)
    note mark = marked [OF x this]
    have "t \<notin> set (rp_queue v)"
      using inv removed_out(1) [OF inv', of t r] by (auto simp: v_def policy_inv_def lists_ok_def)
    moreover have "observed v = observed ?s" by (simp add: v_def)
    moreover have "t \<in> set (rp_active s) \<longrightarrow> rp_active v = rp_active s" by (simp add: v_def)
    ultimately show ?thesis using late mark unfolding du cancellation_ok_def by simp
  next
    case False
    show ?thesis
    proof (cases "t \<in> set (rp_active s)")
      case True
      then have "cancel_active env t r ?s = (Inr d, u)" using run' False active by simp
      from active_outcome [OF assms(1) inv' r' _ this] show ?thesis using True by (simp add: cancellation_ok_tick)
    next
      case out: False
      then have "cancel_waiting env t r ?s = (Inr d, u)" using run' False active queued queued_status by simp
      from waiting_outcome [OF assms(1) inv' r' _ this] show ?thesis using queued [OF out] by (simp add: cancellation_ok_tick)
    qed
  qed
  with r show ?thesis by blast
qed

section \<open>A record that left is never taken back\<close>

text \<open>No operation retains a record created before it that was not retained already.\<close>

definition only_old :: "nat \<Rightarrow> nat set \<Rightarrow> 'v policy \<Rightarrow> bool" where
  "only_old N A s \<longleftrightarrow> N \<le> rp_nextToken s \<and> {t \<in> registered {} s. t < N} \<subseteq> A"

definition shrinks :: "'v policy \<Rightarrow> 'v policy \<Rightarrow> bool" where
  "shrinks s u \<longleftrightarrow> rp_nextToken s \<le> rp_nextToken u \<and> registered {} u \<subseteq> registered {} s"

interpretation shrinks: step_contract shrinks
  by unfold_locales (auto simp: shrinks_def)

lemma shrinks_removeRecord: "obeys shrinks (removeRecord t)"
  unfolding removeRecord_def
  by (rule shrinks.modE) (auto simp: shrinks_def registered_def removed_def split: option.split dest: set_remove1_subset [THEN subsetD])

lemma shrinks_markExpired: "obeys shrinks (markExpired t)"
  unfolding markExpired_def
  by (rule shrinks.modE) (auto simp: shrinks_def registered_def split: option.split)

lemma shrinks_readMonotonicNow: "obeys shrinks (readMonotonicNow env now)"
  unfolding readMonotonicNow_def by (intro shrinks.closure shrinks.modE) (auto simp: shrinks_def registered_def)

lemma shrinks_alter: "obeys shrinks (alter t f)"
  unfolding alter_def by (rule shrinks.modE) (simp add: shrinks_def registered_def)

lemma shrinks_expire: "obeys shrinks (expire env now)"
  unfolding expire_def expire_at_def expire_queued_def expire_active_def policy_reads
  by (intro shrinks.closure shrinks_readMonotonicNow shrinks_removeRecord shrinks_markExpired)

lemma shrinks_cancelRecord: "obeys shrinks (cancelRecord env t)"
  unfolding cancelRecord_def cancel_active_def cancel_waiting_def cancel_queued_def policy_reads
  by (intro shrinks.closure shrinks_readMonotonicNow shrinks_removeRecord shrinks_markExpired shrinks_alter)

lemma hoare_shrinks: "obeys shrinks m \<Longrightarrow> hoare (only_old N A) m (\<lambda>_. only_old N A) (\<lambda>_. only_old N A)"
  by (rule hoare_inv) (fastforce simp: only_old_def shrinks_def dest!: obeysD)

lemma shrinks_tick: "shrinks s (tick env s)"
  by (simp add: shrinks_def)

lemma shrinks_discarded: "shrinks s (discarded env t r s)"
proof -
  let ?u = "after_claim env r s"
  have "shrinks s (tick env (tick env s))" by (rule shrinks.trans [OF shrinks_tick shrinks_tick])
  then have "shrinks s ?u" by (simp add: after_claim_def shrinks_tick)
  moreover have "shrinks ?u (snd (removeRecord t ?u))" by (rule obeysD [OF shrinks_removeRecord])
  moreover have "shrinks ?u (snd (removeRecord t (snd (markExpired t ?u))))"
    by (rule shrinks.trans [OF obeysD [OF shrinks_markExpired] obeysD [OF shrinks_removeRecord]])
  ultimately have "shrinks s (snd (removeRecord t ?u))" "shrinks s (snd (removeRecord t (snd (markExpired t ?u))))"
    by (blast intro: shrinks.trans)+
  then show ?thesis by (simp add: discarded_def Let_def)
qed

lemma dequeue_loop_shrinks:
  "steady env \<Longrightarrow> policy_inv {} s \<Longrightarrow> shrinks s (snd (dequeue_loop env n s))"
proof (induction n arbitrary: s)
  case 0
  then show ?case by (simp add: ret_def shrinks.refl)
next
  case (Suc n)
  show ?case
  proof (cases "rp_queue s")
    case Nil
    then show ?thesis by (simp add: exec_simps shrinks.refl)
  next
    case (Cons t rest)
    then have "t \<in> registered {} s" by (simp add: registered_def)
    then obtain r where r: "rp_heap s t = Some r" using Suc.prems by (auto simp: policy_inv_def heap_ok_def)
    let ?s = "s\<lparr>rp_queue := rest\<rparr>"
    have shifted: "policy_inv {t} ?s" by (rule policy_inv_shift [OF Suc.prems(2) Cons])
    have s1: "shrinks s ?s" using Cons by (auto simp: shrinks_def registered_def)
    have "shrinks s (discarded env t r ?s)" by (rule shrinks.trans [OF s1 shrinks_discarded])
    then have later: "shrinks s (snd (dequeue_loop env n (discarded env t r ?s)))"
      by (rule shrinks.trans [OF _ Suc.IH [OF Suc.prems(1) discarded_inv [OF shifted]]])
    have claimed: "shrinks s (activated t r (tick env (tick env ?s)))"
      using Cons by (auto simp: shrinks_def registered_def activated_def)
    show ?thesis
      unfolding dequeue_loop_step [OF Suc.prems(1) Cons r] Let_def using later claimed by (simp add: shrinks.refl)
  qed
qed

lemma dequeue_shrinks:
  assumes "steady env" and inv: "policy_inv {} s"
  shows "shrinks s (snd (dequeue env now s))"
proof (cases "readMonotonicNow env now s")
  case (Pair x s1)
  have s1: "shrinks s s1" using obeys_result [OF shrinks_readMonotonicNow Pair] .
  show ?thesis
  proof (cases x)
    case (Inl e)
    then show ?thesis using Pair s1 by (simp add: dequeue_def bindE_apply)
  next
    case (Inr n)
    obtain y s2 where exp: "expire_resolved env n s1 = (y, s2)" by (cases "expire_resolved env n s1")
    have s2: "shrinks s1 s2" using obeys_result [OF shrinks_expire exp [unfolded expire_resolved_def]] .
    have inv2: "policy_inv {} s2" by (rule read_and_expire(1) [OF assms Pair exp])
    have "shrinks s2 (snd (dequeue_loop env k s2))" for k by (rule dequeue_loop_shrinks [OF assms(1) inv2])
    then have "shrinks s (snd (dequeue_loop env k s2))" for k using shrinks.trans [OF s1 shrinks.trans [OF s2]] by blast
    moreover have "shrinks s s2" by (rule shrinks.trans [OF s1 s2])
    ultimately show ?thesis using Pair Inr exp
      by (cases y) (simp_all add: dequeue_def bindE_apply thenE_def getE_def ret_def del: dequeue_loop.simps)
  qed
qed

text \<open>Admission retains only the record it has just created.\<close>

lemma createRecord_new:
  "hoare (only_old N A) (createRecord env entry) (\<lambda>r s. only_old N A s \<and> N \<le> qr_token r) (\<lambda>_. only_old N A)"
  by (rule hoareI)
    (auto simp: createRecord_def exec_simps only_old_def registered_def split: if_splits option.splits prod.splits sum.splits)

interpretation old: step_contract "\<lambda>s u. only_old N A s \<longrightarrow> only_old N A u" for N A
  by unfold_locales auto

abbreviation stays_old :: "nat \<Rightarrow> nat set \<Rightarrow> ('v, 'a) policy_exec \<Rightarrow> bool" where
  "stays_old N A \<equiv> obeys (\<lambda>s u. only_old N A s \<longrightarrow> only_old N A u)"

lemma old_shrinks: "obeys shrinks m \<Longrightarrow> stays_old N A m"
  by (erule obeys_mono) (auto simp: only_old_def shrinks_def)

lemma old_enqueue: "N \<le> t \<Longrightarrow> stays_old N A (modE (\<lambda>s. s\<lparr>rp_queue := rp_queue s @ [t]\<rparr>))"
  by (rule old.modE) (auto simp: only_old_def registered_def)

lemma old_activate: "N \<le> t \<Longrightarrow> stays_old N A (modE (\<lambda>s. s\<lparr>rp_active := rp_active s @ [t]\<rparr>))"
  by (rule old.modE) (auto simp: only_old_def registered_def)

lemma shrinks_registerRecord: "obeys shrinks (registerRecord r)"
  unfolding registerRecord_def by (rule shrinks.modE) (simp add: shrinks_def registered_def)

lemmas old_primitive =
  old_shrinks [OF shrinks_readMonotonicNow] old_shrinks [OF shrinks_removeRecord] old_shrinks [OF shrinks_alter]
  old_shrinks [OF shrinks_registerRecord] old_shrinks [OF shrinks_expire] old_enqueue old_activate

lemma old_claimRecord: "N \<le> t \<Longrightarrow> stays_old N A (claimRecord env t)"
  unfolding claimRecord_def load_def runnable_now_def by (intro old.closure old_primitive)

lemma old_admit_now: "N \<le> qr_token r \<Longrightarrow> stays_old N A (admit_now env r)"
  unfolding admit_now_def busyDecision_def by (intro old.closure old_primitive old_claimRecord)

lemma old_admit_queued: "N \<le> qr_token r \<Longrightarrow> stays_old N A (admit_queued env r)"
  unfolding admit_queued_def busyDecision_def expire_resolved_def runnable_now_def by (intro old.closure old_primitive)

lemma hoare_old: "stays_old N A m \<Longrightarrow> hoare (only_old N A) m (\<lambda>_. only_old N A) (\<lambda>_. only_old N A)"
  by (rule hoare_inv) (auto dest: obeysD)

lemma old_admit: "only_old N A s \<Longrightarrow> only_old N A (snd (admit env entry imm now s))"
proof -
  have admitted: "hoare (\<lambda>s. only_old N A s \<and> N \<le> qr_token r)
      (bindE (runnable_now env r n)
       (\<lambda>ok. if \<not> ok then ret (admissionDecisionFor r (Fin n))
        else if imm then admit_now env r else admit_queued env r)) (\<lambda>_. only_old N A) (\<lambda>_. only_old N A)" for n and r :: "'a queue_record"
  proof (rule hoare_known)
    assume "N \<le> qr_token r"
    then have "stays_old N A (bindE (runnable_now env r n)
       (\<lambda>ok. if \<not> ok then ret (admissionDecisionFor r (Fin n))
        else if imm then admit_now env r else admit_queued env r))"
      unfolding runnable_now_def by (intro old.closure old_admit_now old_admit_queued)
    then show "hoare (\<lambda>s. only_old N A s \<and> N \<le> qr_token r) (bindE (runnable_now env r n)
       (\<lambda>ok. if \<not> ok then ret (admissionDecisionFor r (Fin n))
        else if imm then admit_now env r else admit_queued env r)) (\<lambda>_. only_old N A) (\<lambda>_. only_old N A)"
      by (rule hoare_pre [OF hoare_old]) simp
  qed simp
  have "hoare (only_old N A) (admit env entry imm now) (\<lambda>_. only_old N A) (\<lambda>_. only_old N A)"
    unfolding admit_def expire_resolved_def
    by (rule hoare_bind [OF hoare_old [OF old_primitive(1)]], rule hoare_then [OF hoare_old [OF old_primitive(5)]],
        rule hoare_bind [OF createRecord_new admitted])
  then show "only_old N A s \<Longrightarrow> only_old N A (snd (admit env entry imm now s))" by (rule hoare_both)
qed

lemma shrinks_release: "obeys shrinks (release target q)"
  unfolding release_def policy_reads
  by (intro shrinks.closure shrinks_removeRecord lookup_cases [where P = "obeys shrinks"])

lemma shrinks_cancel: "obeys shrinks (cancel env target q)"
  unfolding cancel_def by (intro shrinks.closure shrinks_cancelRecord lookup_cases [where P = "obeys shrinks"])

lemma shrinks_cancelByRequestId: "obeys shrinks (cancelByRequestId env q)"
  unfolding cancelByRequestId_def
  by (intro shrinks.closure shrinks_cancelRecord) (auto intro: shrinks.closure shrinks_cancelRecord split: list.split)

lemma shrinks_isRunnable: "obeys shrinks (isRunnable env target now)"
  unfolding isRunnable_def policy_reads
  by (intro shrinks.closure shrinks_readMonotonicNow shrinks_expire lookup_cases [where P = "obeys shrinks"])

lemma shrinks_peek: "obeys shrinks (peek env now)"
  unfolding peek_def policy_reads by (intro shrinks.closure shrinks_readMonotonicNow shrinks_expire)

lemma only_old_shrinks: "shrinks s u \<Longrightarrow> only_old N A s \<Longrightarrow> only_old N A u"
  by (auto simp: only_old_def shrinks_def)

lemma old_step:
  assumes "steady env" and "policy_inv {} s" and old: "only_old N A s"
  shows "only_old N A (policy_step env op s)"
  by (cases op)
    (simp_all add: old_admit [OF old] only_old_shrinks [OF dequeue_shrinks [OF assms(1,2)] old]
      only_old_shrinks [OF obeysD [OF shrinks_release] old] only_old_shrinks [OF obeysD [OF shrinks_cancel] old]
      only_old_shrinks [OF obeysD [OF shrinks_cancelByRequestId] old] only_old_shrinks [OF obeysD [OF shrinks_isRunnable] old]
      only_old_shrinks [OF obeysD [OF shrinks_peek] old] only_old_shrinks [OF obeysD [OF shrinks_expire] old])

lemma old_run:
  assumes "steady env" and "policy_inv {} s" and "only_old N A s"
  shows "only_old N A (policy_run env ops s)"
  using assms(2,3) unfolding policy_run_def
  by (induction ops arbitrary: s) (simp_all add: old_step [OF assms(1)] policy_step_inv [OF assms(1)])

lemma unregistered_forever:
  assumes "steady env" and inv: "policy_inv {} s" and "t < rp_nextToken s" and "t \<notin> registered {} s"
  shows "t \<notin> registered {} (policy_run env ops s)"
proof -
  have "only_old (rp_nextToken s) (registered {} s) s" by (auto simp: only_old_def)
  from old_run [OF assms(1,2) this, of ops] have "{v \<in> registered {} (policy_run env ops s). v < rp_nextToken s} \<subseteq> registered {} s"
    by (simp add: only_old_def)
  then show ?thesis using assms(3,4) by blast
qed

text \<open>C0: cancellation has one of six outcomes, and each says what became of the record.  \<open>not_found\<close> and
  \<open>ambiguous\<close> change nothing.  \<open>cancelled\<close> was queued and is in neither list after any further calls, so it is never
  handed to an executor.  \<open>cancelling\<close> was active, is marked, and keeps its active slot; an active record keeps its
  slot under every outcome.  \<open>expired\<close> is answered only when the time observed at the end has reached the deadline of
  the record, and the expiry has been reported.\<close>

theorem cancellation_is_final:
  assumes "policy_reachable env s" and "cancel env target q s = (Inr d, u)"
  shows "case findRecord s target q of
      Not_found \<Rightarrow> d = Not_found_record \<and> u = s
    | Ambiguous \<Rightarrow> d = Ambiguous_record \<and> u = s
    | Found t \<Rightarrow> (\<exists>r. rp_heap s t = Some r \<and> cancellation_ok t r s d u) \<and>
        (\<forall>e h ops. d = Cancelled_record e h \<longrightarrow>
           t \<notin> set (rp_queue (policy_run env ops u)) \<and> t \<notin> set (rp_active (policy_run env ops u)))"
proof (cases "findRecord s target q")
  case (Found t)
  note inv = reachable_inv [OF assms(1)] and steady = reachable_steady [OF assms(1)]
  have reg: "t \<in> registered {} s" by (rule findRecord_registered [OF inv Found])
  have run: "cancelRecord env t s = (Inr d, u)" using assms(2) Found by (simp add: cancel_def bindE_getE)
  obtain r where r: "rp_heap s t = Some r" and ok: "cancellation_ok t r s d u"
    using cancelRecord_outcome [OF steady reachable_timely [OF assms(1)] inv reg run] by blast
  have invu: "policy_inv {} u" using hoare_both [OF cancelRecord_inv [OF steady] inv, of t] run by simp
  have "t < rp_nextToken s" using inv r by (auto simp: policy_inv_def heap_ok_def)
  moreover have "shrinks s u" using obeys_result [OF shrinks_cancelRecord run] .
  ultimately have t: "t < rp_nextToken u" by (simp add: shrinks_def)
  have gone: "t \<notin> registered {} (policy_run env ops u)" if "d = Cancelled_record e h" for e h ops
    using ok that unregistered_forever [OF steady invu t] by (simp add: cancellation_ok_def)
  show ?thesis using Found r ok gone by (simp add: registered_def)
qed (use assms(2) in \<open>simp_all add: cancel_def bindE_getE ret_apply\<close>)

theorem cancellation_is_final_witness:
  "\<exists>d u. cancel calm_env (By_string ''queue:'') None calm_queue = (Inr d, u) \<and>
     d = Cancelled_record (calm_entry 1 50) ''queue:'' \<and>
     1 \<notin> set (rp_active (policy_run calm_env [Op_dequeue None, Op_dequeue None] u))"
proof -
  obtain u where run: "cancel calm_env (By_string ''queue:'') None calm_queue =
      (Inr (Cancelled_record (calm_entry 1 50) ''queue:''), u)"
    and found: "findRecord calm_queue (By_string ''queue:'') None = Found 1"
    unfolding calm_queue_def
    by (simp add: policy_eval cancel_def cancelRecord_def cancel_waiting_def cancel_queued_def cancellation_seen_def
        findRecord_def removeRecord_def removed_def)
  from cancellation_is_final [OF reachable_calm_queue run] found show ?thesis
    using run by auto
qed

end
