(* ===== verification/Rooms.thy ===== *)
theory Rooms
  imports Prelude
begin

text \<open>
  Rooms (\<open>src/room.ts\<close>): the normalizer of project labels, the syntax of room ids and storage
  keys, the derivation of a room from an explicit project, a Git common directory or the working
  directory, and the exact-room checks.  Texts of this theory are lists of Unicode code points.
  The Unicode tables, SHA-256, the path functions and the Git process are fields of the
  environment; a function that may throw returns an option.
\<close>

section \<open>Environment and data\<close>

record room_env =
  un_fold :: "jstr \<Rightarrow> jstr option"
  un_letter :: "nat \<Rightarrow> bool"
  un_control :: "nat \<Rightarrow> bool"
  sha256_hex :: "jstr \<Rightarrow> jstr"
  path_resolve :: "jstr \<Rightarrow> jstr"
  path_resolve_from :: "jstr \<Rightarrow> jstr \<Rightarrow> jstr"
  path_isAbsolute :: "jstr \<Rightarrow> bool"
  realpath :: "jstr \<Rightarrow> jstr option"
  git_runner :: "jstr \<Rightarrow> jstr list \<Rightarrow> jsval option"
  process_cwd :: jstr

datatype room_source = Explicit | Git | Cwd

datatype room_exn =
    InvalidProjectLabelError string
  | InvalidRoomIdError jstr
  | RoomIsolationError jstr jstr
  | Room_exn js_exn
  | Realpath_failed jstr

record resolved_room =
  rr_roomId :: jstr
  rr_source :: room_source
  rr_value :: jstr

record room_options =
  ro_project :: "jstr option"
  ro_explicitProject :: "jstr option"
  ro_cwd :: "jstr option"

text \<open>A room id, or an object that carries one as \<open>roomId\<close> or \<open>id\<close>.\<close>

datatype room_like = Room_text jstr | Room_roomId jstr | Room_id jstr

definition ROOM_ID_PREFIX :: jstr where "ROOM_ID_PREFIX = js ''r1-''"
definition MAX_PROJECT_LABEL_CODE_POINTS :: nat where "MAX_PROJECT_LABEL_CODE_POINTS = 48"
definition ROOM_ID_HEX_LENGTH :: nat where "ROOM_ID_HEX_LENGTH = 32"
definition MAX_ROOM_ID_LENGTH :: nat where "MAX_ROOM_ID_LENGTH = 256"
definition MAX_STORAGE_KEY_LENGTH :: nat where "MAX_STORAGE_KEY_LENGTH = 128"

definition GIT_COMMON_DIRECTORY_ARGS :: "jstr list" where
  "GIT_COMMON_DIRECTORY_ARGS = [js ''rev-parse'', js ''--path-format=absolute'', js ''--git-common-dir'']"

section \<open>Character classes\<close>

definition hyphen :: nat where "hyphen = 45"

definition in_range :: "nat \<Rightarrow> nat \<Rightarrow> nat \<Rightarrow> bool" where
  "in_range a b c \<longleftrightarrow> a \<le> c \<and> c \<le> b"

definition is_digit :: "nat \<Rightarrow> bool" where "is_digit c \<longleftrightarrow> in_range 48 57 c"
definition is_lower :: "nat \<Rightarrow> bool" where "is_lower c \<longleftrightarrow> in_range 97 122 c"
definition is_upper :: "nat \<Rightarrow> bool" where "is_upper c \<longleftrightarrow> in_range 65 90 c"
definition is_hex :: "nat \<Rightarrow> bool" where "is_hex c \<longleftrightarrow> is_digit c \<or> in_range 97 102 c"
definition is_alnum :: "nat \<Rightarrow> bool" where "is_alnum c \<longleftrightarrow> is_digit c \<or> is_lower c \<or> is_upper c"

definition ascii_lower :: "nat \<Rightarrow> nat" where
  "ascii_lower c = (if is_upper c then c + 32 else c)"

text \<open>Code points above the basic plane take two units of \<open>length\<close>.\<close>

definition utf16_length :: "jstr \<Rightarrow> nat" where
  "utf16_length s = sum_list (map (\<lambda>c. if c \<ge> 65536 then 2 else 1) s)"

text \<open>The white space that \<open>trim\<close> removes.\<close>

definition is_space :: "nat \<Rightarrow> bool" where
  "is_space c \<longleftrightarrow> in_range 9 13 c \<or> c = 32 \<or> c = 160 \<or> c = 5760 \<or> in_range 8192 8202 c \<or>
     c = 8232 \<or> c = 8233 \<or> c = 8239 \<or> c = 8287 \<or> c = 12288 \<or> c = 65279"

definition is_trimmed :: "jstr \<Rightarrow> bool" where
  "is_trimmed s \<longleftrightarrow> s = [] \<or> (\<not> is_space (hd s) \<and> \<not> is_space (last s))"

section \<open>Project labels\<close>

fun label_loop :: "room_env \<Rightarrow> jstr \<Rightarrow> jstr \<Rightarrow> bool \<Rightarrow> jstr" where
  "label_loop env [] output pendingSeparator = output"
| "label_loop env (c # rest) output pendingSeparator =
     (if un_letter env c
      then label_loop env rest (output @ (if pendingSeparator \<and> output \<noteq> [] then [hyphen] else []) @ [c]) False
      else label_loop env rest output (if output \<noteq> [] then True else pendingSeparator))"

definition pop_hyphens :: "jstr \<Rightarrow> jstr" where
  "pop_hyphens s = rev (dropWhile (\<lambda>c. c = hyphen) (rev s))"

definition normalizeProjectLabel :: "room_env \<Rightarrow> jstr \<Rightarrow> room_exn + jstr" where
  "normalizeProjectLabel env s =
     (case un_fold env s of
        None \<Rightarrow> Inl (InvalidProjectLabelError ''project label is not valid Unicode text'')
      | Some normalized \<Rightarrow>
          if list_ex (un_control env) s \<or> list_ex (un_control env) normalized
          then Inl (InvalidProjectLabelError ''project label contains a control character'')
          else (let bounded = pop_hyphens (take MAX_PROJECT_LABEL_CODE_POINTS (label_loop env normalized [] False))
            in if bounded = [] then Inl (InvalidProjectLabelError ''project label is empty after normalization'')
               else Inr bounded))"

definition getExplicitProject :: "room_options \<Rightarrow> room_exn + jstr option" where
  "getExplicitProject options =
     (if ro_project options \<noteq> None \<and> ro_explicitProject options \<noteq> None \<and>
         ro_project options \<noteq> ro_explicitProject options
      then Inl (InvalidProjectLabelError
        ''project and explicitProject were both supplied with different values'')
      else Inr (case ro_explicitProject options of Some p \<Rightarrow> Some p | None \<Rightarrow> ro_project options))"

section \<open>Room ids and storage keys\<close>

definition isValidRoomId :: "jstr \<Rightarrow> bool" where
  "isValidRoomId s \<longleftrightarrow> take (length ROOM_ID_PREFIX) s = ROOM_ID_PREFIX \<and>
     length s = length ROOM_ID_PREFIX + ROOM_ID_HEX_LENGTH \<and> list_all is_hex (drop (length ROOM_ID_PREFIX) s)"

definition isCanonicalRoomId :: "room_env \<Rightarrow> jstr \<Rightarrow> bool" where
  "isCanonicalRoomId env s \<longleftrightarrow> s \<noteq> [] \<and> utf16_length s \<le> MAX_ROOM_ID_LENGTH \<and> is_trimmed s \<and>
     \<not> list_ex (un_control env) s \<and> 47 \<notin> set s \<and> 92 \<notin> set s \<and> s \<noteq> js ''.'' \<and> s \<noteq> js ''..''"

definition WINDOWS_RESERVED_STEMS :: "jstr list" where
  "WINDOWS_RESERVED_STEMS = map js
     [''con'', ''prn'', ''aux'', ''nul'',
      ''com1'', ''com2'', ''com3'', ''com4'', ''com5'', ''com6'', ''com7'', ''com8'', ''com9'',
      ''lpt1'', ''lpt2'', ''lpt3'', ''lpt4'', ''lpt5'', ''lpt6'', ''lpt7'', ''lpt8'', ''lpt9'']"

text \<open>A reserved stem, alone or followed by a dot and a text without line terminators.\<close>

definition isWindowsReserved :: "jstr \<Rightarrow> bool" where
  "isWindowsReserved s \<longleftrightarrow> map ascii_lower (takeWhile (\<lambda>c. c \<noteq> 46) s) \<in> set WINDOWS_RESERVED_STEMS \<and>
     list_all (\<lambda>c. c \<noteq> 10 \<and> c \<noteq> 13 \<and> c \<noteq> 8232 \<and> c \<noteq> 8233) (drop 1 (dropWhile (\<lambda>c. c \<noteq> 46) s))"

definition matchesStorageKeyPattern :: "jstr \<Rightarrow> bool" where
  "matchesStorageKeyPattern s \<longleftrightarrow> (case s of
     [] \<Rightarrow> False
   | c # rest \<Rightarrow> is_alnum c \<and> length rest \<le> 127 \<and>
       list_all (\<lambda>c. is_alnum c \<or> c = 46 \<or> c = 95 \<or> c = hyphen) rest)"

definition isSafeStorageKey :: "room_env \<Rightarrow> jstr \<Rightarrow> bool" where
  "isSafeStorageKey env s \<longleftrightarrow> s \<noteq> [] \<and> utf16_length s \<le> MAX_STORAGE_KEY_LENGTH \<and> is_trimmed s \<and>
     \<not> list_ex (un_control env) s \<and> last s \<noteq> 46 \<and> last s \<noteq> 32 \<and>
     \<not> isWindowsReserved s \<and> matchesStorageKeyPattern s"

text \<open>The properties of an object that is not an array; \<open>None\<close> for every other value.\<close>

fun isRoomIdentityRecord :: "jsval \<Rightarrow> (jstr \<times> jsval) list option" where
  "isRoomIdentityRecord (Object props) = Some props"
| "isRoomIdentityRecord _ = None"

definition text_field :: "jstr \<Rightarrow> (jstr \<times> jsval) list \<Rightarrow> jstr option" where
  "text_field key props = (case map_of props key of Some (Text s) \<Rightarrow> Some s | _ \<Rightarrow> None)"

record room_identity =
  ri_roomId :: jstr
  ri_storageKey :: jstr

text \<open>The paths of the issues that were found, or the identity.\<close>

definition validateRoomIdentity :: "room_env \<Rightarrow> jsval \<Rightarrow> jstr list + room_identity" where
  "validateRoomIdentity env input =
     (case isRoomIdentityRecord input of
        None \<Rightarrow> Inl [js ''$'']
      | Some props \<Rightarrow>
          (let roomId = text_field (js ''roomId'') props;
               storageKey = text_field (js ''storageKey'') props;
               errors =
                 (case roomId of
                    Some s \<Rightarrow> if isCanonicalRoomId env s then [] else [js ''roomId'']
                  | None \<Rightarrow> [js ''roomId'']) @
                 (case storageKey of
                    Some s \<Rightarrow> if isSafeStorageKey env s then [] else [js ''storageKey'']
                  | None \<Rightarrow> [js ''storageKey'']) @
                 filter (\<lambda>key. key \<noteq> js ''roomId'' \<and> key \<noteq> js ''storageKey'') (map fst props)
           in if errors \<noteq> [] then Inl errors
              else Inr \<lparr>ri_roomId = the roomId, ri_storageKey = the storageKey\<rparr>))"

definition asRoomId :: "jstr \<Rightarrow> room_exn + jstr" where
  "asRoomId s = (if isValidRoomId s then Inr s else Inl (InvalidRoomIdError s))"

section \<open>Derivation\<close>

fun source_text :: "room_source \<Rightarrow> jstr" where
  "source_text Explicit = js ''explicit''"
| "source_text Git = js ''git''"
| "source_text Cwd = js ''cwd''"

definition room_hash_text :: "room_source \<Rightarrow> jstr \<Rightarrow> jstr" where
  "room_hash_text source s = source_text source @ [0] @ s"

definition hashRoomId :: "room_env \<Rightarrow> room_source \<Rightarrow> jstr \<Rightarrow> room_exn + jstr" where
  "hashRoomId env source s =
     (if s = [] then Inl (Room_exn (TypeErrorExn ''room hash input must not be empty''))
      else if 0 \<in> set s then Inl (Room_exn (TypeErrorExn ''room hash input must not contain NUL''))
      else Inr (ROOM_ID_PREFIX @ take ROOM_ID_HEX_LENGTH (sha256_hex env (room_hash_text source s))))"

definition canonicalizeDirectory :: "room_env \<Rightarrow> jstr \<Rightarrow> room_exn + jstr" where
  "canonicalizeDirectory env directory =
     (if directory = [] then Inl (Room_exn (TypeErrorExn ''working directory must be a non-empty string''))
      else if 0 \<in> set directory then Inl (Room_exn (TypeErrorExn ''working directory must not contain NUL''))
      else (case realpath env (path_resolve env directory) of
          None \<Rightarrow> Inl (Realpath_failed (path_resolve env directory))
        | Some canonical \<Rightarrow>
            Inr (if path_isAbsolute env canonical then canonical else path_resolve env canonical)))"

definition stripGitOutputLineEnding :: "jstr \<Rightarrow> jstr" where
  "stripGitOutputLineEnding output =
     (if output \<noteq> [] \<and> last output = 10
      then (let line = butlast output in if line \<noteq> [] \<and> last line = 13 then butlast line else line)
      else output)"

definition discoverGitCommonDirectory :: "room_env \<Rightarrow> jstr \<Rightarrow> room_exn + jstr option" where
  "discoverGitCommonDirectory env directory =
     (case canonicalizeDirectory env directory of
        Inl x \<Rightarrow> Inl x
      | Inr canonicalCwd \<Rightarrow>
          Inr (case git_runner env canonicalCwd GIT_COMMON_DIRECTORY_ARGS of
             Some (Text output) \<Rightarrow>
               (let rawCommonDirectory = stripGitOutputLineEnding output
                in if rawCommonDirectory = [] \<or> 0 \<in> set rawCommonDirectory then None
                   else realpath env
                     (if path_isAbsolute env rawCommonDirectory then rawCommonDirectory
                      else path_resolve_from env canonicalCwd rawCommonDirectory))
           | _ \<Rightarrow> None))"

definition room_of :: "room_env \<Rightarrow> room_source \<Rightarrow> jstr \<Rightarrow> room_exn + resolved_room" where
  "room_of env source s =
     (case hashRoomId env source s of
        Inl x \<Rightarrow> Inl x
      | Inr roomId \<Rightarrow> Inr \<lparr>rr_roomId = roomId, rr_source = source, rr_value = s\<rparr>)"

definition resolve_directory_room :: "room_env \<Rightarrow> jstr \<Rightarrow> room_exn + resolved_room" where
  "resolve_directory_room env cwd =
     (case canonicalizeDirectory env cwd of
        Inl x \<Rightarrow> Inl x
      | Inr canonicalCwd \<Rightarrow>
          (case discoverGitCommonDirectory env canonicalCwd of
             Inl x \<Rightarrow> Inl x
           | Inr (Some commonDirectory) \<Rightarrow> room_of env Git commonDirectory
           | Inr None \<Rightarrow> room_of env Cwd canonicalCwd))"

definition resolveRoom :: "room_env \<Rightarrow> room_options \<Rightarrow> room_exn + resolved_room" where
  "resolveRoom env options =
     (case getExplicitProject options of
        Inl x \<Rightarrow> Inl x
      | Inr (Some explicitProject) \<Rightarrow>
          (case normalizeProjectLabel env explicitProject of
             Inl x \<Rightarrow> Inl x
           | Inr normalizedProject \<Rightarrow> room_of env Explicit normalizedProject)
      | Inr None \<Rightarrow>
          resolve_directory_room env (case ro_cwd options of Some d \<Rightarrow> d | None \<Rightarrow> process_cwd env))"

definition deriveRoomId :: "room_env \<Rightarrow> room_source \<Rightarrow> jstr \<Rightarrow> room_exn + jstr" where
  "deriveRoomId env source s =
     (case (if source = Explicit then normalizeProjectLabel env s else canonicalizeDirectory env s) of
        Inl x \<Rightarrow> Inl x
      | Inr normalizedValue \<Rightarrow> hashRoomId env source normalizedValue)"

section \<open>Exact rooms\<close>

fun extractRoomId :: "room_like \<Rightarrow> jstr" where
  "extractRoomId (Room_text s) = s"
| "extractRoomId (Room_roomId s) = s"
| "extractRoomId (Room_id s) = s"

definition roomsEqual :: "room_like \<Rightarrow> room_like \<Rightarrow> bool" where
  "roomsEqual left right \<longleftrightarrow> isValidRoomId (extractRoomId left) \<and> isValidRoomId (extractRoomId right) \<and>
     extractRoomId left = extractRoomId right"

definition assertExactRoom :: "room_like \<Rightarrow> room_like \<Rightarrow> room_exn + jstr" where
  "assertExactRoom currentRoom targetRoom =
     (case asRoomId (extractRoomId currentRoom) of
        Inl x \<Rightarrow> Inl x
      | Inr current \<Rightarrow>
          (case asRoomId (extractRoomId targetRoom) of
             Inl x \<Rightarrow> Inl x
           | Inr target \<Rightarrow> if current \<noteq> target then Inl (RoomIsolationError current target) else Inr target))"


section \<open>Normal form of a label\<close>

definition not_both_hyphens :: "nat \<Rightarrow> nat \<Rightarrow> bool" where
  "not_both_hyphens a b \<longleftrightarrow> \<not> (a = hyphen \<and> b = hyphen)"

text \<open>Letters and single inner hyphens.\<close>

definition clean_label :: "room_env \<Rightarrow> jstr \<Rightarrow> bool" where
  "clean_label env l \<longleftrightarrow> list_all (\<lambda>c. un_letter env c \<or> c = hyphen) l \<and>
     (l \<noteq> [] \<longrightarrow> hd l \<noteq> hyphen) \<and> successively not_both_hyphens l"

lemma clean_label_prefix: "clean_label env (xs @ ys) \<Longrightarrow> clean_label env xs"
  by (auto simp: clean_label_def successively_append_iff hd_append split: if_splits)

lemma clean_label_take: "clean_label env l \<Longrightarrow> clean_label env (take n l)"
  using clean_label_prefix [of env "take n l" "drop n l"] by simp

lemma pop_hyphens_prefix: "\<exists>ys. s = pop_hyphens s @ ys"
proof -
  have "rev s = takeWhile (\<lambda>c. c = hyphen) (rev s) @ dropWhile (\<lambda>c. c = hyphen) (rev s)" by simp
  then have "s = pop_hyphens s @ rev (takeWhile (\<lambda>c. c = hyphen) (rev s))"
    unfolding pop_hyphens_def by (metis rev_append rev_rev_ident)
  then show ?thesis ..
qed

lemma pop_hyphens_last: "pop_hyphens s \<noteq> [] \<Longrightarrow> last (pop_hyphens s) \<noteq> hyphen"
  using hd_dropWhile [of "\<lambda>c. c = hyphen" "rev s"] by (simp add: pop_hyphens_def last_rev)

lemma pop_hyphens_id: "s = [] \<or> last s \<noteq> hyphen \<Longrightarrow> pop_hyphens s = s"
  by (cases s rule: rev_cases) (auto simp: pop_hyphens_def)

lemma label_loop_clean:
  assumes "\<not> un_letter env hyphen"
  shows "clean_label env out \<Longrightarrow> out = [] \<or> last out \<noteq> hyphen \<Longrightarrow> clean_label env (label_loop env cs out p)"
proof (induction cs arbitrary: out p)
  case (Cons c cs)
  show ?case
  proof (cases "un_letter env c")
    case True
    then have "c \<noteq> hyphen" using assms by auto
    then have "clean_label env (out @ (if p \<and> out \<noteq> [] then [hyphen] else []) @ [c])"
      using Cons.prems True by (auto simp: clean_label_def successively_append_iff successively_Cons hd_append not_both_hyphens_def)
    then show ?thesis using Cons.IH True \<open>c \<noteq> hyphen\<close> by simp
  next
    case False
    then show ?thesis using Cons by simp
  qed
qed simp

text \<open>On a label in normal form the loop is the identity.\<close>

lemma label_loop_id:
  assumes "\<not> un_letter env hyphen"
  shows "out \<noteq> [] \<Longrightarrow> list_all (\<lambda>c. un_letter env c \<or> c = hyphen) xs \<Longrightarrow> successively not_both_hyphens xs \<Longrightarrow>
    (xs \<noteq> [] \<longrightarrow> last xs \<noteq> hyphen) \<Longrightarrow> (p \<longrightarrow> xs \<noteq> [] \<and> hd xs \<noteq> hyphen) \<Longrightarrow>
    label_loop env xs out p = out @ (if p then [hyphen] else []) @ xs"
proof (induction xs arbitrary: out p)
  case (Cons c xs)
  show ?case
  proof (cases "un_letter env c")
    case True
    let ?out = "out @ (if p \<and> out \<noteq> [] then [hyphen] else []) @ [c]"
    have "label_loop env xs ?out False = ?out @ (if False then [hyphen] else []) @ xs"
      using Cons.prems by (intro Cons.IH) (auto simp: successively_Cons)
    then show ?thesis using True Cons.prems(1) by simp
  next
    case False
    then have c: "c = hyphen" using Cons.prems(2) by simp
    then have p: "\<not> p" using Cons.prems(5) by simp
    have xs: "xs \<noteq> []" "hd xs \<noteq> hyphen"
      using Cons.prems(3,4) c by (auto simp: successively_Cons not_both_hyphens_def)
    have "label_loop env xs out True = out @ (if True then [hyphen] else []) @ xs"
      using Cons.prems xs by (intro Cons.IH) (auto simp: successively_Cons)
    then show ?thesis using False p c Cons.prems(1) by simp
  qed
qed simp

lemma normalizeProjectLabel_clean:
  assumes "\<not> un_letter env hyphen" and "normalizeProjectLabel env s = Inr l"
  shows "clean_label env l \<and> l \<noteq> [] \<and> last l \<noteq> hyphen \<and> length l \<le> 48"
proof -
  obtain n where l: "l = pop_hyphens (take MAX_PROJECT_LABEL_CODE_POINTS (label_loop env n [] False))" and ne: "l \<noteq> []"
    using assms(2) by (auto simp: normalizeProjectLabel_def Let_def split: option.splits if_splits)
  let ?t = "take MAX_PROJECT_LABEL_CODE_POINTS (label_loop env n [] False)"
  have "clean_label env []" by (simp add: clean_label_def)
  from clean_label_take [OF label_loop_clean [OF assms(1) this]] have t: "clean_label env ?t" by simp
  obtain ys where ys: "?t = l @ ys" using pop_hyphens_prefix [of ?t] l by blast
  then have "length l \<le> length ?t" by simp
  moreover have "length ?t \<le> 48" by (simp add: MAX_PROJECT_LABEL_CODE_POINTS_def)
  moreover have "clean_label env l" using t ys clean_label_prefix by metis
  ultimately show ?thesis using pop_hyphens_last ne l by auto
qed

lemma normalizeProjectLabel_fixed:
  assumes "\<not> un_letter env hyphen" and "clean_label env l" and "l \<noteq> []" and "last l \<noteq> hyphen" and "length l \<le> 48"
    and "un_fold env l = Some l" and "\<forall>c. un_letter env c \<or> c = hyphen \<longrightarrow> \<not> un_control env c"
  shows "normalizeProjectLabel env l = Inr l"
proof -
  obtain c xs where l: "l = c # xs" using assms(3) by (cases l) auto
  have c: "un_letter env c" using assms(2) by (auto simp: clean_label_def l)
  have "label_loop env xs [c] False = [c] @ (if False then [hyphen] else []) @ xs"
    using assms(2,4) by (intro label_loop_id assms(1)) (auto simp: clean_label_def l successively_Cons)
  then have "label_loop env l [] False = l" using c by (simp add: l)
  moreover have "\<not> list_ex (un_control env) l"
    using assms(2,7) by (auto simp: clean_label_def list_ex_iff list_all_iff)
  ultimately show ?thesis
    using assms(3-6) by (simp add: normalizeProjectLabel_def Let_def MAX_PROJECT_LABEL_CODE_POINTS_def pop_hyphens_id)
qed

text \<open>C34: a normalized project label has between 1 and 48 code points, all of them letters, numbers or single
  hyphens inside, whatever the Unicode tables say of other characters; and once case folding leaves it alone,
  normalizing it again returns it, so a label that was published normalizes to itself.\<close>

theorem project_label_normal_form:
  assumes "\<not> un_letter env hyphen" and "\<forall>c. un_letter env c \<or> c = hyphen \<longrightarrow> \<not> un_control env c"
    and "normalizeProjectLabel env s = Inr l"
  shows "1 \<le> length l \<and> length l \<le> 48 \<and> clean_label env l \<and> last l \<noteq> hyphen \<and>
    (un_fold env l = Some l \<longrightarrow> normalizeProjectLabel env l = Inr l)"
  using normalizeProjectLabel_clean [OF assms(1,3)] normalizeProjectLabel_fixed [OF assms(1) _ _ _ _ _ assms(2)]
  by (auto simp: Suc_le_eq)

text \<open>An environment over ASCII.\<close>

definition ascii_env :: room_env where
  "ascii_env = \<lparr>un_fold = (\<lambda>s. Some (map ascii_lower s)), un_letter = is_alnum, un_control = (\<lambda>c. c < 32 \<or> c = 127),
     sha256_hex = (\<lambda>s. replicate 64 (48 + length s mod 10)), path_resolve = (\<lambda>p. p), path_resolve_from = (\<lambda>d p. d @ [47] @ p),
     path_isAbsolute = (\<lambda>p. p \<noteq> [] \<and> hd p = 47), realpath = Some, git_runner = (\<lambda>_ _. None), process_cwd = js ''/home''\<rparr>"

lemmas room_eval = ascii_env_def is_alnum_def is_digit_def is_lower_def is_upper_def is_hex_def in_range_def hyphen_def js_def
  ascii_lower_def

theorem project_label_normal_form_witness:
  "\<exists>l. normalizeProjectLabel ascii_env (js '' My  Repo!'') = Inr l \<and> l = js ''my-repo'' \<and> last l \<noteq> hyphen"
proof -
  have run: "normalizeProjectLabel ascii_env (js '' My  Repo!'') = Inr (js ''my-repo'')"
    by (simp add: normalizeProjectLabel_def Let_def room_eval MAX_PROJECT_LABEL_CODE_POINTS_def pop_hyphens_def)
  have "\<not> un_letter ascii_env hyphen" "\<forall>c. un_letter ascii_env c \<or> c = hyphen \<longrightarrow> \<not> un_control ascii_env c"
    by (auto simp: room_eval)
  from project_label_normal_form [OF this run] run show ?thesis by blast
qed

section \<open>Derived rooms\<close>

definition hash_is_hex :: "room_env \<Rightarrow> bool" where
  "hash_is_hex env \<longleftrightarrow> (\<forall>t. length (sha256_hex env t) = 64 \<and> list_all is_hex (sha256_hex env t))"

lemma list_all_take: "list_all P s \<Longrightarrow> list_all P (take n s)"
  by (metis append_take_drop_id list_all_append)

lemma hashRoomId_valid:
  assumes "hash_is_hex env" and "hashRoomId env source s = Inr roomId"
  shows "isValidRoomId roomId"
  using assms
  by (auto simp: hashRoomId_def hash_is_hex_def isValidRoomId_def ROOM_ID_PREFIX_def ROOM_ID_HEX_LENGTH_def js_def
      list_all_take split: if_splits)

lemma hashRoomId_text:
  "hashRoomId env source s = Inr roomId \<Longrightarrow> roomId = ROOM_ID_PREFIX @ take 32 (sha256_hex env (room_hash_text source s))"
  by (simp add: hashRoomId_def ROOM_ID_HEX_LENGTH_def split: if_splits)

lemma room_of_source: "room_of env source s = Inr r \<Longrightarrow> rr_source r = source \<and> rr_value r = s \<and> hashRoomId env source s = Inr (rr_roomId r)"
  by (auto simp: room_of_def split: sum.splits)

lemma source_text_no_nul: "0 \<notin> set (source_text source)"
  by (cases source) (auto simp: js_def)

lemma split_at_nul:
  "0 \<notin> set a \<Longrightarrow> 0 \<notin> set b \<Longrightarrow> a @ [0] @ s = b @ [0] @ (t::nat list) \<Longrightarrow> a = b \<and> s = t"
proof (induction a arbitrary: b)
  case Nil
  then show ?case by (cases b) auto
next
  case (Cons x a)
  then show ?case by (cases b) auto
qed

lemma room_hash_text_inject: "room_hash_text p s = room_hash_text q t \<Longrightarrow> p = q \<and> s = t"
  using split_at_nul [OF source_text_no_nul source_text_no_nul, of p s q t]
  by (cases p; cases q) (auto simp: room_hash_text_def js_def)

text \<open>C35: a resolved room has a valid opaque id that is \<open>r1-\<close> followed by the first 32 hexadecimal digits of the
  SHA-256 of its source word, a NUL and its value; an explicit project, and nothing else, makes the source
  explicit, and its label is in normal form; and two rooms that were resolved independently share an id only
  when source and value agree, or when exactly these two different texts, source word and value of the one and
  of the other, collide in their first 32 hexadecimal digits.\<close>

theorem resolved_room_identity:
  assumes "hash_is_hex env" and "resolveRoom env options = Inr r" and "resolveRoom env options' = Inr r'"
  shows "let word = (\<lambda>source. js (case source of Explicit \<Rightarrow> ''explicit'' | Git \<Rightarrow> ''git'' | Cwd \<Rightarrow> ''cwd''));
      hashed = (\<lambda>q. word (rr_source q) @ [0] @ rr_value q) in
    isValidRoomId (rr_roomId r) \<and> rr_roomId r = js ''r1-'' @ take 32 (sha256_hex env (hashed r)) \<and>
    (rr_source r = Explicit \<longleftrightarrow> (\<exists>p. getExplicitProject options = Inr (Some p) \<and> normalizeProjectLabel env p = Inr (rr_value r))) \<and>
    (rr_roomId r = rr_roomId r' \<longrightarrow>
       (rr_source r = rr_source r' \<and> rr_value r = rr_value r') \<or>
       (hashed r \<noteq> hashed r' \<and> take 32 (sha256_hex env (hashed r)) = take 32 (sha256_hex env (hashed r'))))"
proof -
  have hashed: "hashRoomId env (rr_source q) (rr_value q) = Inr (rr_roomId q)"
    if "resolveRoom env opts = Inr q" for opts q
    using that
    by (auto simp: resolveRoom_def resolve_directory_room_def split: sum.splits option.splits dest!: room_of_source)
  have explicit: "rr_source r = Explicit \<longleftrightarrow>
      (\<exists>p. getExplicitProject options = Inr (Some p) \<and> normalizeProjectLabel env p = Inr (rr_value r))"
  proof (cases "getExplicitProject options")
    case (Inl x)
    then show ?thesis using assms(2) by (simp add: resolveRoom_def)
  next
    case (Inr p)
    show ?thesis
    proof (cases p)
      case (Some q)
      then show ?thesis using assms(2) Inr by (auto simp: resolveRoom_def split: sum.splits dest!: room_of_source)
    next
      case None
      then have "resolve_directory_room env (case ro_cwd options of Some d \<Rightarrow> d | None \<Rightarrow> process_cwd env) = Inr r"
        using assms(2) Inr by (simp add: resolveRoom_def)
      then have "rr_source r \<noteq> Explicit"
        by (auto simp: resolve_directory_room_def split: sum.splits option.splits dest!: room_of_source)
      then show ?thesis using None Inr by simp
    qed
  qed
  have digest: "rr_roomId q = js ''r1-'' @ take 32 (sha256_hex env (room_hash_text (rr_source q) (rr_value q)))"
    if "resolveRoom env opts = Inr q" for opts q
    using hashRoomId_text [OF hashed [OF that]] by (simp add: ROOM_ID_PREFIX_def)
  have texts: "room_hash_text (rr_source q) (rr_value q) =
      js (case rr_source q of Explicit \<Rightarrow> ''explicit'' | Git \<Rightarrow> ''git'' | Cwd \<Rightarrow> ''cwd'') @ [0] @ rr_value q" for q
    by (cases "rr_source q") (simp_all add: room_hash_text_def)
  have valid: "isValidRoomId (rr_roomId r)" using hashRoomId_valid [OF assms(1) hashed [OF assms(2)]] .
  have collide: "rr_roomId r = rr_roomId r' \<Longrightarrow>
      (rr_source r = rr_source r' \<and> rr_value r = rr_value r') \<or>
      (room_hash_text (rr_source r) (rr_value r) \<noteq> room_hash_text (rr_source r') (rr_value r') \<and>
       take 32 (sha256_hex env (room_hash_text (rr_source r) (rr_value r))) =
       take 32 (sha256_hex env (room_hash_text (rr_source r') (rr_value r'))))"
    using digest [OF assms(2)] digest [OF assms(3)] room_hash_text_inject by auto
  show ?thesis
    unfolding Let_def texts [symmetric]
    using valid digest [OF assms(2)] explicit collide by blast
qed

theorem resolved_room_identity_witness:
  "\<exists>r. resolveRoom ascii_env \<lparr>ro_project = Some (js ''Repo''), ro_explicitProject = None, ro_cwd = None\<rparr> = Inr r \<and>
     rr_source r = Explicit \<and> isValidRoomId (rr_roomId r)"
proof -
  let ?o = "\<lparr>ro_project = Some (js ''Repo''), ro_explicitProject = None, ro_cwd = None\<rparr>"
  have "hash_is_hex ascii_env"
    by (auto simp: hash_is_hex_def ascii_env_def is_hex_def is_digit_def in_range_def list_all_iff)
  moreover obtain r where run: "resolveRoom ascii_env ?o = Inr r" and "rr_source r = Explicit"
    by (simp add: resolveRoom_def getExplicitProject_def normalizeProjectLabel_def Let_def room_eval
        MAX_PROJECT_LABEL_CODE_POINTS_def pop_hyphens_def room_of_def hashRoomId_def)
  ultimately show ?thesis using resolved_room_identity [OF _ run run] unfolding Let_def by blast
qed

section \<open>Boundaries\<close>

text \<open>C36: a room identity is accepted exactly when it has the two fields and no other, and then its storage key is a
  single file name of at most 128 ASCII letters, digits, dots, underscores and hyphens: no separator, not a
  relative directory, not a reserved device name, and no trailing dot.\<close>

theorem storage_key_is_one_file_name:
  assumes "validateRoomIdentity env input = Inr identity"
  shows "\<exists>props. input = Object props \<and> set (map fst props) = {js ''roomId'', js ''storageKey''} \<and>
    map_of props (js ''roomId'') = Some (Text (ri_roomId identity)) \<and>
    map_of props (js ''storageKey'') = Some (Text (ri_storageKey identity)) \<and>
    isCanonicalRoomId env (ri_roomId identity) \<and>
    (let key = ri_storageKey identity in
       1 \<le> length key \<and> length key \<le> 128 \<and> list_all (\<lambda>c. is_alnum c \<or> c = 46 \<or> c = 95 \<or> c = hyphen) key \<and>
       47 \<notin> set key \<and> 92 \<notin> set key \<and> hd key \<noteq> 46 \<and> last key \<noteq> 46 \<and> \<not> isWindowsReserved key)"
proof -
  obtain props where i: "input = Object props"
    using assms by (cases input) (auto simp: validateRoomIdentity_def)
  note run = assms [unfolded validateRoomIdentity_def i isRoomIdentityRecord.simps option.case Let_def]
  obtain roomId where r: "text_field (js ''roomId'') props = Some roomId" "isCanonicalRoomId env roomId"
    using run by (auto split: option.splits if_splits)
  obtain key where k: "text_field (js ''storageKey'') props = Some key" "isSafeStorageKey env key"
    using run by (auto split: option.splits if_splits)
  have only: "\<forall>x \<in> set (map fst props). x = js ''roomId'' \<or> x = js ''storageKey''"
    using run r k by (auto simp: filter_empty_conv split: if_splits)
  have id: "identity = \<lparr>ri_roomId = roomId, ri_storageKey = key\<rparr>" using run r k by (auto split: if_splits)
  have maps: "map_of props (js ''roomId'') = Some (Text roomId)" "map_of props (js ''storageKey'') = Some (Text key)"
    using r(1) k(1) by (auto simp: text_field_def split: option.splits jsval.splits)
  have "set (map fst props) = {js ''roomId'', js ''storageKey''}"
    using only maps [THEN map_of_SomeD] by (force simp: image_iff)
  moreover have "1 \<le> length key \<and> length key \<le> 128 \<and> list_all (\<lambda>c. is_alnum c \<or> c = 46 \<or> c = 95 \<or> c = hyphen) key \<and>
       47 \<notin> set key \<and> 92 \<notin> set key \<and> hd key \<noteq> 46 \<and> last key \<noteq> 46 \<and> \<not> isWindowsReserved key"
  proof -
    obtain c rest where key: "key = c # rest" and c: "is_alnum c" "length rest \<le> 127"
      "list_all (\<lambda>c. is_alnum c \<or> c = 46 \<or> c = 95 \<or> c = hyphen) rest"
      using k(2) by (cases key) (auto simp: isSafeStorageKey_def matchesStorageKeyPattern_def)
    have "list_all (\<lambda>c. is_alnum c \<or> c = 46 \<or> c = 95 \<or> c = hyphen) key" using c by (simp add: key)
    moreover from this have "47 \<notin> set key" "92 \<notin> set key"
      by (auto simp: list_all_iff is_alnum_def is_digit_def is_lower_def is_upper_def in_range_def hyphen_def)
    moreover have "hd key \<noteq> 46" using c(1) by (auto simp: key is_alnum_def is_digit_def is_lower_def is_upper_def in_range_def)
    ultimately show ?thesis using k(2) c(2) by (simp add: key isSafeStorageKey_def)
  qed
  ultimately show ?thesis using i r k maps by (simp add: id Let_def)
qed

theorem storage_key_is_one_file_name_witness:
  "\<exists>identity. validateRoomIdentity ascii_env
      (Object [(js ''roomId'', Text (js ''room'')), (js ''storageKey'', Text (js ''k-1''))]) = Inr identity \<and>
     length (ri_storageKey identity) \<le> 128 \<and> \<not> isWindowsReserved (ri_storageKey identity)"
proof -
  obtain i where run: "validateRoomIdentity ascii_env
      (Object [(js ''roomId'', Text (js ''room'')), (js ''storageKey'', Text (js ''k-1''))]) = Inr i"
    by (simp add: validateRoomIdentity_def text_field_def Let_def isCanonicalRoomId_def isSafeStorageKey_def utf16_length_def
        is_trimmed_def is_space_def isWindowsReserved_def WINDOWS_RESERVED_STEMS_def matchesStorageKeyPattern_def
        MAX_ROOM_ID_LENGTH_def MAX_STORAGE_KEY_LENGTH_def room_eval)
  from storage_key_is_one_file_name [OF run] run show ?thesis by (auto simp: Let_def)
qed

text \<open>The exact-room check never falls back across rooms: it returns the target exactly when both ids are valid
  and equal, and then \<open>roomsEqual\<close> agrees; otherwise it throws, an isolation error exactly when both are valid
  and different.\<close>

lemma exact_room_never_crosses:
  "(assertExactRoom current target = Inr t \<longleftrightarrow> roomsEqual current target \<and> t = extractRoomId target) \<and>
   (assertExactRoom current target = Inl (RoomIsolationError c d) \<longleftrightarrow>
      isValidRoomId c \<and> isValidRoomId d \<and> c \<noteq> d \<and> c = extractRoomId current \<and> d = extractRoomId target)"
  by (auto simp: assertExactRoom_def asRoomId_def roomsEqual_def)

end
