(* ===== verification/Identity.thy ===== *)
theory Identity
  imports Rooms
begin

text \<open>
  Identities (\<open>src/identity.ts\<close>): the grammars of session ids, runtime UUIDs and safe
  identifiers, canonical peer addresses, and the runtime life cycle.  A regular expression of
  the source is a list of character classes that must match one by one.
\<close>

section \<open>Grammars\<close>

definition matches_classes :: "(nat \<Rightarrow> bool) list \<Rightarrow> jstr \<Rightarrow> bool" where
  "matches_classes classes s \<longleftrightarrow> length s = length classes \<and> list_all2 (\<lambda>p c. p c) classes s"

definition is_char :: "nat \<Rightarrow> nat \<Rightarrow> bool" where
  "is_char a c \<longleftrightarrow> c = a"

definition UUID_CLASSES :: "(nat \<Rightarrow> bool) \<Rightarrow> (nat \<Rightarrow> bool) list" where
  "UUID_CLASSES version = replicate 8 is_hex @ [is_char hyphen] @ replicate 4 is_hex @ [is_char hyphen] @
     [version] @ replicate 3 is_hex @ [is_char hyphen] @
     [\<lambda>c. c = 56 \<or> c = 57 \<or> c = 97 \<or> c = 98] @ replicate 3 is_hex @ [is_char hyphen] @ replicate 12 is_hex"

definition isUuid :: "jstr \<Rightarrow> bool" where
  "isUuid s \<longleftrightarrow> matches_classes (UUID_CLASSES (in_range 49 53)) s"

definition isUuidV4 :: "jstr \<Rightarrow> bool" where
  "isUuidV4 s \<longleftrightarrow> matches_classes (UUID_CLASSES (is_char 52)) s"

definition isSessionId :: "jstr \<Rightarrow> bool" where
  "isSessionId s \<longleftrightarrow> s \<noteq> [] \<and> is_alnum (hd s) \<and> is_alnum (last s) \<and>
     list_all (\<lambda>c. is_alnum c \<or> c = 46 \<or> c = 95 \<or> c = hyphen) s"

definition isSafeIdentifier :: "jstr \<Rightarrow> bool" where
  "isSafeIdentifier s \<longleftrightarrow> (case s of
     [] \<Rightarrow> False
   | c # rest \<Rightarrow> is_alnum c \<and> length rest \<le> 127 \<and>
       list_all (\<lambda>c. is_alnum c \<or> c = 46 \<or> c = 95 \<or> c = 58 \<or> c = 64 \<or> c = hyphen) rest)"

datatype identity_exn =
    Invalid_session_id
  | Invalid_runtime_id
  | Invalid_room room_exn

definition asSessionId :: "jstr \<Rightarrow> identity_exn + jstr" where
  "asSessionId s = (if isSessionId s then Inr s else Inl Invalid_session_id)"

definition asRuntimeId :: "jstr \<Rightarrow> identity_exn + jstr" where
  "asRuntimeId s = (if isUuid s then Inr s else Inl Invalid_runtime_id)"

definition asNormalizedName :: "room_env \<Rightarrow> jstr \<Rightarrow> room_exn + jstr" where
  "asNormalizedName env s = normalizeProjectLabel env s"

section \<open>Addresses and identities\<close>

record runtime_identity =
  id_sessionId :: jstr
  id_runtimeId :: jstr

record peer_address =
  pa_runtimeId :: jstr
  pa_roomId :: jstr

definition createCanonicalPeerAddress :: "jstr \<Rightarrow> jstr \<Rightarrow> identity_exn + peer_address" where
  "createCanonicalPeerAddress runtimeId roomId =
     (case asRuntimeId runtimeId of
        Inl x \<Rightarrow> Inl x
      | Inr runtime \<Rightarrow>
          (case asRoomId roomId of
             Inl x \<Rightarrow> Inl (Invalid_room x)
           | Inr room \<Rightarrow> Inr \<lparr>pa_runtimeId = runtime, pa_roomId = room\<rparr>))"

text \<open>The factory of runtime ids is a sequence of texts; each is checked before it is used.\<close>

definition createRuntimeIdentityWithFactory :: "jstr \<Rightarrow> jstr \<Rightarrow> identity_exn + runtime_identity" where
  "createRuntimeIdentityWithFactory sessionId fresh_id =
     (case asSessionId sessionId of
        Inl x \<Rightarrow> Inl x
      | Inr session \<Rightarrow>
          (case asRuntimeId fresh_id of
             Inl x \<Rightarrow> Inl x
           | Inr runtime \<Rightarrow> Inr \<lparr>id_sessionId = session, id_runtimeId = runtime\<rparr>))"

definition adaptExternalRuntimeIdentity :: "jstr \<Rightarrow> jstr \<Rightarrow> identity_exn + runtime_identity" where
  "adaptExternalRuntimeIdentity sessionId runtimeInstanceId =
     (case asSessionId sessionId of
        Inl x \<Rightarrow> Inl x
      | Inr session \<Rightarrow>
          (case asRuntimeId runtimeInstanceId of
             Inl x \<Rightarrow> Inl x
           | Inr runtime \<Rightarrow> Inr \<lparr>id_sessionId = session, id_runtimeId = runtime\<rparr>))"

section \<open>Runtime life cycle\<close>

record lifecycle =
  lc_active :: "runtime_identity option"
  lc_drawn :: nat

text \<open>The factory is called only after the session id has been accepted.\<close>

definition start :: "(nat \<Rightarrow> jstr) \<Rightarrow> jstr \<Rightarrow> (lifecycle, identity_exn, runtime_identity) exec" where
  "start factory sessionId = bindE (getE lc_drawn)
     (\<lambda>i. if \<not> isSessionId sessionId then throw Invalid_session_id
        else thenE (modE (\<lambda>s. s\<lparr>lc_drawn := Suc i\<rparr>))
          (case createRuntimeIdentityWithFactory sessionId (factory i) of
             Inl x \<Rightarrow> throw x
           | Inr identity \<Rightarrow> thenE (modE (\<lambda>s. s\<lparr>lc_active := Some identity\<rparr>)) (ret identity)))"

definition shutdown :: "jstr \<Rightarrow> (lifecycle, identity_exn, unit) exec" where
  "shutdown runtimeId =
     (case asRuntimeId runtimeId of
        Inl x \<Rightarrow> throw x
      | Inr canonicalRuntimeId \<Rightarrow> bindE (getE lc_active)
          (\<lambda>active. whenE (map_option id_runtimeId active = Some canonicalRuntimeId)
             (modE (\<lambda>s. s\<lparr>lc_active := None\<rparr>))))"

lemma isUuid_length: "isUuid s \<Longrightarrow> length s = 36"
  by (simp add: isUuid_def matches_classes_def UUID_CLASSES_def)

lemma classes_weaken:
  assumes "list_all2 (\<lambda>p c. p c) (A @ v # B) s" and "\<And>c. v c \<Longrightarrow> w c"
  shows "list_all2 (\<lambda>p c. p c) (A @ w # B) s"
proof -
  obtain us x ys where "s = us @ x # ys" "length us = length A" "list_all2 (\<lambda>p c. p c) A us" "v x" "list_all2 (\<lambda>p c. p c) B ys"
    using assms(1) by (auto simp: list_all2_append1 list_all2_Cons1)
  then show ?thesis using assms(2) by (auto simp: list_all2_append)
qed

text \<open>A version 4 UUID is one of the accepted versions, and a start replaces the identity that a later shutdown must name.\<close>

lemma isUuidV4_isUuid: "isUuidV4 s \<Longrightarrow> isUuid s"
  using classes_weaken [of "replicate 8 is_hex @ [is_char hyphen] @ replicate 4 is_hex @ [is_char hyphen]" "is_char 52" _ s "in_range 49 53"]
  by (simp add: isUuidV4_def isUuid_def matches_classes_def UUID_CLASSES_def is_char_def in_range_def)

lemma start_outcome:
  "start factory sessionId s = (Inr identity, t) \<Longrightarrow>
   lc_active t = Some identity \<and> isSessionId (id_sessionId identity) \<and> isUuid (id_runtimeId identity)"
  by (auto simp: start_def createRuntimeIdentityWithFactory_def asSessionId_def asRuntimeId_def exec_simps split: if_splits)

lemma shutdown_outcome:
  "shutdown r s = (Inr u, t) \<Longrightarrow>
   lc_active t = (if map_option id_runtimeId (lc_active s) = Some r then None else lc_active s)"
  by (auto simp: shutdown_def asRuntimeId_def exec_simps split: if_splits)

end
