(* ===== verification/Naming.thy ===== *)
theory Naming
  imports Identity "HOL-Library.Word"
begin

unbundle bit_operations_syntax

text \<open>
  Published peer names (\<open>src/discovery/naming.ts\<close>): a base in normal form, a hyphen and a suffix
  of four Crockford characters that is computed from the runtime id.  The SHA-256 digest of a
  text is a list of bytes and a field of the environment; the twenty bits of the suffix are
  taken with the 32-bit operations of the source.
\<close>

definition DEFAULT_NETWORK_BASE :: jstr where "DEFAULT_NETWORK_BASE = js ''agent''"
definition CROCKFORD_BASE32_ALPHABET :: jstr where "CROCKFORD_BASE32_ALPHABET = js ''0123456789abcdefghjkmnpqrstvwxyz''"
definition RUNTIME_NAME_SUFFIX_LENGTH :: nat where "RUNTIME_NAME_SUFFIX_LENGTH = 4"

record naming_env =
  ne_room :: room_env
  ne_sha256 :: "jstr \<Rightarrow> 8 word list"

datatype naming_exn =
    Naming_room room_exn
  | Naming_identity identity_exn
  | Naming_exn js_exn

record peer_name =
  pn_runtimeId :: jstr
  pn_base :: jstr
  pn_suffix :: jstr
  pn_networkName :: jstr

definition lift_room :: "room_exn + 'a \<Rightarrow> naming_exn + 'a" where
  "lift_room r = (case r of Inl x \<Rightarrow> Inl (Naming_room x) | Inr a \<Rightarrow> Inr a)"

definition lift_identity :: "identity_exn + 'a \<Rightarrow> naming_exn + 'a" where
  "lift_identity r = (case r of Inl x \<Rightarrow> Inl (Naming_identity x) | Inr a \<Rightarrow> Inr a)"

definition bind_sum :: "'x + 'a \<Rightarrow> ('a \<Rightarrow> 'x + 'b) \<Rightarrow> 'x + 'b" where
  "bind_sum r k = (case r of Inl x \<Rightarrow> Inl x | Inr a \<Rightarrow> k a)"

lemma bind_sum_Inr: "bind_sum r k = Inr b \<longleftrightarrow> (\<exists>a. r = Inr a \<and> k a = Inr b)"
  by (auto simp: bind_sum_def split: sum.splits)

lemma lift_Inr: "lift_room r = Inr a \<longleftrightarrow> r = Inr a" "lift_identity q = Inr b \<longleftrightarrow> q = Inr b"
  by (auto simp: lift_room_def lift_identity_def split: sum.splits)

definition is_crockford :: "nat \<Rightarrow> bool" where
  "is_crockford c \<longleftrightarrow> is_digit c \<or> in_range 97 104 c \<or> in_range 106 107 c \<or> c = 109 \<or> c = 110 \<or>
     in_range 112 116 c \<or> in_range 118 122 c"

definition isRuntimeNameSuffix :: "jstr \<Rightarrow> bool" where
  "isRuntimeNameSuffix s \<longleftrightarrow> length s = 4 \<and> list_all is_crockford s"

text \<open>\<open>lastIndexOf('-')\<close>, and the texts before and after it.\<close>

definition last_hyphen :: "jstr \<Rightarrow> nat option" where
  "last_hyphen s = (if hyphen \<in> set s then Some (length s - 1 - length (takeWhile (\<lambda>c. c \<noteq> hyphen) (rev s))) else None)"

definition normalizePeerName :: "naming_env \<Rightarrow> jstr option \<Rightarrow> naming_exn + jstr" where
  "normalizePeerName env s =
     lift_room (asNormalizedName (ne_room env) (case s of None \<Rightarrow> DEFAULT_NETWORK_BASE | Some v \<Rightarrow> v))"

definition normalizeSessionPeerName :: "naming_env \<Rightarrow> jstr option \<Rightarrow> naming_exn + jstr" where
  "normalizeSessionPeerName env s =
     (case s of
        None \<Rightarrow> lift_room (asNormalizedName (ne_room env) DEFAULT_NETWORK_BASE)
      | Some v \<Rightarrow>
          (case asNormalizedName (ne_room env) v of
             Inl _ \<Rightarrow> lift_room (asNormalizedName (ne_room env) DEFAULT_NETWORK_BASE)
           | Inr name \<Rightarrow> Inr name))"

text \<open>The base that a full name carries, when it is one.\<close>

definition published_base :: "naming_env \<Rightarrow> jstr \<Rightarrow> jstr option" where
  "published_base env s =
     (case last_hyphen s of
        None \<Rightarrow> None
      | Some separator \<Rightarrow>
          if separator > 0 \<and> isRuntimeNameSuffix (drop (Suc separator) s) \<and>
             asNormalizedName (ne_room env) (take separator s) = Inr (take separator s)
          then Some (take separator s) else None)"

definition normalizePeerLookupName :: "naming_env \<Rightarrow> jstr \<Rightarrow> naming_exn + jstr" where
  "normalizePeerLookupName env s =
     (case un_fold (ne_room env) s of
        None \<Rightarrow> Inl (Naming_exn (TypeErrorExn ''peer lookup name is not valid Unicode text''))
      | Some normalized \<Rightarrow>
          (case published_base env normalized of
             Some base \<Rightarrow> Inr (base @ [hyphen] @ drop (Suc (the (last_hyphen normalized))) normalized)
           | None \<Rightarrow> lift_room (asNormalizedName (ne_room env) normalized)))"

definition firstTwentyBits :: "8 word list \<Rightarrow> 32 word" where
  "firstTwentyBits digest =
     drop_bit 4 (of_nat (unat (digest ! 0) * 65536 + unat (digest ! 1) * 256 + unat (digest ! 2)))"

definition suffix_char :: "32 word \<Rightarrow> nat \<Rightarrow> nat" where
  "suffix_char bits index = CROCKFORD_BASE32_ALPHABET ! unat (drop_bit (index * 5) bits AND 31)"

definition runtimeNameSuffix :: "naming_env \<Rightarrow> jstr \<Rightarrow> naming_exn + jstr" where
  "runtimeNameSuffix env runtimeId =
     (case asRuntimeId runtimeId of
        Inl x \<Rightarrow> Inl (Naming_identity x)
      | Inr canonicalRuntimeId \<Rightarrow>
          Inr (map (suffix_char (firstTwentyBits (ne_sha256 env canonicalRuntimeId)))
            (rev [0..<RUNTIME_NAME_SUFFIX_LENGTH])))"

definition isPublishedNetworkName :: "naming_env \<Rightarrow> jstr \<Rightarrow> bool" where
  "isPublishedNetworkName env s \<longleftrightarrow> published_base env s \<noteq> None"

definition asPublishedNetworkName :: "naming_env \<Rightarrow> jstr \<Rightarrow> naming_exn + jstr" where
  "asPublishedNetworkName env s =
     (if isPublishedNetworkName env s then Inr s
      else Inl (Naming_exn (TypeErrorExn ''Invalid published network name'')))"

definition publishedNetworkBase :: "naming_env \<Rightarrow> jstr \<Rightarrow> naming_exn + jstr" where
  "publishedNetworkBase env s = bind_sum (asPublishedNetworkName env s)
     (\<lambda>published. lift_room (asNormalizedName (ne_room env) (take (the (last_hyphen published)) published)))"

definition buildNetworkName :: "naming_env \<Rightarrow> jstr \<Rightarrow> jstr \<Rightarrow> naming_exn + jstr" where
  "buildNetworkName env base runtimeId = bind_sum (lift_room (asNormalizedName (ne_room env) base))
     (\<lambda>normalizedBase. bind_sum (runtimeNameSuffix env runtimeId)
       (\<lambda>suffix. Inr (normalizedBase @ [hyphen] @ suffix)))"

definition createPublishedPeerName :: "naming_env \<Rightarrow> jstr option \<Rightarrow> jstr \<Rightarrow> naming_exn + peer_name" where
  "createPublishedPeerName env base runtimeId = bind_sum (normalizePeerName env base)
     (\<lambda>normalizedBase. bind_sum (lift_identity (asRuntimeId runtimeId))
     (\<lambda>canonicalRuntimeId. bind_sum (runtimeNameSuffix env canonicalRuntimeId)
     (\<lambda>suffix. bind_sum (buildNetworkName env normalizedBase canonicalRuntimeId)
     (\<lambda>name. Inr \<lparr>pn_runtimeId = canonicalRuntimeId, pn_base = normalizedBase, pn_suffix = suffix, pn_networkName = name\<rparr>))))"

definition createInitialPeerName :: "naming_env \<Rightarrow> jstr \<Rightarrow> jstr option \<Rightarrow> naming_exn + peer_name" where
  "createInitialPeerName env runtimeId sessionName = bind_sum (normalizeSessionPeerName env sessionName)
     (\<lambda>base. createPublishedPeerName env (Some base) runtimeId)"

definition synchronizePeerName ::
  "naming_env \<Rightarrow> peer_name \<Rightarrow> jstr option \<Rightarrow> jstr option \<Rightarrow> naming_exn + peer_name" where
  "synchronizePeerName env current sessionName p2pName =
     (case p2pName of
        Some p \<Rightarrow> bind_sum (lift_room (asNormalizedName (ne_room env) p)) (\<lambda>_. Inr current)
      | None \<Rightarrow> bind_sum (normalizeSessionPeerName env sessionName)
          (\<lambda>base. bind_sum (buildNetworkName env base (pn_runtimeId current))
          (\<lambda>name. Inr \<lparr>pn_runtimeId = pn_runtimeId current, pn_base = base, pn_suffix = pn_suffix current,
             pn_networkName = name\<rparr>)))"

definition splitPublishedNetworkName :: "naming_env \<Rightarrow> jstr \<Rightarrow> naming_exn + (jstr \<times> jstr)" where
  "splitPublishedNetworkName env s = bind_sum (asPublishedNetworkName env s)
     (\<lambda>published. bind_sum (lift_room (asNormalizedName (ne_room env) (take (the (last_hyphen published)) published)))
     (\<lambda>base. Inr (base, drop (Suc (the (last_hyphen published))) published)))"

section \<open>Suffixes\<close>

lemma alphabet_crockford: "i < 32 \<Longrightarrow> is_crockford (CROCKFORD_BASE32_ALPHABET ! i)"
proof -
  have "list_all is_crockford CROCKFORD_BASE32_ALPHABET"
    by (simp add: CROCKFORD_BASE32_ALPHABET_def js_def is_crockford_def is_digit_def in_range_def)
  moreover have "length CROCKFORD_BASE32_ALPHABET = 32" by (simp add: CROCKFORD_BASE32_ALPHABET_def js_def)
  moreover assume "i < 32"
  ultimately show ?thesis by (simp add: list_all_length)
qed

lemma suffix_char_ok: "is_crockford (suffix_char bits k)"
proof -
  have "drop_bit (k * 5) bits AND 31 \<le> (31 :: 32 word)" by (rule word_and_le1)
  then have "unat (drop_bit (k * 5) bits AND 31) \<le> unat (31 :: 32 word)" by (simp add: word_le_nat_alt)
  then have "unat (drop_bit (k * 5) bits AND 31) < 32" by simp
  then show ?thesis unfolding suffix_char_def by (rule alphabet_crockford)
qed

lemma runtimeNameSuffix_ok: "runtimeNameSuffix env runtimeId = Inr suffix \<Longrightarrow> isRuntimeNameSuffix suffix"
  by (auto simp: runtimeNameSuffix_def RUNTIME_NAME_SUFFIX_LENGTH_def isRuntimeNameSuffix_def list_all_iff suffix_char_ok
      split: sum.splits)

lemma last_hyphen_append:
  assumes "hyphen \<notin> set suffix"
  shows "last_hyphen (base @ [hyphen] @ suffix) = Some (length base)"
proof -
  have "takeWhile (\<lambda>c. c \<noteq> hyphen) (rev suffix @ hyphen # rev base) = rev suffix"
    using assms by (simp add: takeWhile_append)
  then show ?thesis by (simp add: last_hyphen_def)
qed

lemma suffix_no_hyphen: "isRuntimeNameSuffix suffix \<Longrightarrow> hyphen \<notin> set suffix"
  by (auto simp: isRuntimeNameSuffix_def list_all_iff is_crockford_def is_digit_def in_range_def hyphen_def)

lemma unat_small: "v < 2 ^ 24 \<Longrightarrow> unat (of_nat v :: 32 word) = v"
  by (simp add: unsigned_of_nat take_bit_nat_eq_self)

lemma twenty_bits_bound: "unat (firstTwentyBits digest) < 2 ^ 20"
proof -
  let ?v = "unat (digest ! 0) * 65536 + unat (digest ! 1) * 256 + unat (digest ! 2)"
  have "unat (digest ! i) < 256" for i using unsigned_less [of "digest ! i", where 'a = nat] by simp
  from this [of 0] this [of 1] this [of 2] have v: "?v < 2 ^ 24" by simp
  then have "unat (of_nat ?v :: 32 word) = ?v" by (rule unat_small)
  moreover have "unat (firstTwentyBits digest) = unat (of_nat ?v :: 32 word) div 2 ^ 4"
    unfolding firstTwentyBits_def by (subst unat_drop_bit_eq) (simp only: drop_bit_eq_div)
  ultimately show ?thesis using v by simp
qed

lemma twenty_bits_take: "take_bit 20 (firstTwentyBits digest) = firstTwentyBits digest"
proof -
  have "unat (take_bit 20 (firstTwentyBits digest)) = unat (firstTwentyBits digest) mod 2 ^ 20"
    by (subst unsigned_take_bit_eq) (simp add: take_bit_eq_mod)
  then show ?thesis using twenty_bits_bound [of digest] by (metis mod_less word_unat_eq_iff)
qed

lemma fields_determine:
  assumes "\<And>k. k < 4 \<Longrightarrow> drop_bit (k * 5) x AND 31 = drop_bit (k * 5) y AND (31 :: 32 word)"
    and "take_bit 20 x = x" and "take_bit 20 y = y"
  shows "x = y"
proof (rule bit_word_eqI)
  fix n :: nat
  have mask: "(31 :: 32 word) = mask 5" by (simp add: mask_eq_exp_minus_1)
  have field: "bit (drop_bit (k * 5) w AND 31) j \<longleftrightarrow> bit w (k * 5 + j)" if "j < 5" for k j and w :: "32 word"
    using that by (auto simp: mask bit_and_iff bit_drop_bit_eq bit_mask_iff)
  show "bit x n = bit y n"
  proof (cases "n < 20")
    case True
    then have k: "n div 5 < 4" by simp
    have "bit w n = bit (drop_bit ((n div 5) * 5) w AND 31) (n mod 5)" for w :: "32 word"
      by (subst field) simp_all
    then show ?thesis using assms(1) [OF k] by simp
  next
    case False
    have "bit w n \<longleftrightarrow> n < 20 \<and> bit w n" if "take_bit 20 w = w" for w :: "32 word"
      using bit_take_bit_iff [of 20 w n] that by simp
    then show ?thesis using False assms(2,3) by blast
  qed
qed

lemma alphabet_distinct:
  assumes "i < 32" and "j < 32" and "CROCKFORD_BASE32_ALPHABET ! i = CROCKFORD_BASE32_ALPHABET ! j"
  shows "i = j"
proof -
  have "distinct CROCKFORD_BASE32_ALPHABET" "length CROCKFORD_BASE32_ALPHABET = 32"
    by (simp_all add: CROCKFORD_BASE32_ALPHABET_def js_def)
  then show ?thesis using assms by (simp add: nth_eq_iff_index_eq)
qed

lemma suffix_char_inject:
  assumes "suffix_char x k = suffix_char y k"
  shows "drop_bit (k * 5) x AND 31 = drop_bit (k * 5) y AND (31 :: 32 word)"
proof -
  have "unat (drop_bit (k * 5) w AND 31) < 32" for w :: "32 word"
  proof -
    have "drop_bit (k * 5) w AND 31 \<le> (31 :: 32 word)" by (rule word_and_le1)
    then have "unat (drop_bit (k * 5) w AND 31) \<le> unat (31 :: 32 word)" by (simp add: word_le_nat_alt)
    then show ?thesis by simp
  qed
  from alphabet_distinct [OF this this] assms show ?thesis by (simp add: suffix_char_def word_unat_eq_iff)
qed

text \<open>The suffix of a runtime is four characters of the lowercase Crockford alphabet, and it is an exact encoding
  of the first twenty bits of the digest: two runtimes get the same suffix exactly when these bits agree, so the
  32-bit shifts and masks lose nothing.\<close>

lemma suffix_encodes_twenty_bits:
  assumes "runtimeNameSuffix env a = Inr s" and "runtimeNameSuffix env b = Inr t"
  shows "isRuntimeNameSuffix s \<and> unat (firstTwentyBits (ne_sha256 env a)) < 2 ^ 20 \<and>
    (s = t \<longleftrightarrow> firstTwentyBits (ne_sha256 env a) = firstTwentyBits (ne_sha256 env b))"
proof -
  let ?x = "firstTwentyBits (ne_sha256 env a)" and ?y = "firstTwentyBits (ne_sha256 env b)"
  have s: "s = map (suffix_char ?x) (rev [0..<4])" and t: "t = map (suffix_char ?y) (rev [0..<4])"
    using assms by (auto simp: runtimeNameSuffix_def RUNTIME_NAME_SUFFIX_LENGTH_def asRuntimeId_def split: if_splits)
  have "?x = ?y" if "s = t"
  proof (rule fields_determine [OF suffix_char_inject twenty_bits_take twenty_bits_take])
    fix k :: nat
    assume "k < 4"
    then show "suffix_char ?x k = suffix_char ?y k" using that s t by simp
  qed
  then have "s = t \<longleftrightarrow> ?x = ?y" using s t by auto
  then show ?thesis using runtimeNameSuffix_ok [OF assms(1)] twenty_bits_bound by blast
qed

definition ascii_naming :: naming_env where
  "ascii_naming = \<lparr>ne_room = ascii_env, ne_sha256 = (\<lambda>s. [of_nat (length s), 0x12, 0x34])\<rparr>"

definition sample_uuid :: jstr where
  "sample_uuid = js ''00000000-0000-4000-8000-000000000000''"

lemma sample_uuid_ok: "isUuid sample_uuid"
  by (simp add: sample_uuid_def js_def isUuid_def matches_classes_def UUID_CLASSES_def is_hex_def is_digit_def in_range_def
      is_char_def hyphen_def numeral_eq_Suc)

lemma suffix_encodes_twenty_bits_witness:
  "\<exists>s. runtimeNameSuffix ascii_naming sample_uuid = Inr s \<and> isRuntimeNameSuffix s"
proof -
  obtain s where "runtimeNameSuffix ascii_naming sample_uuid = Inr s"
    using sample_uuid_ok by (simp add: runtimeNameSuffix_def asRuntimeId_def)
  from suffix_encodes_twenty_bits [OF this this] this show ?thesis by blast
qed

text \<open>C33: names round trip.  The name that is published for a base and a runtime is a full network name, it splits into
  exactly that base and that suffix, and looking a peer up by it uses it unchanged.\<close>

theorem published_name_roundtrip:
  assumes "\<not> un_letter (ne_room env) hyphen"
    and "\<forall>c. un_letter (ne_room env) c \<or> c = hyphen \<longrightarrow> \<not> un_control (ne_room env) c"
    and "asNormalizedName (ne_room env) b = Inr base" and "un_fold (ne_room env) base = Some base"
    and "runtimeNameSuffix env runtimeId = Inr suffix" and "buildNetworkName env b runtimeId = Inr name"
  shows "isPublishedNetworkName env name \<and> splitPublishedNetworkName env name = Inr (base, suffix) \<and>
    publishedNetworkBase env name = Inr base \<and>
    (un_fold (ne_room env) name = Some name \<longrightarrow> normalizePeerLookupName env name = Inr name)"
proof -
  have name: "name = base @ [hyphen] @ suffix"
    using assms(3,5,6) by (simp add: buildNetworkName_def lift_room_def bind_sum_def)
  have clean: "clean_label (ne_room env) base \<and> base \<noteq> [] \<and> last base \<noteq> hyphen \<and> length base \<le> 48"
    by (rule normalizeProjectLabel_clean [OF assms(1) assms(3) [unfolded asNormalizedName_def]])
  have again: "asNormalizedName (ne_room env) base = Inr base"
    unfolding asNormalizedName_def using clean assms(2,4) by (intro normalizeProjectLabel_fixed [OF assms(1)]) auto
  have suffix: "isRuntimeNameSuffix suffix" by (rule runtimeNameSuffix_ok [OF assms(5)])
  have hyph: "last_hyphen name = Some (length base)"
    unfolding name by (rule last_hyphen_append [OF suffix_no_hyphen [OF suffix]])
  have parts: "take (length base) name = base" "drop (Suc (length base)) name = suffix" by (simp_all add: name)
  have published: "published_base env name = Some base"
    using clean again suffix by (simp add: published_base_def hyph parts)
  then show ?thesis
    using again
    by (simp add: isPublishedNetworkName_def asPublishedNetworkName_def splitPublishedNetworkName_def publishedNetworkBase_def
        normalizePeerLookupName_def bind_sum_def lift_room_def hyph parts) (simp add: name)
qed

theorem published_name_roundtrip_witness:
  "\<exists>name suffix. buildNetworkName ascii_naming (js ''My Agent'') sample_uuid = Inr name \<and>
     splitPublishedNetworkName ascii_naming name = Inr (js ''my-agent'', suffix)"
proof -
  have base: "asNormalizedName (ne_room ascii_naming) (js ''My Agent'') = Inr (js ''my-agent'')"
    by (simp add: asNormalizedName_def ascii_naming_def normalizeProjectLabel_def Let_def room_eval
        MAX_PROJECT_LABEL_CODE_POINTS_def pop_hyphens_def)
  obtain s where s: "runtimeNameSuffix ascii_naming sample_uuid = Inr s"
    using sample_uuid_ok by (simp add: runtimeNameSuffix_def asRuntimeId_def)
  obtain name where name: "buildNetworkName ascii_naming (js ''My Agent'') sample_uuid = Inr name"
    using base s by (simp add: buildNetworkName_def lift_room_def bind_sum_def)
  have "\<not> un_letter (ne_room ascii_naming) hyphen"
    "\<forall>c. un_letter (ne_room ascii_naming) c \<or> c = hyphen \<longrightarrow> \<not> un_control (ne_room ascii_naming) c"
    "un_fold (ne_room ascii_naming) (js ''my-agent'') = Some (js ''my-agent'')"
    by (auto simp: ascii_naming_def room_eval)
  from published_name_roundtrip [OF this(1,2) base this(3) s name] name show ?thesis by blast
qed

end
