(* ===== verification/Lookup.thy ===== *)
theory Lookup
  imports Naming
begin

text \<open>
  Resolution of a peer name or runtime id among the records of a room
  (\<open>src/discovery/lookup.ts\<close>).  The four results are constructors; a candidate is a record with
  the canonical address that was parsed from it.
\<close>

record peer_record =
  pr_runtimeId :: jstr
  pr_roomId :: jstr
  pr_networkName :: jstr

record candidate =
  ca_address :: peer_address
  ca_record :: peer_record

datatype lookup_result =
    Peer_not_found jstr
  | Peer_found jstr candidate
  | Peer_ambiguous jstr "candidate list"
  | Peer_cross_room jstr jstr "candidate list" "jstr list"

datatype lookup_exn =
    PeerNotFoundError jstr
  | AmbiguousPeerNameError jstr "candidate list"
  | CrossRoomPeerError jstr jstr "candidate list" "jstr list"
  | Bad_name naming_exn
  | Bad_room room_exn
  | Bad_runtime identity_exn

record parsed_candidate =
  pc_candidate :: candidate
  pc_normalizedName :: jstr

definition roomIdFromLike :: "room_like \<Rightarrow> room_exn + jstr" where
  "roomIdFromLike room = (case room of
      Room_text s \<Rightarrow> asRoomId s
    | Room_roomId s \<Rightarrow> asRoomId s
    | Room_id s \<Rightarrow> asRoomId s)"

definition parseCandidate :: "naming_env \<Rightarrow> peer_record \<Rightarrow> parsed_candidate option" where
  "parseCandidate env r =
     (if pr_networkName r = [] then None
      else (case asRuntimeId (pr_runtimeId r) of
          Inl _ \<Rightarrow> None
        | Inr runtimeId \<Rightarrow>
            (case asRoomId (pr_roomId r) of
               Inl _ \<Rightarrow> None
             | Inr roomId \<Rightarrow>
                 (case normalizePeerLookupName env (pr_networkName r) of
                    Inl _ \<Rightarrow> None
                  | Inr normalizedName \<Rightarrow>
                      (case createCanonicalPeerAddress runtimeId roomId of
                         Inl _ \<Rightarrow> None
                       | Inr address \<Rightarrow>
                           Some \<lparr>pc_candidate = \<lparr>ca_address = address, ca_record = r\<rparr>,
                             pc_normalizedName = normalizedName\<rparr>)))))"

definition candidateBase :: "naming_env \<Rightarrow> jstr \<Rightarrow> jstr" where
  "candidateBase env normalizedName =
     (case publishedNetworkBase env normalizedName of Inr base \<Rightarrow> base | Inl _ \<Rightarrow> normalizedName)"

text \<open>The test of the loop of \<open>lookupPeerByName\<close> on one record.\<close>

definition name_matches :: "naming_env \<Rightarrow> jstr \<Rightarrow> jstr \<Rightarrow> peer_record \<Rightarrow> candidate option" where
  "name_matches env roomId normalizedQuery r =
     (case parseCandidate env r of
        None \<Rightarrow> None
      | Some parsed \<Rightarrow>
          if pa_roomId (ca_address (pc_candidate parsed)) \<noteq> roomId then None
          else (let queryIsFullName = isPublishedNetworkName env normalizedQuery;
                    queryBase = candidateBase env normalizedQuery;
                    exactMatch = (pc_normalizedName parsed = normalizedQuery);
                    baseMatch = (if queryIsFullName then pc_normalizedName parsed = queryBase
                      else candidateBase env (pc_normalizedName parsed) = queryBase)
                in if exactMatch \<or> baseMatch then Some (pc_candidate parsed) else None))"

definition classify_matches :: "jstr \<Rightarrow> candidate list \<Rightarrow> lookup_result" where
  "classify_matches query matching =
     (case matching of
        [] \<Rightarrow> Peer_not_found query
      | [c] \<Rightarrow> Peer_found query c
      | _ \<Rightarrow> Peer_ambiguous query matching)"

definition lookupPeerByName :: "naming_env \<Rightarrow> jstr \<Rightarrow> room_like \<Rightarrow> peer_record list \<Rightarrow> lookup_exn + lookup_result" where
  "lookupPeerByName env name currentRoom records =
     (case roomIdFromLike currentRoom of
        Inl x \<Rightarrow> Inl (Bad_room x)
      | Inr roomId \<Rightarrow>
          (case normalizePeerLookupName env name of
             Inl x \<Rightarrow> Inl (Bad_name x)
           | Inr normalizedQuery \<Rightarrow>
               Inr (classify_matches normalizedQuery
                 (List.map_filter (name_matches env roomId normalizedQuery) records))))"

definition with_runtime :: "naming_env \<Rightarrow> jstr \<Rightarrow> peer_record \<Rightarrow> candidate option" where
  "with_runtime env targetRuntimeId r =
     (case parseCandidate env r of
        None \<Rightarrow> None
      | Some parsed \<Rightarrow>
          if pa_runtimeId (ca_address (pc_candidate parsed)) \<noteq> targetRuntimeId then None
          else Some (pc_candidate parsed))"

definition lookupPeerByRuntimeId ::
  "naming_env \<Rightarrow> jstr \<Rightarrow> room_like \<Rightarrow> peer_record list \<Rightarrow> lookup_exn + lookup_result" where
  "lookupPeerByRuntimeId env runtimeId currentRoom records =
     (case asRuntimeId runtimeId of
        Inl x \<Rightarrow> Inl (Bad_runtime x)
      | Inr target \<Rightarrow>
          (case roomIdFromLike currentRoom of
             Inl x \<Rightarrow> Inl (Bad_room x)
           | Inr roomId \<Rightarrow>
               (let candidates = List.map_filter (with_runtime env target) records;
                    sameRoom = filter (\<lambda>c. pa_roomId (ca_address c) = roomId) candidates;
                    otherRoom = filter (\<lambda>c. pa_roomId (ca_address c) \<noteq> roomId) candidates
                in Inr (if length sameRoom > 1 then Peer_ambiguous target sameRoom
                    else if length sameRoom = 1 \<and> length otherRoom = 0 then Peer_found target (sameRoom ! 0)
                    else if length sameRoom = 0 \<and> length otherRoom > 0
                    then Peer_cross_room target roomId otherRoom
                      (rev (remdups (rev (map (\<lambda>c. pa_roomId (ca_address c)) otherRoom))))
                    else if length sameRoom = 1 then Peer_ambiguous target (sameRoom @ otherRoom)
                    else Peer_not_found target))))"

definition resolvePeerTarget :: "naming_env \<Rightarrow> jstr \<Rightarrow> room_like \<Rightarrow> peer_record list \<Rightarrow> lookup_exn + lookup_result" where
  "resolvePeerTarget env target currentRoom records =
     (if isUuid target then lookupPeerByRuntimeId env target currentRoom records
      else lookupPeerByName env target currentRoom records)"

definition resolvePeerTargetOrThrow :: "naming_env \<Rightarrow> jstr \<Rightarrow> room_like \<Rightarrow> peer_record list \<Rightarrow> lookup_exn + candidate" where
  "resolvePeerTargetOrThrow env target currentRoom records =
     (case resolvePeerTarget env target currentRoom records of
        Inl x \<Rightarrow> Inl x
      | Inr (Peer_found _ c) \<Rightarrow> Inr c
      | Inr (Peer_ambiguous query matches) \<Rightarrow> Inl (AmbiguousPeerNameError query matches)
      | Inr (Peer_cross_room query room matches rooms) \<Rightarrow> Inl (CrossRoomPeerError query room matches rooms)
      | Inr (Peer_not_found query) \<Rightarrow> Inl (PeerNotFoundError query))"

section \<open>Candidates\<close>

lemma parseCandidate_address:
  assumes "parseCandidate env r = Some p"
  shows "pa_runtimeId (ca_address (pc_candidate p)) = pr_runtimeId r" "pa_roomId (ca_address (pc_candidate p)) = pr_roomId r"
    "ca_record (pc_candidate p) = r" "isUuid (pr_runtimeId r)" "isValidRoomId (pr_roomId r)"
    "normalizePeerLookupName env (pr_networkName r) = Inr (pc_normalizedName p)"
  using assms
  by (auto simp: parseCandidate_def asRuntimeId_def asRoomId_def createCanonicalPeerAddress_def
      split: if_splits sum.splits)

lemma set_map_filter: "set (List.map_filter f xs) = {y. \<exists>x \<in> set xs. f x = Some y}"
  by (induction xs) (auto simp: map_filter_simps split: option.splits)

lemma name_matches_room: "name_matches env roomId q r = Some c \<Longrightarrow> pr_roomId r = roomId \<and> ca_record c = r \<and> pa_roomId (ca_address c) = roomId \<and>
    pa_runtimeId (ca_address c) = pr_runtimeId r"
  using parseCandidate_address [of env r] by (auto simp: name_matches_def Let_def split: option.splits if_splits)

lemma with_runtime_record: "with_runtime env target r = Some c \<Longrightarrow> ca_record c = r \<and> pa_roomId (ca_address c) = pr_roomId r \<and>
    pa_runtimeId (ca_address c) = target \<and> pr_runtimeId r = target"
  using parseCandidate_address [of env r] by (auto simp: with_runtime_def split: option.splits if_splits)

text \<open>A record that can be addressed at all.\<close>

definition addressable :: "naming_env \<Rightarrow> peer_record \<Rightarrow> bool" where
  "addressable env r \<longleftrightarrow> isUuid (pr_runtimeId r) \<and> isValidRoomId (pr_roomId r) \<and> pr_networkName r \<noteq> [] \<and>
     (\<exists>n. normalizePeerLookupName env (pr_networkName r) = Inr n)"

lemma parseCandidate_iff: "parseCandidate env r = None \<longleftrightarrow> \<not> addressable env r"
  by (auto simp: parseCandidate_def addressable_def asRuntimeId_def asRoomId_def createCanonicalPeerAddress_def split: sum.splits)

definition candidate_of :: "peer_record \<Rightarrow> candidate" where
  "candidate_of r = \<lparr>ca_address = \<lparr>pa_runtimeId = pr_runtimeId r, pa_roomId = pr_roomId r\<rparr>, ca_record = r\<rparr>"

lemma parseCandidate_Some: "parseCandidate env r = Some p \<Longrightarrow> pc_candidate p = candidate_of r"
  by (auto simp: parseCandidate_def candidate_of_def asRuntimeId_def asRoomId_def createCanonicalPeerAddress_def
      split: if_splits sum.splits)

text \<open>The specification of a name: a full name is answered by itself and by a record that publishes only its
  base; a base is answered by every full name with that base.\<close>

definition answers_to :: "naming_env \<Rightarrow> jstr \<Rightarrow> peer_record \<Rightarrow> bool" where
  "answers_to env q r \<longleftrightarrow> (\<exists>n. normalizePeerLookupName env (pr_networkName r) = Inr n \<and>
     (n = q \<or> (if isPublishedNetworkName env q then n = candidateBase env q else candidateBase env n = q)))"

lemma candidateBase_plain: "\<not> isPublishedNetworkName env q \<Longrightarrow> candidateBase env q = q"
  by (simp add: candidateBase_def publishedNetworkBase_def asPublishedNetworkName_def bind_sum_def)

lemma name_matches_spec:
  "name_matches env roomId q r =
     (if addressable env r \<and> pr_roomId r = roomId \<and> answers_to env q r then Some (candidate_of r) else None)"
proof (cases "parseCandidate env r")
  case None
  then show ?thesis using parseCandidate_iff [of env r] by (simp add: name_matches_def)
next
  case (Some p)
  have "addressable env r" using Some parseCandidate_iff [of env r] by auto
  then show ?thesis
    using parseCandidate_address(6) [OF Some] parseCandidate_Some [OF Some] candidateBase_plain [of env q]
    by (auto simp: name_matches_def Some Let_def answers_to_def candidate_of_def)
qed

lemma with_runtime_spec:
  "with_runtime env target r = (if addressable env r \<and> pr_runtimeId r = target then Some (candidate_of r) else None)"
proof (cases "parseCandidate env r")
  case None
  then show ?thesis using parseCandidate_iff [of env r] by (simp add: with_runtime_def)
next
  case (Some p)
  have "addressable env r" using Some parseCandidate_iff [of env r] by auto
  then show ?thesis using parseCandidate_Some [OF Some] by (simp add: with_runtime_def Some candidate_of_def)
qed

lemma map_filter_if: "List.map_filter (\<lambda>r. if P r then Some (f r) else None) xs = map f (filter P xs)"
  by (induction xs) (simp_all add: map_filter_simps)

lemma name_lookup:
  assumes "roomIdFromLike currentRoom = Inr roomId" and "normalizePeerLookupName env name = Inr q"
    and "lookupPeerByName env name currentRoom records = Inr res"
  shows "let found = filter (\<lambda>r. addressable env r \<and> pr_roomId r = roomId \<and> answers_to env q r) records in
    case res of
      Peer_not_found q' \<Rightarrow> q' = q \<and> found = []
    | Peer_found q' c \<Rightarrow> q' = q \<and> found = [ca_record c] \<and> c = candidate_of (ca_record c)
    | Peer_ambiguous q' cs \<Rightarrow> q' = q \<and> length found \<ge> 2 \<and> cs = map candidate_of found
    | Peer_cross_room _ _ _ _ \<Rightarrow> False"
proof -
  let ?found = "filter (\<lambda>r. addressable env r \<and> pr_roomId r = roomId \<and> answers_to env q r) records"
  have "List.map_filter (name_matches env roomId q) records = map candidate_of ?found"
    unfolding name_matches_spec [abs_def] by (rule map_filter_if)
  then have "res = classify_matches q (map candidate_of ?found)"
    using assms by (simp add: lookupPeerByName_def)
  then show ?thesis
    by (cases ?found rule: list.exhaust; cases "tl ?found") (auto simp: classify_matches_def candidate_of_def Let_def)
qed

text \<open>C32: looking a name up is exact: the records in the answer are, in order, those of the current room that are well
  formed and answer to the name, no record of another room is ever among them, and the kind of the answer says
  whether there are none, one or several.\<close>

theorem name_lookup_exact:
  assumes "roomIdFromLike currentRoom = Inr roomId" and "normalizePeerLookupName env name = Inr q"
    and "lookupPeerByName env name currentRoom records = Inr res"
  shows "let found = filter (\<lambda>r. addressable env r \<and> pr_roomId r = roomId \<and> answers_to env q r) records in
    case res of
      Peer_not_found q' \<Rightarrow> q' = q \<and> found = []
    | Peer_found q' c \<Rightarrow> q' = q \<and> found = [ca_record c] \<and> c = candidate_of (ca_record c)
    | Peer_ambiguous q' cs \<Rightarrow> q' = q \<and> length found \<ge> 2 \<and> cs = map candidate_of found
    | Peer_cross_room _ _ _ _ \<Rightarrow> False"
  by (rule name_lookup [OF assms])

lemma runtime_lookup:
  assumes "roomIdFromLike currentRoom = Inr roomId" and "lookupPeerByRuntimeId env runtimeId currentRoom records = Inr res"
  shows "let mine = filter (\<lambda>r. addressable env r \<and> pr_runtimeId r = runtimeId) records;
             inside = filter (\<lambda>r. pr_roomId r = roomId) mine;
             outside = filter (\<lambda>r. pr_roomId r \<noteq> roomId) mine in
    isUuid runtimeId \<and>
    (case res of
      Peer_not_found q \<Rightarrow> q = runtimeId \<and> inside = [] \<and> outside = []
    | Peer_found q c \<Rightarrow> q = runtimeId \<and> inside = [ca_record c] \<and> outside = [] \<and> c = candidate_of (ca_record c)
    | Peer_ambiguous q cs \<Rightarrow> q = runtimeId \<and> inside \<noteq> [] \<and> length mine \<ge> 2 \<and>
        cs = map candidate_of (if length inside \<ge> 2 then inside else inside @ outside)
    | Peer_cross_room q room cs rooms \<Rightarrow> q = runtimeId \<and> room = roomId \<and> inside = [] \<and> outside \<noteq> [] \<and>
        cs = map candidate_of outside \<and> distinct rooms \<and> set rooms = pr_roomId ` set outside \<and> roomId \<notin> set rooms)"
proof -
  let ?mine = "filter (\<lambda>r. addressable env r \<and> pr_runtimeId r = runtimeId) records"
  let ?in = "filter (\<lambda>r. pr_roomId r = roomId) ?mine" and ?out = "filter (\<lambda>r. pr_roomId r \<noteq> roomId) ?mine"
  have uuid: "isUuid runtimeId" using assms(2) by (auto simp: lookupPeerByRuntimeId_def asRuntimeId_def split: if_splits)
  have mine: "List.map_filter (with_runtime env runtimeId) records = map candidate_of ?mine"
    unfolding with_runtime_spec [abs_def] by (rule map_filter_if)
  have sides: "filter (\<lambda>c. pa_roomId (ca_address c) = roomId) (map candidate_of ?mine) = map candidate_of ?in"
    "filter (\<lambda>c. pa_roomId (ca_address c) \<noteq> roomId) (map candidate_of ?mine) = map candidate_of ?out"
    by (simp_all add: filter_map o_def candidate_of_def)
  have rooms: "map (\<lambda>c. pa_roomId (ca_address c)) (map candidate_of xs) = map pr_roomId xs" for xs
    by (simp add: candidate_of_def)
  have res: "res = (if length ?in > 1 then Peer_ambiguous runtimeId (map candidate_of ?in)
      else if length ?in = 1 \<and> length ?out = 0 then Peer_found runtimeId (map candidate_of ?in ! 0)
      else if length ?in = 0 \<and> length ?out > 0
      then Peer_cross_room runtimeId roomId (map candidate_of ?out) (rev (remdups (rev (map pr_roomId ?out))))
      else if length ?in = 1 then Peer_ambiguous runtimeId (map candidate_of ?in @ map candidate_of ?out)
      else Peer_not_found runtimeId)"
    using assms uuid
    by (simp only: lookupPeerByRuntimeId_def asRuntimeId_def if_True sum.case mine sides rooms Let_def length_map sum.inject(2))
  have split_length: "length ?mine = length ?in + length ?out"
    using sum_length_filter_compl [of "\<lambda>r. pr_roomId r = roomId" ?mine] by simp
  define i o' where io: "i = ?in" "o' = ?out"
  have "\<forall>r \<in> set o'. pr_roomId r \<noteq> roomId" by (auto simp: io)
  then show ?thesis
    using uuid split_length unfolding Let_def res io [symmetric]
    by (cases i; cases "tl i"; cases o') (auto simp: candidate_of_def)
qed

text \<open>Looking a runtime id up is exact: the answer is decided by the well-formed records of that runtime inside and
  outside the current room, as the four cases say, and a record outside the room is never found.\<close>

lemma runtime_lookup_exact:
  assumes "roomIdFromLike currentRoom = Inr roomId" and "lookupPeerByRuntimeId env runtimeId currentRoom records = Inr res"
  shows "let mine = filter (\<lambda>r. addressable env r \<and> pr_runtimeId r = runtimeId) records;
             inside = filter (\<lambda>r. pr_roomId r = roomId) mine;
             outside = filter (\<lambda>r. pr_roomId r \<noteq> roomId) mine in
    isUuid runtimeId \<and>
    (case res of
      Peer_not_found q \<Rightarrow> q = runtimeId \<and> inside = [] \<and> outside = []
    | Peer_found q c \<Rightarrow> q = runtimeId \<and> inside = [ca_record c] \<and> outside = [] \<and> c = candidate_of (ca_record c)
    | Peer_ambiguous q cs \<Rightarrow> q = runtimeId \<and> inside \<noteq> [] \<and> length mine \<ge> 2 \<and>
        cs = map candidate_of (if length inside \<ge> 2 then inside else inside @ outside)
    | Peer_cross_room q room cs rooms \<Rightarrow> q = runtimeId \<and> room = roomId \<and> inside = [] \<and> outside \<noteq> [] \<and>
        cs = map candidate_of outside \<and> distinct rooms \<and> set rooms = pr_roomId ` set outside \<and> roomId \<notin> set rooms)"
  by (rule runtime_lookup [OF assms])

definition sample_room :: jstr where
  "sample_room = js ''r1-0123456789abcdef0123456789abcdef''"

definition sample_record :: peer_record where
  "sample_record = \<lparr>pr_runtimeId = sample_uuid, pr_roomId = sample_room, pr_networkName = js ''my-agent''\<rparr>"

lemma sample_room_ok: "isValidRoomId sample_room"
  by (simp add: sample_room_def js_def isValidRoomId_def ROOM_ID_PREFIX_def ROOM_ID_HEX_LENGTH_def is_hex_def is_digit_def in_range_def)

lemma roomId_sample: "roomIdFromLike (Room_text sample_room) = Inr sample_room"
  by (simp add: roomIdFromLike_def asRoomId_def sample_room_ok)

lemma sample_name: "normalizePeerLookupName ascii_naming (js ''my-agent'') = Inr (js ''my-agent'')"
  by (simp add: normalizePeerLookupName_def published_base_def last_hyphen_def isRuntimeNameSuffix_def lift_room_def
      asNormalizedName_def ascii_naming_def normalizeProjectLabel_def Let_def room_eval
      MAX_PROJECT_LABEL_CODE_POINTS_def pop_hyphens_def)

lemma sample_addressable: "addressable ascii_naming sample_record"
  using sample_uuid_ok sample_room_ok sample_name by (auto simp: addressable_def sample_record_def js_def)

lemma sample_answers: "answers_to ascii_naming (js ''my-agent'') sample_record"
  using sample_name by (simp add: answers_to_def sample_record_def)

theorem name_lookup_exact_witness:
  "\<exists>c. lookupPeerByName ascii_naming (js ''my-agent'') (Room_text sample_room) [sample_record] = Inr (Peer_found (js ''my-agent'') c) \<and>
     ca_record c = sample_record"
proof -
  obtain res where res: "lookupPeerByName ascii_naming (js ''my-agent'') (Room_text sample_room) [sample_record] = Inr res"
    by (simp add: lookupPeerByName_def roomId_sample sample_name)
  have room: "pr_roomId sample_record = sample_room" by (simp add: sample_record_def)
  show ?thesis
    using name_lookup_exact [OF roomId_sample sample_name res] res sample_addressable sample_answers room
    by (cases res) auto
qed

lemma runtime_lookup_exact_witness:
  "\<exists>c. lookupPeerByRuntimeId ascii_naming sample_uuid (Room_text sample_room) [sample_record] = Inr (Peer_found sample_uuid c)"
proof -
  obtain res where res: "lookupPeerByRuntimeId ascii_naming sample_uuid (Room_text sample_room) [sample_record] = Inr res"
    using sample_uuid_ok by (simp add: lookupPeerByRuntimeId_def roomId_sample asRuntimeId_def Let_def)
  have room: "pr_roomId sample_record = sample_room" "pr_runtimeId sample_record = sample_uuid" by (simp_all add: sample_record_def)
  show ?thesis
    using runtime_lookup_exact [OF roomId_sample res] res sample_addressable room
    by (cases res) auto
qed

text \<open>C31: what resolution hands out is a peer of the current room, and the only one.  The candidate is one of the given
  records, its address is that record's runtime and the exact room of the caller, and no other well-formed record
  of the room has that runtime id or answers to that name.\<close>

theorem resolved_peer_is_unique_in_room:
  assumes "roomIdFromLike currentRoom = Inr roomId"
    and "resolvePeerTargetOrThrow env target currentRoom records = Inr c"
  shows "ca_record c \<in> set records \<and> addressable env (ca_record c) \<and> c = candidate_of (ca_record c) \<and>
    pa_roomId (ca_address c) = roomId \<and>
    (if isUuid target
     then pa_runtimeId (ca_address c) = target \<and>
       (\<forall>r \<in> set records. addressable env r \<and> pr_runtimeId r = target \<longrightarrow> r = ca_record c)
     else \<exists>q. normalizePeerLookupName env target = Inr q \<and> answers_to env q (ca_record c) \<and>
       (\<forall>r \<in> set records. addressable env r \<and> pr_roomId r = roomId \<and> answers_to env q r \<longrightarrow> r = ca_record c))"
proof -
  obtain q where found: "resolvePeerTarget env target currentRoom records = Inr (Peer_found q c)"
    using assms(2) by (auto simp: resolvePeerTargetOrThrow_def split: sum.splits lookup_result.splits)
  show ?thesis
  proof (cases "isUuid target")
    case True
    then have run: "lookupPeerByRuntimeId env target currentRoom records = Inr (Peer_found q c)"
      using found by (simp add: resolvePeerTarget_def)
    let ?mine = "filter (\<lambda>r. addressable env r \<and> pr_runtimeId r = target) records"
    have sides: "filter (\<lambda>r. pr_roomId r = roomId) ?mine = [ca_record c]" "filter (\<lambda>r. pr_roomId r \<noteq> roomId) ?mine = []"
      "c = candidate_of (ca_record c)"
      using runtime_lookup [OF assms(1) run] by (simp_all add: Let_def)
    have "set ?mine = set (filter (\<lambda>r. pr_roomId r = roomId) ?mine) \<union> set (filter (\<lambda>r. pr_roomId r \<noteq> roomId) ?mine)" by auto
    then have mine: "set ?mine = {ca_record c}" unfolding sides(1,2) by simp
    have "ca_record c \<in> set (filter (\<lambda>r. pr_roomId r = roomId) ?mine)" unfolding sides(1,2) by simp
    then have rec: "ca_record c \<in> set records" "addressable env (ca_record c)" "pr_roomId (ca_record c) = roomId"
      "pr_runtimeId (ca_record c) = target" by auto
    have "ca_address c = \<lparr>pa_runtimeId = pr_runtimeId (ca_record c), pa_roomId = pr_roomId (ca_record c)\<rparr>"
      by (subst sides(3)) (simp add: candidate_of_def)
    then have address: "pa_roomId (ca_address c) = roomId" "pa_runtimeId (ca_address c) = target" using rec by simp_all
    have "\<forall>r \<in> set records. addressable env r \<and> pr_runtimeId r = target \<longrightarrow> r = ca_record c"
      using mine by auto
    then show ?thesis unfolding if_P [OF True] using rec sides(3) address by blast
  next
    case False
    then have run: "lookupPeerByName env target currentRoom records = Inr (Peer_found q c)"
      using found by (simp add: resolvePeerTarget_def)
    then obtain n where n: "normalizePeerLookupName env target = Inr n"
      using assms(1) by (auto simp: lookupPeerByName_def split: sum.splits)
    let ?found = "filter (\<lambda>r. addressable env r \<and> pr_roomId r = roomId \<and> answers_to env n r) records"
    have f: "?found = [ca_record c]" "c = candidate_of (ca_record c)"
      using name_lookup [OF assms(1) n run] by (simp_all add: Let_def)
    have mine: "set ?found = {ca_record c}" unfolding f(1) by simp
    have rec: "ca_record c \<in> set records" "addressable env (ca_record c)" "pr_roomId (ca_record c) = roomId"
      "answers_to env n (ca_record c)" using mine by auto
    have "ca_address c = \<lparr>pa_runtimeId = pr_runtimeId (ca_record c), pa_roomId = pr_roomId (ca_record c)\<rparr>"
      by (subst f(2)) (simp add: candidate_of_def)
    then have address: "pa_roomId (ca_address c) = roomId" using rec by simp
    have "\<forall>r \<in> set records. addressable env r \<and> pr_roomId r = roomId \<and> answers_to env n r \<longrightarrow> r = ca_record c"
      using mine by auto
    then show ?thesis unfolding if_not_P [OF False] using rec f(2) address n by blast
  qed
qed

theorem resolved_peer_is_unique_in_room_witness:
  "\<exists>c. resolvePeerTargetOrThrow ascii_naming sample_uuid (Room_text sample_room) [sample_record] = Inr c \<and>
     pa_roomId (ca_address c) = sample_room"
proof -
  have addr: "\<exists>p. parseCandidate ascii_naming sample_record = Some p \<and> pc_candidate p = candidate_of sample_record"
    using parseCandidate_iff sample_addressable parseCandidate_Some by (metis not_None_eq)
  have "with_runtime ascii_naming sample_uuid sample_record = Some (candidate_of sample_record)"
    using sample_addressable by (simp add: with_runtime_spec sample_record_def)
  then have "List.map_filter (with_runtime ascii_naming sample_uuid) [sample_record] = [candidate_of sample_record]"
    by (simp add: map_filter_simps)
  then obtain c where "resolvePeerTargetOrThrow ascii_naming sample_uuid (Room_text sample_room) [sample_record] = Inr c"
    using sample_uuid_ok
    by (simp add: resolvePeerTargetOrThrow_def resolvePeerTarget_def lookupPeerByRuntimeId_def roomId_sample asRuntimeId_def
        Let_def candidate_of_def sample_record_def)
  from resolved_peer_is_unique_in_room [OF roomId_sample this] this show ?thesis by blast
qed

end
