(* ===== verification/Lease.thy ===== *)
theory Lease
  imports Prelude
begin

text \<open>
  Lease timing and the serialized renewal timer (\<open>src/discovery/lease.ts\<close>).  The pure part
  computes and reads expiry times; \<open>SerializedLease\<close> is a state machine whose steps are the
  calls of its owner, the interval timer, and the jobs of the promise chain \<open>pending\<close>.
\<close>

section \<open>Time stamps\<close>

definition DEFAULT_LEASE_RENEWAL_INTERVAL_MS :: millis where
  "DEFAULT_LEASE_RENEWAL_INTERVAL_MS = 30000"

definition DEFAULT_LEASE_TTL_MS :: millis where
  "DEFAULT_LEASE_TTL_MS = 90000"

text \<open>A \<open>Date\<close> is the number its \<open>getTime\<close> answers.\<close>

datatype lease_timestamp = Stamp_number jsnum | Stamp_date jsnum | Stamp_text jstr

datatype 'e lease_exn =
    LeaseConfigurationError string
  | LeaseStoppedError
  | Renewal_failed 'e

text \<open>The date functions of the language: \<open>Date.parse\<close> and the text of \<open>toISOString\<close>.\<close>

record date_env =
  date_parse :: "jstr \<Rightarrow> jsnum"
  date_iso :: "rat \<Rightarrow> jstr"

text \<open>The largest time value a \<open>Date\<close> can hold; beyond it \<open>toISOString\<close> throws.\<close>

definition max_date_ms :: rat where
  "max_date_ms = 8640000000000000"

definition duration :: "jsnum option \<Rightarrow> millis \<Rightarrow> string \<Rightarrow> 'e lease_exn + rat" where
  "duration v fallback label =
     (let result = (case v of Some n \<Rightarrow> n | None \<Rightarrow> Fin fallback)
      in if \<not> is_safe_integer result \<or> result \<le> Fin 0
         then Inl (LeaseConfigurationError (label @ '' must be a positive safe integer''))
         else Inr (fin_val result))"

definition finiteTimestamp :: "jsnum \<Rightarrow> string \<Rightarrow> 'e lease_exn + rat" where
  "finiteTimestamp v label =
     (if \<not> is_finite v \<or> \<not> is_safe_integer v \<or> v < Fin 0
      then Inl (LeaseConfigurationError (label @ '' must be a non-negative safe integer timestamp''))
      else Inr (fin_val v))"

definition parseLeaseTimestamp :: "date_env \<Rightarrow> lease_timestamp \<Rightarrow> string \<Rightarrow> 'e lease_exn + rat" where
  "parseLeaseTimestamp env v label =
     finiteTimestamp (case v of Stamp_date n \<Rightarrow> n | Stamp_text t \<Rightarrow> date_parse env t | Stamp_number n \<Rightarrow> n) label"

definition serializeLeaseTimestamp :: "date_env \<Rightarrow> lease_timestamp \<Rightarrow> string \<Rightarrow> 'e lease_exn + jstr" where
  "serializeLeaseTimestamp env v label =
     (case parseLeaseTimestamp env v label of
        Inl x \<Rightarrow> Inl x
      | Inr parsed \<Rightarrow>
          if \<bar>parsed\<bar> \<le> max_date_ms then Inr (date_iso env parsed)
          else Inl (LeaseConfigurationError (label @ '' is outside the supported ISO timestamp range'')))"

text \<open>
  The two overloads of \<open>leaseExpiration\<close>; a \<open>now\<close> that is a \<open>Date\<close> is the number of its
  \<open>getTime\<close>, and \<open>wall\<close> is the value of \<open>Date.now()\<close> when no clock value is given.
\<close>

datatype expiration_args =
    Positional jsnum "jsnum option"
  | Options "jsnum option" "jsnum option"

definition expiration_now :: "jsnum \<Rightarrow> expiration_args \<Rightarrow> jsnum" where
  "expiration_now wall args =
     (case args of Positional n _ \<Rightarrow> n | Options (Some n) _ \<Rightarrow> n | Options None _ \<Rightarrow> wall)"

fun expiration_ttl :: "expiration_args \<Rightarrow> jsnum option" where
  "expiration_ttl (Positional _ ttlMs) = ttlMs"
| "expiration_ttl (Options _ ttlMs) = ttlMs"

definition leaseExpiration :: "jsnum \<Rightarrow> expiration_args \<Rightarrow> 'e lease_exn + rat" where
  "leaseExpiration wall args =
     (let now = expiration_now wall args
      in if \<not> is_finite now \<or> \<not> is_safe_integer now \<or> now < Fin 0
         then Inl (LeaseConfigurationError ''lease timestamp must be a non-negative safe integer'')
         else (case duration (expiration_ttl args) DEFAULT_LEASE_TTL_MS ''ttlMs'' of
             Inl x \<Rightarrow> Inl x
           | Inr ttlMs \<Rightarrow>
               (let expiry = fin_val now + ttlMs
                in if \<not> is_safe_integer (Fin expiry)
                   then Inl (LeaseConfigurationError
                     ''lease expiration is outside the supported timestamp range'')
                   else Inr expiry)))"

definition leaseExpirationIso :: "date_env \<Rightarrow> jsnum \<Rightarrow> expiration_args \<Rightarrow> 'e lease_exn + jstr" where
  "leaseExpirationIso env wall options =
     (case leaseExpiration wall options of
        Inl x \<Rightarrow> Inl x
      | Inr expiry \<Rightarrow> serializeLeaseTimestamp env (Stamp_number (Fin expiry)) ''lease expiration'')"

definition clockValue :: "jsnum \<Rightarrow> 'e lease_exn + rat" where
  "clockValue reading = finiteTimestamp reading ''lease clock''"

definition isLeaseExpired :: "date_env \<Rightarrow> lease_timestamp \<Rightarrow> jsnum \<Rightarrow> bool" where
  "isLeaseExpired env leaseExpiresAt now =
     (if \<not> is_finite now then True
      else (case parseLeaseTimestamp env leaseExpiresAt ''lease timestamp'' of
          Inl (x :: unit lease_exn) \<Rightarrow> True
        | Inr expiry \<Rightarrow> Fin expiry \<le> now))"

definition filterUnexpiredRecords ::
  "date_env \<Rightarrow> ('r \<Rightarrow> lease_timestamp) \<Rightarrow> 'r list \<Rightarrow> jsnum \<Rightarrow> 'r list" where
  "filterUnexpiredRecords env leaseExpiresAt records now =
     filter (\<lambda>r. \<not> isLeaseExpired env (leaseExpiresAt r) now) records"

section \<open>The serialized lease\<close>

datatype lease_state = Lease_idle | Lease_running | Lease_stopped

text \<open>Who called \<open>renew\<close>: it decides what happens to a rejection.\<close>

datatype renewal_origin = By_caller | By_timer | By_start

text \<open>
  The chain \<open>pending\<close> is the list of queued operations \<open>waiting\<close>, behind the one whose
  \<open>await this.renewal()\<close> is unresolved (\<open>active\<close>); \<open>results\<close> are the settled operations in the
  order of their calls, so the promise of the k-th call is settled when \<open>results\<close> is longer
  than k.  \<open>startPromise\<close> is the position of the operation it follows; \<open>invoked\<close> counts the
  calls of the owner callback and \<open>reported\<close> lists the calls of \<open>onError\<close>.
\<close>

record 'e lease =
  le_ttlMs :: rat
  le_renewalIntervalMs :: rat
  le_onError :: bool
  le_state :: lease_state
  le_timer :: bool
  le_startPromise :: "nat option"
  le_lastRenewedAt :: "rat option"
  le_lastError :: "'e lease_exn option"
  le_waiting :: "renewal_origin list"
  le_active :: "renewal_origin option"
  le_results :: "('e lease_exn + unit) list"
  le_invoked :: nat
  le_reported :: "'e lease_exn list"

record lease_options =
  lo_renew_is_function :: bool
  lo_ttlMs :: "jsnum option"
  lo_renewalIntervalMs :: "jsnum option"
  lo_onError :: bool

definition new_lease :: "lease_options \<Rightarrow> 'e lease_exn + 'e lease" where
  "new_lease options =
     (if \<not> lo_renew_is_function options
      then Inl (LeaseConfigurationError ''renew must be a function'')
      else (case duration (lo_ttlMs options) DEFAULT_LEASE_TTL_MS ''ttlMs'' of
          Inl x \<Rightarrow> Inl x
        | Inr ttlMs \<Rightarrow>
            (case duration (lo_renewalIntervalMs options) DEFAULT_LEASE_RENEWAL_INTERVAL_MS
                    ''renewalIntervalMs'' of
               Inl x \<Rightarrow> Inl x
             | Inr interval \<Rightarrow> Inr
                 \<lparr>le_ttlMs = ttlMs, le_renewalIntervalMs = interval, le_onError = lo_onError options,
                  le_state = Lease_idle, le_timer = False, le_startPromise = None,
                  le_lastRenewedAt = None, le_lastError = None,
                  le_waiting = [], le_active = None, le_results = [], le_invoked = 0,
                  le_reported = []\<rparr>)))"

text \<open>The operations that were called, and so the position the next one gets.\<close>

definition issued :: "'e lease \<Rightarrow> nat" where
  "issued s = length (le_results s) + (if le_active s = None then 0 else 1) + length (le_waiting s)"

text \<open>\<open>renew()\<close>: the operation is chained behind all earlier ones.\<close>

definition renew :: "renewal_origin \<Rightarrow> 'e lease \<Rightarrow> nat \<times> 'e lease" where
  "renew origin s = (issued s, s\<lparr>le_waiting := le_waiting s @ [origin]\<rparr>)"

text \<open>\<open>stop()\<close>: it awaits \<open>pending\<close>, that is every operation called before it.\<close>

definition stop :: "'e lease \<Rightarrow> nat \<times> 'e lease" where
  "stop s =
     (if le_state s = Lease_stopped then (issued s, s)
      else (issued s, s\<lparr>le_state := Lease_stopped, le_timer := False\<rparr>))"

text \<open>The promise of \<open>stop\<close> resolves when the operations before it are settled.\<close>

definition stop_resolved :: "nat \<Rightarrow> 'e lease \<Rightarrow> bool" where
  "stop_resolved target s \<longleftrightarrow> target \<le> length (le_results s)"

text \<open>\<open>start()\<close>: the position of the operation its promise follows, or a rejection.\<close>

definition start_lease :: "'e lease \<Rightarrow> ('e lease_exn + nat) \<times> 'e lease" where
  "start_lease s =
     (if le_state s = Lease_stopped then (Inl LeaseStoppedError, s)
      else (case le_startPromise s of
          Some k \<Rightarrow> (Inr k, s)
        | None \<Rightarrow>
            (let (k, t) = renew By_start (s\<lparr>le_state := Lease_running, le_timer := True\<rparr>)
             in (Inr k, t\<lparr>le_startPromise := Some k\<rparr>))))"

text \<open>The interval callback of \<open>start\<close>.\<close>

definition interval_fires :: "'e lease \<Rightarrow> 'e lease" where
  "interval_fires s = snd (renew By_timer s)"

text \<open>
  An operation settles: \<open>pending\<close> notes a failure, and then the handler of its caller runs,
  that of the timer (which reports it) or that of \<open>start\<close> (which stops the lease).  Both are
  reactions to the same promise and run one after the other, before the next operation.
\<close>

definition settle :: "renewal_origin \<Rightarrow> 'e lease_exn + unit \<Rightarrow> 'e lease \<Rightarrow> 'e lease" where
  "settle origin result s =
     (let s1 = s\<lparr>le_results := le_results s @ [result]\<rparr>
      in case result of
           Inr _ \<Rightarrow> s1
         | Inl error \<Rightarrow>
             (let s2 = s1\<lparr>le_lastError := Some error\<rparr>
              in case origin of
                   By_caller \<Rightarrow> s2
                 | By_timer \<Rightarrow>
                     if le_onError s2 then s2\<lparr>le_reported := le_reported s2 @ [error]\<rparr> else s2
                 | By_start \<Rightarrow> snd (stop s2)))"

text \<open>The job of the chain that starts the next operation, when none is in flight.\<close>

definition begin_next :: "'e lease \<Rightarrow> 'e lease" where
  "begin_next s =
     (case (le_active s, le_waiting s) of
        (None, origin # rest) \<Rightarrow>
          if le_state s = Lease_stopped
          then settle origin (Inl LeaseStoppedError) (s\<lparr>le_waiting := rest\<rparr>)
          else s\<lparr>le_waiting := rest, le_active := Some origin, le_invoked := Suc (le_invoked s)\<rparr>
      | _ \<Rightarrow> s)"

text \<open>
  The owner callback in flight settles: with a failure, or successfully, and then the clock
  is read.
\<close>

definition finish_active :: "'e + jsnum \<Rightarrow> 'e lease \<Rightarrow> 'e lease" where
  "finish_active outcome s =
     (case le_active s of
        None \<Rightarrow> s
      | Some origin \<Rightarrow>
          (let s1 = s\<lparr>le_active := None\<rparr>
           in case outcome of
                Inl e \<Rightarrow> settle origin (Inl (Renewal_failed e)) s1
              | Inr reading \<Rightarrow>
                  (case clockValue reading of
                     Inl x \<Rightarrow> settle origin (Inl x) s1
                   | Inr now \<Rightarrow> settle origin (Inr ()) (s1\<lparr>le_lastRenewedAt := Some now\<rparr>))))"

record 'e lease_snapshot =
  snap_running :: bool
  snap_stopped :: bool
  snap_ttlMs :: rat
  snap_renewalIntervalMs :: rat
  snap_lastRenewedAt :: "rat option"
  snap_lastError :: "'e lease_exn option"

definition lease_snapshot_of :: "'e lease \<Rightarrow> 'e lease_snapshot" where
  "lease_snapshot_of s =
     \<lparr>snap_running = (le_state s = Lease_running), snap_stopped = (le_state s = Lease_stopped),
      snap_ttlMs = le_ttlMs s, snap_renewalIntervalMs = le_renewalIntervalMs s,
      snap_lastRenewedAt = le_lastRenewedAt s, snap_lastError = le_lastError s\<rparr>"

text \<open>
  The steps of a lease: calls of its owner at any time, interval callbacks (not even assumed
  to cease after \<open>clearInterval\<close>), the two kinds of jobs, and reads.
\<close>

datatype 'e lease_label =
    Renew_call
  | Start_call
  | Stop_call
  | Interval
  | Begin_job
  | Finish_job "'e + jsnum"
  | Snapshot_read

fun lease_step :: "'e lease_label \<Rightarrow> 'e lease \<Rightarrow> 'e lease" where
  "lease_step Renew_call s = snd (renew By_caller s)"
| "lease_step Start_call s = snd (start_lease s)"
| "lease_step Stop_call s = snd (stop s)"
| "lease_step Interval s = interval_fires s"
| "lease_step Begin_job s = begin_next s"
| "lease_step (Finish_job outcome) s = finish_active outcome s"
| "lease_step Snapshot_read s = s"

text \<open>A job is taken only where the chain has one to run.\<close>

fun enabled :: "'e lease_label \<Rightarrow> 'e lease \<Rightarrow> bool" where
  "enabled Begin_job s \<longleftrightarrow> le_active s = None \<and> le_waiting s \<noteq> []"
| "enabled (Finish_job _) s \<longleftrightarrow> le_active s \<noteq> None"
| "enabled _ s \<longleftrightarrow> True"

inductive moves :: "'e lease \<Rightarrow> 'e lease_label \<Rightarrow> 'e lease \<Rightarrow> bool" where
  move: "enabled l s \<Longrightarrow> moves s l (lease_step l s)"

inductive_cases movesE: "moves s l t"

inductive reaches :: "'e lease \<Rightarrow> 'e lease \<Rightarrow> bool" where
  here: "reaches s s"
| step: "reaches s t \<Longrightarrow> moves t l u \<Longrightarrow> reaches s u"

section \<open>The expiry of a lease\<close>

lemma duration_Inr:
  "duration v d label = Inr q \<longleftrightarrow>
   (case v of Some n \<Rightarrow> n | None \<Rightarrow> Fin d) = Fin q \<and> is_safe_integer (Fin q) \<and> 0 < q"
proof (cases "case v of Some n \<Rightarrow> n | None \<Rightarrow> Fin d")
  case (Fin r)
  then show ?thesis by (auto simp: duration_def Let_def not_le)
qed (simp_all add: duration_def Let_def)

lemma finiteTimestamp_Inr:
  "finiteTimestamp v label = Inr q \<longleftrightarrow> v = Fin q \<and> is_safe_integer (Fin q) \<and> 0 \<le> q"
proof (cases v)
  case (Fin r)
  then show ?thesis by (auto simp: finiteTimestamp_def not_less)
qed (simp_all add: finiteTimestamp_def)

lemma leaseExpiration_Inr:
  fixes e :: rat and dummy :: "'e itself"
  shows "leaseExpiration wall args = (Inr e :: 'e lease_exn + rat) \<longleftrightarrow>
   (\<exists>now ttl. expiration_now wall args = Fin now \<and> is_safe_integer (Fin now) \<and> 0 \<le> now \<and>
      duration (expiration_ttl args) DEFAULT_LEASE_TTL_MS ''ttlMs'' = (Inr ttl :: 'e lease_exn + rat) \<and>
      e = now + ttl \<and> is_safe_integer (Fin e))"
proof (cases "expiration_now wall args")
  case (Fin now)
  show ?thesis
  proof (cases "duration (expiration_ttl args) DEFAULT_LEASE_TTL_MS ''ttlMs'' :: 'e lease_exn + rat")
    case (Inr ttl)
    then show ?thesis using Fin unfolding leaseExpiration_def Let_def
      by (simp add: not_less del: is_safe_integer.simps) (auto simp del: is_safe_integer.simps)
  next
    case (Inl x)
    then show ?thesis using Fin by (auto simp: leaseExpiration_def Let_def)
  qed
qed (auto simp: leaseExpiration_def Let_def)

lemma isLeaseExpired_Fin:
  "isLeaseExpired env stamp (Fin t) \<longleftrightarrow>
   (\<forall>q. parseLeaseTimestamp env stamp ''lease timestamp'' = (Inr q :: unit lease_exn + rat) \<longrightarrow> q \<le> t)"
  by (auto simp: isLeaseExpired_def split: sum.splits)

lemma isLeaseExpired_bad_clock: "\<not> is_finite now \<Longrightarrow> isLeaseExpired env stamp now"
  by (simp add: isLeaseExpired_def)

lemma expired_bad_text: "\<not> is_finite (date_parse env t) \<Longrightarrow> isLeaseExpired env (Stamp_text t) now"
  by (simp add: isLeaseExpired_def parseLeaseTimestamp_def finiteTimestamp_def)

text \<open>Documented behaviour of dates: parsing the ISO text of a time value gives it back.\<close>

definition date_laws :: "date_env \<Rightarrow> bool" where
  "date_laws env \<longleftrightarrow>
     (\<forall>q. of_int \<lfloor>q\<rfloor> = q \<and> \<bar>q\<bar> \<le> max_date_ms \<longrightarrow> date_parse env (date_iso env q) = Fin q)"

lemma published_expiry_text:
  assumes laws: "date_laws env"
    and published: "leaseExpirationIso env wall args = (Inr shown :: 'e lease_exn + jstr)"
  obtains now ttl where
    "expiration_now wall args = Fin now"
    "duration (expiration_ttl args) DEFAULT_LEASE_TTL_MS ''ttlMs''
       = (Inr ttl :: 'e lease_exn + rat)"
    "0 \<le> now" "0 < ttl"
    "parseLeaseTimestamp env (Stamp_text shown) label = Inr (now + ttl)"
proof -
  obtain e where e: "leaseExpiration wall args = (Inr e :: 'e lease_exn + rat)"
    and ser: "serializeLeaseTimestamp env (Stamp_number (Fin e)) ''lease expiration''
      = (Inr shown :: 'e lease_exn + jstr)"
    using published unfolding leaseExpirationIso_def by (auto split: sum.splits)
  obtain now ttl where now: "expiration_now wall args = Fin now" "0 \<le> now"
    and ttl: "duration (expiration_ttl args) DEFAULT_LEASE_TTL_MS
        ''ttlMs'' = (Inr ttl :: 'e lease_exn + rat)"
    and sum: "e = now + ttl" "is_safe_integer (Fin e)"
    using e unfolding leaseExpiration_Inr by blast
  have pos: "0 < ttl" using ttl unfolding duration_Inr by blast
  have range: "shown = date_iso env e" "\<bar>e\<bar> \<le> max_date_ms"
    using ser unfolding serializeLeaseTimestamp_def parseLeaseTimestamp_def
    by (auto simp: finiteTimestamp_Inr split: sum.splits if_splits)
  have "date_parse env shown = Fin e"
    using laws range sum(2) unfolding date_laws_def by simp
  then have "parseLeaseTimestamp env (Stamp_text shown) label = Inr (now + ttl)"
    using sum now(2) pos unfolding parseLeaseTimestamp_def
    by (simp add: finiteTimestamp_Inr)
  then show ?thesis using that now ttl pos by blast
qed

text \<open>
  C40: A lease published as text lives for exactly its time to live: a reader whose clock shows
  t sees the record exactly when t lies before the publication time plus the time to live (at
  least one millisecond), and a reader whose clock is broken, or a text that is not a time,
  never keeps a record alive.
\<close>

theorem published_lease_expires_on_time:
  assumes "date_laws env"
    and "leaseExpirationIso env wall args = (Inr shown :: 'e lease_exn + jstr)"
  shows "\<exists>now ttl.
      expiration_now wall args = Fin now \<and>
      (case expiration_ttl args of
         Some d \<Rightarrow> d | None \<Rightarrow> Fin DEFAULT_LEASE_TTL_MS) = Fin ttl \<and> 0 < ttl \<and> 0 \<le> now \<and>
      (\<forall>t stamp records (r :: 'r). stamp r = Stamp_text shown \<longrightarrow>
         (r \<in> set (filterUnexpiredRecords env stamp records (Fin t)) \<longleftrightarrow>
          r \<in> set records \<and> t < now + ttl)) \<and>
      (\<forall>bad stamp (records :: 'r list). \<not> is_finite bad \<longrightarrow>
         filterUnexpiredRecords env stamp records bad = []) \<and>
      (\<forall>t stamp records (r :: 'r). \<not> is_finite (date_parse env t) \<longrightarrow> stamp r = Stamp_text t \<longrightarrow>
         (\<forall>now. r \<notin> set (filterUnexpiredRecords env stamp records now)))"
proof -
  obtain now ttl where facts:
    "expiration_now wall args = Fin now"
    "duration (expiration_ttl args) DEFAULT_LEASE_TTL_MS ''ttlMs''
       = (Inr ttl :: 'e lease_exn + rat)"
    "0 \<le> now" "0 < ttl"
    and parsed: "parseLeaseTimestamp env (Stamp_text shown) ''lease timestamp''
       = (Inr (now + ttl) :: unit lease_exn + rat)"
    using published_expiry_text [OF assms, where label = "''lease timestamp''"] by metis
  show ?thesis
  proof (rule exI [of _ now], rule exI [of _ ttl], intro conjI)
    show "\<forall>t stamp records (r :: 'r). stamp r = Stamp_text shown \<longrightarrow>
        (r \<in> set (filterUnexpiredRecords env stamp records (Fin t)) \<longleftrightarrow>
         r \<in> set records \<and> t < now + ttl)"
      by (auto simp: filterUnexpiredRecords_def isLeaseExpired_Fin parsed)
    show "\<forall>bad stamp (records :: 'r list). \<not> is_finite bad \<longrightarrow>
        filterUnexpiredRecords env stamp records bad = []"
      by (simp add: filterUnexpiredRecords_def isLeaseExpired_bad_clock)
    show "\<forall>t stamp records (r :: 'r). \<not> is_finite (date_parse env t) \<longrightarrow> stamp r = Stamp_text t \<longrightarrow>
        (\<forall>now. r \<notin> set (filterUnexpiredRecords env stamp records now))"
      by (simp add: filterUnexpiredRecords_def expired_bad_text)
    show "(case expiration_ttl args of
        Some d \<Rightarrow> d | None \<Rightarrow> Fin DEFAULT_LEASE_TTL_MS) = Fin ttl"
      using facts(2) unfolding duration_Inr by (simp split: option.splits)
  qed (use facts in auto)
qed

text \<open>A publication at time 1000 with the default time to live, over dates written in unary.\<close>

definition demo_dates :: date_env where
  "demo_dates = \<lparr>date_parse = (\<lambda>t. if t = [] then NaN else Fin (of_int (int (t ! 0) - int (length t) + 1))),
     date_iso = (\<lambda>q. nat \<lfloor>q\<rfloor> # replicate (nat (- \<lfloor>q\<rfloor>)) 0)\<rparr>"

lemma demo_dates_laws: "date_laws demo_dates"
  unfolding date_laws_def demo_dates_def by (auto simp: max_def)

theorem published_lease_expires_on_time_witness:
  "\<exists>shown. leaseExpirationIso demo_dates NaN (Positional (Fin 1000) None) = (Inr shown :: unit lease_exn + jstr) \<and>
     (() \<in> set (filterUnexpiredRecords demo_dates (\<lambda>_. Stamp_text shown) [()] (Fin 90999)))"
proof -
  let ?shown = "date_iso demo_dates 91000"
  have pub: "leaseExpirationIso demo_dates NaN (Positional (Fin 1000) None) = (Inr ?shown :: unit lease_exn + jstr)"
    by (simp add: leaseExpirationIso_def leaseExpiration_def expiration_now_def Let_def duration_def serializeLeaseTimestamp_def
        parseLeaseTimestamp_def finiteTimestamp_def DEFAULT_LEASE_TTL_MS_def max_safe_integer_def
        max_date_ms_def)
  show ?thesis
    using published_lease_expires_on_time [where 'r = unit, OF demo_dates_laws pub] pub
    by (auto simp: DEFAULT_LEASE_TTL_MS_def expiration_now_def)
qed

section \<open>Invariant of the renewal timer\<close>

text \<open>The failures among the settled operations, oldest first.\<close>

fun failures :: "('x + 'a) list \<Rightarrow> 'x list" where
  "failures [] = []"
| "failures (Inl x # rs) = x # failures rs"
| "failures (Inr _ # rs) = failures rs"

lemma failures_append [simp]: "failures (rs @ qs) = failures rs @ failures qs"
  by (induction rs rule: failures.induct) auto

text \<open>
  The timer runs exactly while the lease does; the promise of \<open>start\<close> follows an operation that
  was called, and if that operation failed the lease is stopped; \<open>lastError\<close> is the latest
  failure and what was reported failed; the owner callback ran once for every operation that
  did not meet a stopped lease; a renewal time is known exactly when some operation succeeded.
\<close>

definition lease_inv :: "'e lease \<Rightarrow> bool" where
  "lease_inv s \<longleftrightarrow>
     le_timer s = (le_state s = Lease_running) \<and>
     (le_state s = Lease_running \<longrightarrow> le_startPromise s \<noteq> None) \<and>
     (\<forall>k. le_startPromise s = Some k \<longrightarrow> le_state s \<noteq> Lease_idle \<and> k < issued s \<and>
        (\<forall>x. k < length (le_results s) \<longrightarrow> le_results s ! k = Inl x \<longrightarrow> le_state s = Lease_stopped)) \<and>
     le_lastError s = (if failures (le_results s) = [] then None else Some (last (failures (le_results s)))) \<and>
     set (le_reported s) \<subseteq> set (failures (le_results s)) \<and>
     (LeaseStoppedError \<in> set (failures (le_results s)) \<longrightarrow> le_state s = Lease_stopped) \<and>
     le_invoked s = length (filter (\<lambda>r. r \<noteq> Inl LeaseStoppedError) (le_results s)) +
       (if le_active s = None then 0 else 1) \<and>
     (le_lastRenewedAt s \<noteq> None \<longleftrightarrow> Inr () \<in> set (le_results s))"

text \<open>The operation of \<open>start\<close> keeps its place in the chain.\<close>

definition operations :: "'e lease \<Rightarrow> renewal_origin list" where
  "operations s = (case le_active s of None \<Rightarrow> [] | Some origin \<Rightarrow> [origin]) @ le_waiting s"

definition start_in_place :: "'e lease \<Rightarrow> bool" where
  "start_in_place s \<longleftrightarrow>
     (\<forall>i < length (operations s). operations s ! i = By_start \<longleftrightarrow>
        le_startPromise s = Some (length (le_results s) + i))"

lemma issued_operations: "issued s = length (le_results s) + length (operations s)"
  by (simp add: issued_def operations_def split: option.split)

lemma not_stopped_failure:
  "finiteTimestamp v label = Inl x \<Longrightarrow> x \<noteq> LeaseStoppedError"
  by (auto simp: finiteTimestamp_def split: if_splits)

lemmas lease_steps =
  renew_def stop_def start_lease_def interval_fires_def settle_def begin_next_def finish_active_def

lemma start_in_place_renew:
  assumes "start_in_place s" "origin \<noteq> By_start" "\<forall>k. le_startPromise s = Some k \<longrightarrow> k < issued s"
  shows "start_in_place (snd (renew origin s))"
  using assms unfolding start_in_place_def renew_def issued_operations
  by (auto simp: operations_def nth_append less_Suc_eq split: option.splits)

lemma start_in_place_stop: "start_in_place s \<Longrightarrow> start_in_place (snd (stop s))"
  by (auto simp: start_in_place_def stop_def operations_def)

lemma start_in_place_start:
  assumes "start_in_place s"
  shows "start_in_place (snd (start_lease s))"
proof (cases "le_state s = Lease_stopped \<or> le_startPromise s \<noteq> None")
  case True
  then show ?thesis using assms by (auto simp: start_lease_def)
next
  case False
  then have "le_startPromise s = None" by blast
  then show ?thesis
    using False assms unfolding start_in_place_def start_lease_def
    by (auto simp: renew_def operations_def nth_append less_Suc_eq issued_operations split: option.splits)
qed

lemma start_in_place_shift:
  assumes "start_in_place s" "operations s = origin # operations t"
    and "le_startPromise t = le_startPromise s" "length (le_results t) = Suc (length (le_results s))"
  shows "start_in_place t"
  unfolding start_in_place_def
proof (intro allI impI)
  fix i assume "i < length (operations t)"
  then show "operations t ! i = By_start \<longleftrightarrow> le_startPromise t = Some (length (le_results t) + i)"
    using assms(1) [unfolded start_in_place_def, rule_format, of "Suc i"] assms(2-4) by simp
qed

lemma settle_fields [simp]:
  "le_results (settle origin r s) = le_results s @ [r]"
  "le_waiting (settle origin r s) = le_waiting s"
  "le_active (settle origin r s) = le_active s"
  "le_startPromise (settle origin r s) = le_startPromise s"
  "le_invoked (settle origin r s) = le_invoked s"
  "le_lastRenewedAt (settle origin r s) = le_lastRenewedAt s"
  by (auto simp: settle_def stop_def Let_def split: sum.split renewal_origin.split)

lemma settle_operations [simp]: "operations (settle origin r s) = operations s"
  by (simp add: operations_def)

text \<open>What settling the first operation of \<open>s\<close> leaves, from the state \<open>t\<close> without it.\<close>

lemma lease_inv_settle:
  assumes inv: "lease_inv s" "start_in_place s" and first: "operations s = origin # operations t"
    and same: "le_state t = le_state s" "le_timer t = le_timer s" "le_results t = le_results s"
      "le_startPromise t = le_startPromise s" "le_lastError t = le_lastError s"
      "le_reported t = le_reported s"
    and invoked: "le_invoked t = length (filter (\<lambda>r. r \<noteq> Inl LeaseStoppedError) (le_results s @ [r]))"
    and idle: "le_active t = None"
    and renewed: "le_lastRenewedAt t \<noteq> None \<longleftrightarrow> Inr () \<in> set (le_results s @ [r])"
    and stopped: "r = Inl LeaseStoppedError \<Longrightarrow> le_state s = Lease_stopped"
  shows "lease_inv (settle origin r t)"
proof -
  have place: "origin = By_start \<longleftrightarrow> le_startPromise s = Some (length (le_results s))"
    using inv(2) first by (auto simp: start_in_place_def)
  have count: "issued (settle origin r t) = issued s"
    using first same by (simp add: issued_operations)
  show ?thesis
    using inv(1) place count same invoked idle renewed stopped
    unfolding lease_inv_def
    by (auto simp: settle_def stop_def Let_def nth_append less_Suc_eq
        split: sum.splits renewal_origin.splits if_splits)
qed

definition lease_ok :: "'e lease \<Rightarrow> bool" where
  "lease_ok s \<longleftrightarrow> lease_inv s \<and> start_in_place s"

lemma lease_ok_renew:
  assumes "lease_ok s" "origin \<noteq> By_start"
  shows "lease_ok (snd (renew origin s))"
proof -
  have "lease_inv (snd (renew origin s))"
    using assms unfolding lease_ok_def lease_inv_def renew_def issued_def by auto
  moreover have "start_in_place (snd (renew origin s))"
    using assms by (intro start_in_place_renew) (auto simp: lease_ok_def lease_inv_def)
  ultimately show ?thesis by (simp add: lease_ok_def)
qed

lemma lease_ok_stop: "lease_ok s \<Longrightarrow> lease_ok (snd (stop s))"
  unfolding lease_ok_def lease_inv_def start_in_place_def stop_def issued_def operations_def by auto

lemma lease_ok_start:
  assumes "lease_ok s"
  shows "lease_ok (snd (start_lease s))"
proof -
  have "lease_inv (snd (start_lease s))"
    using assms unfolding lease_ok_def lease_inv_def
    by (auto simp: start_lease_def renew_def issued_def split: option.split)
  moreover have "start_in_place (snd (start_lease s))"
    using assms by (intro start_in_place_start) (simp add: lease_ok_def)
  ultimately show ?thesis by (simp add: lease_ok_def)
qed

lemma lease_ok_settle:
  assumes "lease_ok s" "operations s = origin # operations t"
    and "le_state t = le_state s" "le_timer t = le_timer s" "le_results t = le_results s"
      "le_startPromise t = le_startPromise s" "le_lastError t = le_lastError s"
      "le_reported t = le_reported s"
    and "le_invoked t = length (filter (\<lambda>r. r \<noteq> Inl LeaseStoppedError) (le_results s @ [r]))"
    and "le_active t = None"
    and "le_lastRenewedAt t \<noteq> None \<longleftrightarrow> Inr () \<in> set (le_results s @ [r])"
    and "r = Inl LeaseStoppedError \<Longrightarrow> le_state s = Lease_stopped"
  shows "lease_ok (settle origin r t)"
proof -
  have ok: "lease_inv s" "start_in_place s" using assms(1) by (simp_all add: lease_ok_def)
  have "lease_inv (settle origin r t)"
    by (rule lease_inv_settle [OF ok assms(2-12)])
  moreover have "start_in_place (settle origin r t)"
    by (rule start_in_place_shift [OF ok(2)]) (use assms(2-6) in simp_all)
  ultimately show ?thesis by (simp add: lease_ok_def)
qed

lemma lease_ok_begin:
  assumes "lease_ok s"
  shows "lease_ok (begin_next s)"
proof (cases "le_active s = None \<and> le_waiting s \<noteq> []")
  case False
  then show ?thesis using assms by (auto simp: begin_next_def neq_Nil_conv split: option.split list.split)
next
  case True
  then obtain origin rest where w: "le_active s = None" "le_waiting s = origin # rest"
    by (auto simp: neq_Nil_conv)
  show ?thesis
  proof (cases "le_state s = Lease_stopped")
    case True
    have eq: "begin_next s = settle origin (Inl LeaseStoppedError) (s\<lparr>le_waiting := rest\<rparr>)"
      using w True by (simp add: begin_next_def)
    have inv: "le_invoked s = length (filter (\<lambda>r. r \<noteq> Inl LeaseStoppedError) (le_results s))"
      "le_lastRenewedAt s \<noteq> None \<longleftrightarrow> Inr () \<in> set (le_results s)"
      using assms w by (auto simp: lease_ok_def lease_inv_def)
    show ?thesis unfolding eq
      by (rule lease_ok_settle [OF assms]) (use w True inv in \<open>auto simp: operations_def\<close>)
  next
    case False
    have eq: "begin_next s = s\<lparr>le_waiting := rest, le_active := Some origin, le_invoked := Suc (le_invoked s)\<rparr>"
      using w False by (simp add: begin_next_def)
    have same: "operations (begin_next s) = operations s"
      using w by (simp add: eq operations_def)
    have "start_in_place (begin_next s)"
      using assms same unfolding lease_ok_def start_in_place_def by (simp add: eq)
    moreover have "lease_inv (begin_next s)"
      using assms w same unfolding lease_ok_def lease_inv_def issued_operations by (simp add: eq)
    ultimately show ?thesis by (simp add: lease_ok_def)
  qed
qed

lemma lease_ok_finish:
  fixes s :: "'e lease"
  assumes "lease_ok s"
  shows "lease_ok (finish_active outcome s)"
proof (cases "le_active s")
  case None
  then show ?thesis using assms by (simp add: finish_active_def)
next
  case (Some origin)
  have inv: "le_invoked s = Suc (length (filter (\<lambda>r. r \<noteq> Inl LeaseStoppedError) (le_results s)))"
      "le_lastRenewedAt s \<noteq> None \<longleftrightarrow> Inr () \<in> set (le_results s)"
    using assms Some by (auto simp: lease_ok_def lease_inv_def)
  consider (bad) x where "x \<noteq> LeaseStoppedError"
      "finish_active outcome s = settle origin (Inl x) (s\<lparr>le_active := None\<rparr>)"
    | (good) now where
      "finish_active outcome s = settle origin (Inr ()) (s\<lparr>le_active := None, le_lastRenewedAt := Some now\<rparr>)"
  proof (cases outcome)
    case (Inl e)
    then show ?thesis using Some bad [of "Renewal_failed e"] by (simp add: finish_active_def Let_def)
  next
    case (Inr reading)
    show ?thesis
    proof (cases "clockValue reading :: 'e lease_exn + rat")
      case bad_clock: (Inl x)
      then have "x \<noteq> LeaseStoppedError" by (auto simp: clockValue_def dest: not_stopped_failure)
      then show ?thesis using Some Inr bad_clock bad [of x] by (simp add: finish_active_def Let_def)
    next
      case clock: (Inr now)
      show ?thesis by (rule good [of now]) (use Some Inr clock in \<open>simp add: finish_active_def Let_def\<close>)
    qed
  qed
  then show ?thesis
  proof cases
    case bad
    show ?thesis unfolding bad(2)
      by (rule lease_ok_settle [OF assms]) (use Some inv bad(1) in \<open>auto simp: operations_def\<close>)
  next
    case good
    show ?thesis unfolding good
      by (rule lease_ok_settle [OF assms]) (use Some inv in \<open>auto simp: operations_def\<close>)
  qed
qed

lemma lease_ok_step: "lease_ok s \<Longrightarrow> lease_ok (lease_step l s)"
  by (cases l) (auto simp: interval_fires_def lease_ok_renew lease_ok_stop lease_ok_start
      lease_ok_begin lease_ok_finish)

lemma lease_ok_new: "new_lease options = Inr s \<Longrightarrow> lease_ok s"
  by (auto simp: new_lease_def lease_ok_def lease_inv_def start_in_place_def operations_def issued_def
      split: if_splits sum.splits)

lemma reaches_ok: "reaches s t \<Longrightarrow> lease_ok s \<Longrightarrow> lease_ok t"
  by (induction rule: reaches.induct) (auto elim!: movesE simp: lease_ok_step)

section \<open>Stopping\<close>

lemma settle_stopped [simp]:
  "le_state s = Lease_stopped \<Longrightarrow> le_state (settle origin r s) = Lease_stopped"
  by (auto simp: settle_def stop_def Let_def split: sum.split renewal_origin.split)

text \<open>Settled results stay, and a stopped lease stays stopped.\<close>

definition keeps_results :: "'e lease \<Rightarrow> 'e lease \<Rightarrow> bool" where
  "keeps_results s t \<longleftrightarrow> (\<exists>more. le_results t = le_results s @ more)"

lemma step_keeps_results: "keeps_results s (lease_step l s)"
  by (cases l) (auto simp: keeps_results_def lease_steps finish_active_def Let_def
      split: option.split list.split sum.split renewal_origin.split)

lemma step_stopped: "le_state s = Lease_stopped \<Longrightarrow> le_state (lease_step l s) = Lease_stopped"
  by (cases l) (auto simp: renew_def stop_def start_lease_def interval_fires_def begin_next_def
      finish_active_def Let_def split: option.split list.split sum.split)

text \<open>
  A lease that was stopped when \<open>target\<close> operations had been called: what is still in flight
  is one of them.
\<close>

definition stopping :: "nat \<Rightarrow> 'e lease \<Rightarrow> bool" where
  "stopping target s \<longleftrightarrow>
     le_state s = Lease_stopped \<and> (le_active s \<noteq> None \<longrightarrow> length (le_results s) < target)"

lemma stop_stopping: "stop s = (target, t) \<Longrightarrow> stopping target t"
  by (auto simp: stop_def stopping_def issued_def split: if_splits)

lemma step_active: "le_state s = Lease_stopped \<Longrightarrow>
  le_active (lease_step l s) \<noteq> None \<Longrightarrow> le_active s \<noteq> None \<and> le_results (lease_step l s) = le_results s"
  by (cases l) (auto simp: renew_def stop_def start_lease_def interval_fires_def begin_next_def
      finish_active_def Let_def split: option.splits list.splits sum.splits)

lemma stopping_step: "stopping target s \<Longrightarrow> stopping target (lease_step l s)"
  unfolding stopping_def using step_active [of s l] step_stopped [of s l] by auto

lemma reaches_stopping: "reaches s t \<Longrightarrow> stopping target s \<Longrightarrow> stopping target t"
  by (induction rule: reaches.induct) (auto elim!: movesE simp: stopping_step)

text \<open>A lease that is stopped and has nothing in flight.\<close>

definition silent_since :: "'e lease \<Rightarrow> 'e lease \<Rightarrow> bool" where
  "silent_since t u \<longleftrightarrow>
     le_state u = Lease_stopped \<and> le_active u = None \<and>
     le_invoked u = le_invoked t \<and> le_lastRenewedAt u = le_lastRenewedAt t \<and>
     (\<exists>n. le_results u = le_results t @ replicate n (Inl LeaseStoppedError))"

lemma silent_step: "silent_since t u \<Longrightarrow> silent_since t (lease_step l u)"
  unfolding silent_since_def
  by (cases l) (auto simp: renew_def stop_def start_lease_def interval_fires_def begin_next_def
      finish_active_def replicate_append_same Let_def simp flip: replicate_Suc
      split: option.split list.split)

lemma reaches_silent: "reaches t u \<Longrightarrow> silent_since s t \<Longrightarrow> silent_since s u"
  by (induction rule: reaches.induct) (auto elim!: movesE simp: silent_step)

lemma resolved_silent: "stopping target t \<Longrightarrow> stop_resolved target t \<Longrightarrow> silent_since t t"
  unfolding stopping_def stop_resolved_def silent_since_def
  by (auto intro: exI [of _ 0])

section \<open>Progress of the chain\<close>

text \<open>How far the chain has come: two for each settled operation, one for the one in flight.\<close>

definition progress :: "'e lease \<Rightarrow> nat" where
  "progress s = 2 * length (le_results s) + (if le_active s = None then 0 else 1)"

fun is_job :: "'e lease_label \<Rightarrow> bool" where
  "is_job Begin_job = True"
| "is_job (Finish_job _) = True"
| "is_job _ = False"

lemma step_progress: "progress s \<le> progress (lease_step l s)"
  by (cases l) (auto simp: progress_def renew_def stop_def start_lease_def interval_fires_def
      begin_next_def finish_active_def Let_def split: option.split list.split sum.split)

lemma job_progress: "enabled l s \<Longrightarrow> is_job l \<Longrightarrow> progress s < progress (lease_step l s)"
  by (cases l) (auto simp: progress_def begin_next_def finish_active_def Let_def
      split: option.split list.split sum.split)

text \<open>An execution: a state and the label of the step taken there, at every moment.\<close>

definition execution :: "(nat \<Rightarrow> 'e lease) \<Rightarrow> (nat \<Rightarrow> 'e lease_label) \<Rightarrow> bool" where
  "execution run labels \<longleftrightarrow> (\<forall>i. moves (run i) (labels i) (run (Suc i)))"

text \<open>
  The event loop runs a job of the chain some time after one is outstanding; for an operation
  in flight this says that the owner callback settles.
\<close>

definition fair :: "(nat \<Rightarrow> 'e lease) \<Rightarrow> (nat \<Rightarrow> 'e lease_label) \<Rightarrow> bool" where
  "fair run labels \<longleftrightarrow>
     (\<forall>i. operations (run i) \<noteq> [] \<longrightarrow> (\<exists>j \<ge> i. is_job (labels j)))"

lemma step_issued: "issued s \<le> issued (lease_step l s)"
  by (cases l) (auto simp: issued_operations operations_def renew_def stop_def start_lease_def
      interval_fires_def begin_next_def finish_active_def Let_def
      split: option.split list.split sum.split)

lemma execution_mono:
  fixes f :: "'e lease \<Rightarrow> nat"
  assumes "execution run labels" and "\<And>s l. f s \<le> f (lease_step l s)" and "i \<le> j"
  shows "f (run i) \<le> f (run j)"
  using assms(3)
proof (induction rule: dec_induct)
  case (step n)
  have "moves (run n) (labels n) (run (Suc n))" using assms(1) by (simp add: execution_def)
  then have "f (run n) \<le> f (run (Suc n))" using assms(2) by (auto elim: movesE)
  then show ?case using step.IH by linarith
qed simp

lemma execution_ok: "execution run labels \<Longrightarrow> lease_ok (run 0) \<Longrightarrow> lease_ok (run i)"
  by (induction i) (auto simp: execution_def lease_ok_step moves.simps)

lemma execution_progress:
  assumes ex: "execution run labels" and fair: "fair run labels"
  shows "\<exists>j \<ge> i. progress (run i) + k \<le> progress (run j) \<or> issued (run i) \<le> length (le_results (run j))"
proof (induction k)
  case 0
  then show ?case by auto
next
  case (Suc k)
  then obtain j where j: "i \<le> j" and
    or: "progress (run i) + k \<le> progress (run j) \<or> issued (run i) \<le> length (le_results (run j))"
    by blast
  show ?case
  proof (cases "issued (run i) \<le> length (le_results (run j))")
    case True
    then show ?thesis using j by blast
  next
    case False
    have "issued (run i) \<le> issued (run j)"
      using execution_mono [OF ex step_issued j] .
    then have "operations (run j) \<noteq> []" using False by (auto simp: issued_operations)
    then obtain m where m: "j \<le> m" "is_job (labels m)" using fair by (auto simp: fair_def)
    have "progress (run j) \<le> progress (run m)"
      using execution_mono [OF ex step_progress m(1)] .
    moreover have "progress (run m) < progress (run (Suc m))"
      using ex m(2) job_progress unfolding execution_def by (metis movesE)
    ultimately show ?thesis using False or j m(1) by (intro exI [of _ "Suc m"]) linarith
  qed
qed

lemma calls_settle:
  assumes "execution run labels" "fair run labels"
  shows "\<exists>j \<ge> i. issued (run i) \<le> length (le_results (run j))"
proof -
  obtain j where "i \<le> j" and
    "progress (run i) + (2 * issued (run i) + 2) \<le> progress (run j)
       \<or> issued (run i) \<le> length (le_results (run j))"
    using execution_progress [OF assms] by blast
  then show ?thesis by (intro exI [of _ j]) (auto simp: progress_def split: if_splits)
qed

section \<open>Properties\<close>

lemma set_failures: "x \<in> set (failures rs) \<longleftrightarrow> Inl x \<in> set rs"
  by (induction rs rule: failures.induct) auto

definition lease_demo :: "unit lease" where
  "lease_demo = \<lparr>le_ttlMs = 90000, le_renewalIntervalMs = 30000, le_onError = True,
     le_state = Lease_idle, le_timer = False, le_startPromise = None, le_lastRenewedAt = None,
     le_lastError = None, le_waiting = [], le_active = None, le_results = [], le_invoked = 0,
     le_reported = []\<rparr>"

lemma lease_demo_new:
  "new_lease \<lparr>lo_renew_is_function = True, lo_ttlMs = None, lo_renewalIntervalMs = None, lo_onError = True\<rparr>
     = Inr lease_demo"
  by (simp add: new_lease_def duration_def lease_demo_def Let_def DEFAULT_LEASE_TTL_MS_def
      DEFAULT_LEASE_RENEWAL_INTERVAL_MS_def max_safe_integer_def)

lemma lease_inv_start:
  assumes "lease_inv s" and "le_startPromise s = Some k"
  shows "k < issued s \<and>
    (k < length (le_results s) \<and> le_results s ! k \<noteq> Inr () \<longrightarrow> snap_stopped (lease_snapshot_of s))"
  using assms by (cases "le_results s ! k") (auto simp: lease_inv_def lease_snapshot_of_def)

text \<open>
  C0: Whatever the owner, the interval timer and the promise jobs do after construction: the
  timer runs exactly while the snapshot says running; a failed operation of \<open>start\<close> has stopped
  the lease; only a stopped lease rejects without asking the owner; the last error is the
  latest failure, only failures are reported, and a renewal time is known exactly when an
  operation succeeded.
\<close>

theorem lease_timer_invariant:
  assumes "new_lease options = Inr s0" and "reaches s0 s"
  shows "(le_timer s \<longleftrightarrow> snap_running (lease_snapshot_of s)) \<and>
    (\<forall>k. le_startPromise s = Some k \<longrightarrow> k < issued s \<and>
      (k < length (le_results s) \<and> le_results s ! k \<noteq> Inr () \<longrightarrow> snap_stopped (lease_snapshot_of s))) \<and>
    (Inl LeaseStoppedError \<in> set (le_results s) \<longrightarrow> snap_stopped (lease_snapshot_of s)) \<and>
    le_invoked s = length (filter (\<lambda>r. r \<noteq> Inl LeaseStoppedError) (le_results s)) +
      (if le_active s = None then 0 else 1) \<and>
    snap_lastError (lease_snapshot_of s) =
      (if failures (le_results s) = [] then None else Some (last (failures (le_results s)))) \<and>
    (\<forall>x \<in> set (le_reported s). Inl x \<in> set (le_results s)) \<and>
    (snap_lastRenewedAt (lease_snapshot_of s) \<noteq> None \<longleftrightarrow> Inr () \<in> set (le_results s))"
proof (intro conjI)
  have inv: "lease_inv s"
    using reaches_ok [OF assms(2) lease_ok_new [OF assms(1)]] by (simp add: lease_ok_def)
  note facts = inv [unfolded lease_inv_def]
  show "le_timer s \<longleftrightarrow> snap_running (lease_snapshot_of s)"
    using facts by (simp add: lease_snapshot_of_def)
  show "\<forall>k. le_startPromise s = Some k \<longrightarrow> k < issued s \<and>
      (k < length (le_results s) \<and> le_results s ! k \<noteq> Inr () \<longrightarrow> snap_stopped (lease_snapshot_of s))"
    by (intro allI impI, rule lease_inv_start [OF inv])
  show "Inl LeaseStoppedError \<in> set (le_results s) \<longrightarrow> snap_stopped (lease_snapshot_of s)"
    using facts by (auto simp: lease_snapshot_of_def set_failures)
  show "le_invoked s = length (filter (\<lambda>r. r \<noteq> Inl LeaseStoppedError) (le_results s)) +
      (if le_active s = None then 0 else 1)" using facts by blast
  show "snap_lastError (lease_snapshot_of s) =
      (if failures (le_results s) = [] then None else Some (last (failures (le_results s))))"
    using facts by (simp add: lease_snapshot_of_def)
  show "\<forall>x \<in> set (le_reported s). Inl x \<in> set (le_results s)"
    using facts by (auto simp: set_failures)
  show "snap_lastRenewedAt (lease_snapshot_of s) \<noteq> None \<longleftrightarrow> Inr () \<in> set (le_results s)"
    using facts by (simp add: lease_snapshot_of_def)
qed

text \<open>A start whose first renewal fails.\<close>

definition failed_start :: "unit lease" where
  "failed_start = finish_active (Inl ()) (begin_next (snd (start_lease lease_demo)))"

lemma failed_start_reached: "reaches lease_demo failed_start"
proof -
  have "moves lease_demo Start_call (lease_step Start_call lease_demo)"
    by (rule move) simp
  then have 1: "reaches lease_demo (lease_step Start_call lease_demo)" by (rule reaches.step [OF here])
  have "moves (lease_step Start_call lease_demo) Begin_job (lease_step Begin_job (lease_step Start_call lease_demo))"
    by (rule move) (simp add: lease_demo_def start_lease_def renew_def)
  note 2 = reaches.step [OF 1 this]
  have "moves (lease_step Begin_job (lease_step Start_call lease_demo)) (Finish_job (Inl ())) failed_start"
    unfolding failed_start_def lease_step.simps(6) [symmetric] lease_step.simps(5) [symmetric]
      lease_step.simps(2) [symmetric]
    by (rule move) (simp add: lease_demo_def start_lease_def renew_def begin_next_def)
  from reaches.step [OF 2 this] show ?thesis .
qed

theorem lease_timer_invariant_witness:
  "le_startPromise failed_start = Some 0 \<and> snap_stopped (lease_snapshot_of failed_start)"
proof -
  have p: "le_startPromise failed_start = Some 0"
    by (simp add: failed_start_def finish_active_def begin_next_def start_lease_def renew_def
        lease_demo_def issued_def settle_def stop_def)
  have r: "0 < length (le_results failed_start)" "le_results failed_start ! 0 \<noteq> Inr ()"
    by (simp_all add: failed_start_def finish_active_def begin_next_def start_lease_def renew_def
        lease_demo_def issued_def)
  show ?thesis
    using lease_timer_invariant [OF lease_demo_new failed_start_reached] p r by blast
qed

text \<open>
  C0: Once a call of \<open>stop\<close> has returned, that is once the operations called before it are
  settled, no owner renewal is in flight, and none ever begins again, whatever is called and
  even if the interval callback still fires: later operations are rejected with
  \<open>LeaseStoppedError\<close>, so is \<open>start\<close>, and the renewal time no longer changes.
\<close>

theorem stopped_lease_is_silent:
  assumes "stop s = (target, s')" and "reaches s' t" and "stop_resolved target t" and "reaches t u"
  shows "le_active u = None \<and> le_invoked u = le_invoked t \<and>
    le_lastRenewedAt u = le_lastRenewedAt t \<and>
    (\<exists>n. le_results u = le_results t @ replicate n (Inl LeaseStoppedError)) \<and>
    fst (start_lease u) = Inl LeaseStoppedError"
proof -
  have "silent_since t u"
    using reaches_silent [OF assms(4) resolved_silent [OF reaches_stopping [OF assms(2) stop_stopping
        [OF assms(1)]] assms(3)]] .
  then show ?thesis
    by (simp_all add: silent_since_def start_lease_def)
qed

theorem stopped_lease_is_silent_witness:
  "le_active (lease_step Begin_job (lease_step Interval (snd (stop lease_demo)))) = None"
proof -
  let ?s = "snd (stop lease_demo)"
  have st: "stop lease_demo = (0, ?s)" by (simp add: stop_def lease_demo_def issued_def)
  have "moves ?s Interval (lease_step Interval ?s)" by (rule move) simp
  note 1 = reaches.step [OF here this]
  have "moves (lease_step Interval ?s) Begin_job (lease_step Begin_job (lease_step Interval ?s))"
    by (rule move) (simp add: interval_fires_def renew_def stop_def lease_demo_def)
  note 2 = reaches.step [OF 1 this]
  show ?thesis
    using stopped_lease_is_silent [OF st here _ 2] by (simp add: stop_resolved_def)
qed

text \<open>
  C0: Every promise that a lease hands out is settled: in an execution in which the event loop
  runs the jobs of the chain (and so owner callbacks settle), each call of \<open>renew\<close> and of
  \<open>start\<close> gets its result, and each \<open>stop\<close> returns, however many calls and timer callbacks
  are interleaved.
\<close>

theorem every_renewal_settles:
  assumes "new_lease options = Inr (run 0)" and "execution run labels" and "fair run labels"
  shows "(labels i = Renew_call \<longrightarrow> (\<exists>j. fst (renew By_caller (run i)) < length (le_results (run j)))) \<and>
    (\<forall>k. labels i = Start_call \<and> fst (start_lease (run i)) = Inr k \<longrightarrow>
      (\<exists>j. k < length (le_results (run j)))) \<and>
    (\<exists>j. stop_resolved (fst (stop (run i))) (run j))"
proof (intro conjI allI impI)
  have nxt: "run (Suc i) = lease_step (labels i) (run i)"
    using assms(2) by (auto simp: execution_def elim: movesE)
  have ok: "lease_ok (run i)" by (rule execution_ok [OF assms(2) lease_ok_new [OF assms(1)]])
  have settled: "\<exists>j. n < length (le_results (run j))" if "n < issued (run (Suc i))" for n
    using calls_settle [OF assms(2,3), of "Suc i"] that by (meson le_trans less_eq_Suc_le)
  show "\<exists>j. fst (renew By_caller (run i)) < length (le_results (run j))" if "labels i = Renew_call"
    by (rule settled) (simp add: nxt that renew_def issued_def)
  show "\<exists>j. k < length (le_results (run j))"
    if "labels i = Start_call \<and> fst (start_lease (run i)) = Inr k" for k
    by (rule settled) (use that ok in \<open>auto simp: nxt start_lease_def renew_def lease_ok_def
        lease_inv_def issued_def split: if_splits option.splits\<close>)
  show "\<exists>j. stop_resolved (fst (stop (run i))) (run j)"
    using calls_settle [OF assms(2,3), of i] by (auto simp: stop_resolved_def stop_def)
qed

text \<open>One renewal that succeeds, and a lease that is then left alone.\<close>

fun demo_labels :: "nat \<Rightarrow> unit lease_label" where
  "demo_labels n = (if n = 0 then Renew_call else if n = 1 then Begin_job
     else if n = 2 then Finish_job (Inr (Fin 5)) else Snapshot_read)"

primrec demo_run :: "nat \<Rightarrow> unit lease" where
  "demo_run 0 = lease_demo"
| "demo_run (Suc n) = lease_step (demo_labels n) (demo_run n)"

lemma demo_run_new:
  "new_lease \<lparr>lo_renew_is_function = True, lo_ttlMs = None, lo_renewalIntervalMs = None, lo_onError = True\<rparr>
     = Inr (demo_run 0)"
  by (simp add: lease_demo_new)

lemma demo_run_rest: "operations (demo_run (n + 3)) = []"
  by (induction n) (simp_all add: numeral_3_eq_3 lease_demo_def renew_def begin_next_def
      finish_active_def operations_def clockValue_def finiteTimestamp_def max_safe_integer_def)

lemma demo_run_execution: "execution demo_run demo_labels"
proof -
  have "enabled (demo_labels n) (demo_run n)" for n
    by (cases "n = 0"; cases "n = 1"; cases "n = 2")
      (simp_all add: numeral_2_eq_2 lease_demo_def renew_def begin_next_def)
  then show ?thesis unfolding execution_def demo_run.simps by (blast intro: move)
qed

lemma demo_run_fair: "fair demo_run demo_labels"
proof -
  have "\<exists>j \<ge> n. is_job (demo_labels j)" if "operations (demo_run n) \<noteq> []" for n
  proof -
    have "n < 3" using that demo_run_rest [of "n - 3"] by (cases "n < 3") auto
    then show ?thesis by (intro exI [of _ 2]) auto
  qed
  then show ?thesis by (simp add: fair_def)
qed

theorem every_renewal_settles_witness:
  "\<exists>j. fst (renew By_caller (demo_run 0)) < length (le_results (demo_run j))"
  using every_renewal_settles [OF demo_run_new demo_run_execution demo_run_fair, of 0] by simp

end
