(* ===== verification/Json_Text.thy ===== *)
theory Json_Text
  imports Protocol_Errors "HOL-Library.List_Lexorder"
begin

text \<open>
  The JSON text of untyped values as the validator sees it (\<open>src/protocol/validation.ts\<close>): the
  bounded measurement of a value that was not serialized yet (\<open>measureJsonBytes\<close>) and the
  canonical text with sorted members (\<open>canonicalizeJson\<close>).  The reference both are compared
  with is \<open>JSON.stringify\<close>.  The text of a finite number is the platform's: \<open>numtext\<close> is a
  parameter.  Values are trees, so the cycle checks of the code never fire, and every object is
  a plain one.
\<close>

section \<open>JSON.stringify\<close>

definition hex_digit :: "nat \<Rightarrow> nat" where
  "hex_digit n = (if n < 10 then 48 + n else 87 + n)"

definition unicode_escape :: "nat \<Rightarrow> jstr" where
  "unicode_escape c = [92, 117, hex_digit (c div 4096 mod 16), hex_digit (c div 256 mod 16),
     hex_digit (c div 16 mod 16), hex_digit (c mod 16)]"

definition is_high :: "nat \<Rightarrow> bool" where
  "is_high c \<longleftrightarrow> 0xd800 \<le> c \<and> c \<le> 0xdbff"

definition is_low :: "nat \<Rightarrow> bool" where
  "is_low c \<longleftrightarrow> 0xdc00 \<le> c \<and> c \<le> 0xdfff"

text \<open>The text of one code unit, outside of a surrogate pair.\<close>

definition quote_unit :: "nat \<Rightarrow> jstr" where
  "quote_unit c =
     (if c = 0x22 then [92, 0x22] else if c = 0x5c then [92, 0x5c]
      else if c = 0x08 then [92, 98] else if c = 0x09 then [92, 116]
      else if c = 0x0a then [92, 110] else if c = 0x0c then [92, 102]
      else if c = 0x0d then [92, 114]
      else if c \<le> 0x1f \<or> is_high c \<or> is_low c then unicode_escape c else [c])"

fun quote_units :: "jstr \<Rightarrow> jstr" where
  "quote_units [] = []"
| "quote_units (c # rest) =
     (if is_high c
      then (case rest of
          d # rest' \<Rightarrow> if is_low d then c # d # quote_units rest' else quote_unit c @ quote_units rest
        | [] \<Rightarrow> quote_unit c)
      else quote_unit c @ quote_units rest)"

definition json_quote :: "jstr \<Rightarrow> jstr" where
  "json_quote s = 34 # quote_units s @ [34]"

fun join_commas :: "jstr list \<Rightarrow> jstr" where
  "join_commas [] = []"
| "join_commas [t] = t"
| "join_commas (t # u # ts) = t @ 44 # join_commas (u # ts)"

definition member_text :: "jstr \<times> jstr \<Rightarrow> jstr" where
  "member_text m = json_quote (fst m) @ 58 # snd m"

primrec stringify :: "(rat \<Rightarrow> jstr) \<Rightarrow> jsval \<Rightarrow> jstr" where
  "stringify numtext Undefined = []"
| "stringify numtext Null = js ''null''"
| "stringify numtext (Boolean b) = (if b then js ''true'' else js ''false'')"
| "stringify numtext (Number n) = (if is_finite n then numtext (fin_val n) else js ''null'')"
| "stringify numtext (Text s) = json_quote s"
| "stringify numtext (Array items) = 91 # join_commas (map (stringify numtext) items) @ [93]"
| "stringify numtext (Object members) =
     123 # join_commas (map member_text (map (map_prod id (stringify numtext)) members)) @ [125]"
| "stringify numtext Opaque = []"

text \<open>The values that are JSON: no undefined or opaque part, and finite numbers.\<close>

primrec is_json :: "jsval \<Rightarrow> bool" where
  "is_json Undefined = False"
| "is_json Null = True"
| "is_json (Boolean b) = True"
| "is_json (Number n) = is_finite n"
| "is_json (Text s) = True"
| "is_json (Array items) = list_all id (map is_json items)"
| "is_json (Object members) = list_all snd (map (map_prod id is_json) members)"
| "is_json Opaque = False"

lemma is_json_parts [simp]:
  "is_json (Array items) \<longleftrightarrow> (\<forall>v \<in> set items. is_json v)"
  "is_json (Object members) \<longleftrightarrow> (\<forall>m \<in> set members. is_json (snd m))"
  by (auto simp: list_all_iff map_prod_def)

declare is_json.simps(6,7) [simp del]

section \<open>Bytes of a text\<close>

text \<open>\<open>Buffer.byteLength\<close> in UTF-8; an unpaired surrogate is encoded as U+FFFD.\<close>

fun utf8_length :: "jstr \<Rightarrow> nat" where
  "utf8_length [] = 0"
| "utf8_length (c # rest) =
     (if is_high c
      then (case rest of
          d # rest' \<Rightarrow> if is_low d then 4 + utf8_length rest' else 3 + utf8_length rest
        | [] \<Rightarrow> 3)
      else (if c \<le> 0x7f then 1 else if c \<le> 0x7ff then 2 else 3) + utf8_length rest)"

section \<open>measureJsonBytes\<close>

definition DEFAULT_VALIDATION_MAX_DEPTH :: nat where
  "DEFAULT_VALIDATION_MAX_DEPTH = 128"

definition DEFAULT_VALIDATION_MAX_NODES :: nat where
  "DEFAULT_VALIDATION_MAX_NODES = 200000"

datatype measure_result = Measured nat | Too_large nat | Unmeasurable jstr jstr

record measure_context =
  mc_maxBytes :: nat
  mc_maxDepth :: nat
  mc_maxNodes :: nat
  mc_numtext :: "rat \<Rightarrow> jstr"

definition addMeasuredBytes :: "measure_context \<Rightarrow> nat \<Rightarrow> nat \<Rightarrow> measure_result" where
  "addMeasuredBytes ctx current additional =
     (let total = current + additional
      in if \<not> is_safe_integer (Fin (of_nat total)) \<or> total > mc_maxBytes ctx
         then Too_large total else Measured total)"

fun decimal :: "nat \<Rightarrow> jstr" where
  "decimal n = (if n < 10 then [48 + n] else decimal (n div 10) @ [48 + n mod 10])"

declare decimal.simps [simp del]

text \<open>Each function also returns the number of nodes visited so far.\<close>

function measure_json :: "measure_context \<Rightarrow> jsval \<Rightarrow> jstr \<Rightarrow> nat \<Rightarrow> nat \<Rightarrow> measure_result \<times> nat"
  and measure_items ::
    "measure_context \<Rightarrow> jsval list \<Rightarrow> nat \<Rightarrow> nat \<Rightarrow> jstr \<Rightarrow> nat \<Rightarrow> nat \<Rightarrow> measure_result \<times> nat"
  and measure_members ::
    "measure_context \<Rightarrow> (jstr \<times> jsval) list \<Rightarrow> nat \<Rightarrow> jstr \<Rightarrow> nat \<Rightarrow> nat \<Rightarrow> measure_result \<times> nat" where
  "measure_json ctx candidate path depth visited =
     (let nodes = Suc visited
      in if nodes > mc_maxNodes ctx then (Too_large (mc_maxBytes ctx + 1), nodes)
         else if depth > mc_maxDepth ctx
         then (Unmeasurable path (js ''maximum JSON nesting depth exceeded''), nodes)
         else case candidate of
           Null \<Rightarrow> (addMeasuredBytes ctx 0 4, nodes)
         | Text s \<Rightarrow> (addMeasuredBytes ctx 0 (jsonStringByteLength s), nodes)
         | Boolean b \<Rightarrow> (addMeasuredBytes ctx 0 (if b then 4 else 5), nodes)
         | Number n \<Rightarrow>
             if \<not> is_finite n then (Unmeasurable path (js ''JSON numbers must be finite''), nodes)
             else (addMeasuredBytes ctx 0 (utf8_length (mc_numtext ctx (fin_val n))), nodes)
         | Array items \<Rightarrow>
             (case measure_items ctx items 0 2 path depth nodes of
                (Measured bytes, n) \<Rightarrow> (addMeasuredBytes ctx 0 bytes, n)
              | failed \<Rightarrow> failed)
         | Object members \<Rightarrow>
             (case measure_members ctx members 2 path depth nodes of
                (Measured bytes, n) \<Rightarrow> (addMeasuredBytes ctx 0 bytes, n)
              | failed \<Rightarrow> failed)
         | _ \<Rightarrow> (Unmeasurable path (js ''value is not JSON serializable''), nodes))"
| "measure_items ctx [] index bytes path depth visited = (Measured bytes, visited)"
| "measure_items ctx (item # items) index bytes path depth visited =
     (case measure_json ctx item (path @ 91 # decimal index @ [93]) (depth + 1) visited of
        (Measured child, nodes) \<Rightarrow>
          (case addMeasuredBytes ctx bytes child of
             Measured added \<Rightarrow>
               if items = [] then (Measured added, nodes)
               else (case addMeasuredBytes ctx added 1 of
                   Measured comma \<Rightarrow> measure_items ctx items (Suc index) comma path depth nodes
                 | failed \<Rightarrow> (failed, nodes))
           | failed \<Rightarrow> (failed, nodes))
      | failed \<Rightarrow> failed)"
| "measure_members ctx [] bytes path depth visited = (Measured bytes, visited)"
| "measure_members ctx ((key, item) # members) bytes path depth visited =
     (case measure_json ctx item (path @ 46 # key) (depth + 1) visited of
        (Measured child, nodes) \<Rightarrow>
          (case addMeasuredBytes ctx bytes (jsonStringByteLength key) of
             Measured keyBytes \<Rightarrow>
               (case addMeasuredBytes ctx keyBytes 1 of
                  Measured colon \<Rightarrow>
                    (case addMeasuredBytes ctx colon child of
                       Measured valueBytes \<Rightarrow>
                         if members = [] then (Measured valueBytes, nodes)
                         else (case addMeasuredBytes ctx valueBytes 1 of
                             Measured comma \<Rightarrow> measure_members ctx members comma path depth nodes
                           | failed \<Rightarrow> (failed, nodes))
                     | failed \<Rightarrow> (failed, nodes))
                | failed \<Rightarrow> (failed, nodes))
           | failed \<Rightarrow> (failed, nodes))
      | failed \<Rightarrow> failed)"
  by pat_completeness auto
termination
  by (relation "measure (case_sum (\<lambda>(c, v, p, d, n). size v)
        (case_sum (\<lambda>(c, xs, i, b, p, d, n). size_list size xs)
                  (\<lambda>(c, ms, b, p, d, n). size_list (size_prod (\<lambda>_. 0) size) ms)))")
     auto

declare measure_json.simps [simp del]

section \<open>canonicalizeJson\<close>

lemma size_list_sort_key [termination_simp]: "size_list f (sort_key g xs) = size_list f xs"
proof -
  have "size_list f (insort_key g x ys) = Suc (f x + size_list f ys)" for x ys
    by (induction ys) auto
  then show ?thesis by (induction xs) auto
qed

text \<open>
  The members are visited in the order of their keys, which the code sorts by code units; the
  keys of an object are distinct.
\<close>

function canonicalizeValue :: "(rat \<Rightarrow> jstr) \<Rightarrow> jsval \<Rightarrow> js_exn + jstr"
  and canonicalizeItems :: "(rat \<Rightarrow> jstr) \<Rightarrow> jsval list \<Rightarrow> js_exn + jstr list"
  and canonicalizeMembers :: "(rat \<Rightarrow> jstr) \<Rightarrow> (jstr \<times> jsval) list \<Rightarrow> js_exn + jstr list" where
  "canonicalizeValue numtext value =
     (case value of
        Null \<Rightarrow> Inr (js ''null'')
      | Text s \<Rightarrow> Inr (json_quote s)
      | Boolean b \<Rightarrow> Inr (if b then js ''true'' else js ''false'')
      | Number n \<Rightarrow>
          if \<not> is_finite n then Inl (TypeErrorExn ''canonical JSON numbers must be finite'')
          else Inr (numtext (fin_val n))
      | Array items \<Rightarrow>
          (case canonicalizeItems numtext items of
             Inl x \<Rightarrow> Inl x
           | Inr texts \<Rightarrow> Inr (91 # join_commas texts @ [93]))
      | Object members \<Rightarrow>
          (case canonicalizeMembers numtext (sort_key fst members) of
             Inl x \<Rightarrow> Inl x
           | Inr texts \<Rightarrow> Inr (123 # join_commas texts @ [125]))
      | _ \<Rightarrow> Inl (TypeErrorExn ''value is not canonical JSON''))"
| "canonicalizeItems numtext [] = Inr []"
| "canonicalizeItems numtext (item # items) =
     (case canonicalizeValue numtext item of
        Inl x \<Rightarrow> Inl x
      | Inr text \<Rightarrow>
          (case canonicalizeItems numtext items of
             Inl x \<Rightarrow> Inl x
           | Inr texts \<Rightarrow> Inr (text # texts)))"
| "canonicalizeMembers numtext [] = Inr []"
| "canonicalizeMembers numtext ((key, item) # members) =
     (case canonicalizeValue numtext item of
        Inl x \<Rightarrow> Inl x
      | Inr text \<Rightarrow>
          (case canonicalizeMembers numtext members of
             Inl x \<Rightarrow> Inl x
           | Inr texts \<Rightarrow> Inr (member_text (key, text) # texts)))"
  by pat_completeness auto
termination
  by (relation "measure (case_sum (\<lambda>(f, v). size v)
        (case_sum (\<lambda>(f, xs). size_list size xs)
                  (\<lambda>(f, ms). size_list (size_prod (\<lambda>_. 0) size) ms)))")
     (auto simp: size_list_sort_key)

declare canonicalizeValue.simps [simp del]

definition canonicalizeJson :: "(rat \<Rightarrow> jstr) \<Rightarrow> jsval \<Rightarrow> js_exn + jstr" where
  "canonicalizeJson numtext value = canonicalizeValue numtext value"

section \<open>The canonical text is the text of the sorted value\<close>

primrec json_norm :: "jsval \<Rightarrow> jsval" where
  "json_norm Undefined = Undefined"
| "json_norm Null = Null"
| "json_norm (Boolean b) = Boolean b"
| "json_norm (Number n) = Number n"
| "json_norm (Text s) = Text s"
| "json_norm (Array items) = Array (map json_norm items)"
| "json_norm (Object members) = Object (sort_key fst (map (map_prod id json_norm) members))"
| "json_norm Opaque = Opaque"

lemma insort_key_map_prod:
  "insort_key fst (map_prod id f m) (map (map_prod id f) xs) = map (map_prod id f) (insort_key fst m xs)"
  by (induction xs) auto

lemma sort_key_map_prod: "sort_key fst (map (map_prod id f) ms) = map (map_prod id f) (sort_key fst ms)"
  by (induction ms) (simp_all add: insort_key_map_prod [unfolded id_def] id_def del: map_prod_simp)

lemma map_prod_fst_snd: "map_prod f g m = (f (fst m), g (snd m))"
  by (cases m) simp

lemma is_json_norm [simp]: "is_json (json_norm v) = is_json v"
  by (induction v) (auto simp: sort_key_map_prod)

lemma canonical_text:
  "is_json v \<Longrightarrow> canonicalizeValue numtext v = Inr (stringify numtext (json_norm v))"
  "\<forall>v \<in> set items. is_json v \<Longrightarrow>
     canonicalizeItems numtext items = Inr (map (\<lambda>v. stringify numtext (json_norm v)) items)"
  "\<forall>m \<in> set members. is_json (snd m) \<Longrightarrow> canonicalizeMembers numtext members =
     Inr (map (\<lambda>m. member_text (fst m, stringify numtext (json_norm (snd m)))) members)"
proof (induction numtext v and numtext items and numtext members
    rule: canonicalizeValue_canonicalizeItems_canonicalizeMembers.induct)
  case (1 numtext v)
  show ?case
  proof (cases v)
    case (Object members)
    then show ?thesis using 1
      by (simp add: canonicalizeValue.simps sort_key_map_prod comp_def map_prod_fst_snd)
  qed (use 1 in \<open>auto simp: canonicalizeValue.simps comp_def\<close>)
qed auto

lemma canonical_error: "\<not> is_json v \<Longrightarrow> \<exists>x. canonicalizeValue numtext v = Inl x"
  "\<exists>v \<in> set items. \<not> is_json v \<Longrightarrow> \<exists>x. canonicalizeItems numtext items = Inl x"
  "\<exists>m \<in> set members. \<not> is_json (snd m) \<Longrightarrow> \<exists>x. canonicalizeMembers numtext members = Inl x"
proof (induction numtext v and numtext items and numtext members
    rule: canonicalizeValue_canonicalizeItems_canonicalizeMembers.induct)
  case (1 numtext v)
  show ?case
    using 1 by (cases v) (auto simp: canonicalizeValue.simps)
next
  case (3 numtext item items)
  then show ?case by (cases "is_json item") (auto split: sum.split)
next
  case (5 numtext key item members)
  then show ?case by (cases "is_json item") (auto split: sum.split)
qed auto

section \<open>The measured bytes are the bytes of the text\<close>

text \<open>Documented form of the text of a number: digits, signs, a point and an exponent.\<close>

definition is_number_char :: "nat \<Rightarrow> bool" where
  "is_number_char c \<longleftrightarrow> (48 \<le> c \<and> c \<le> 57) \<or> c = 43 \<or> c = 45 \<or> c = 46 \<or> c = 101"

definition number_texts :: "(rat \<Rightarrow> jstr) \<Rightarrow> bool" where
  "number_texts numtext \<longleftrightarrow>
     inj numtext \<and> (\<forall>q. numtext q \<noteq> [] \<and> (\<forall>c \<in> set (numtext q). is_number_char c))"

definition unit_width :: "nat \<Rightarrow> nat" where
  "unit_width c = (if c \<le> 0x7f then 1 else if c \<le> 0x7ff then 2 else 3)"

lemma utf8_simps [simp]:
  "\<not> is_high c \<Longrightarrow> utf8_length (c # r) = unit_width c + utf8_length r"
  "is_high c \<Longrightarrow> is_low d \<Longrightarrow> utf8_length (c # d # r) = 4 + utf8_length r"
  "is_high c \<Longrightarrow> \<not> is_low d \<Longrightarrow> utf8_length (c # d # r) = 3 + utf8_length (d # r)"
  "is_high c \<Longrightarrow> utf8_length [c] = 3"
  by (simp_all add: unit_width_def)

declare utf8_length.simps(2) [simp del]

lemma utf8_append:
  "a = [] \<or> \<not> is_high (last a) \<Longrightarrow> utf8_length (a @ b) = utf8_length a + utf8_length b"
proof (induction a rule: utf8_length.induct)
  case (2 c rest)
  show ?case
  proof (cases "is_high c")
    case True
    then obtain d rest' where r: "rest = d # rest'" using 2(4) by (cases rest) auto
    show ?thesis
    proof (cases "is_low d")
      case low: True
      then have "rest' = [] \<or> \<not> is_high (last rest')" using 2(4) r by auto
      then show ?thesis using 2(1) [OF True r low] low True r by simp
    next
      case False
      then show ?thesis using 2(2) [OF True r False] 2(4) True r by simp
    qed
  next
    case False
    then show ?thesis using 2(3) 2(4) by (cases rest) auto
  qed
qed simp

lemma not_high_ascii [simp]: "c < 0xd800 \<Longrightarrow> \<not> is_high c"
  by (simp add: is_high_def)

lemma ascii_width [simp]: "c \<le> 0x7f \<Longrightarrow> unit_width c = 1"
  by (simp add: unit_width_def)

lemma hex_digit_ascii [simp]: "hex_digit (n mod 16) \<le> 0x7f" "\<not> is_high (hex_digit (n mod 16))"
proof -
  have "n mod 16 < 16" by simp
  then show "hex_digit (n mod 16) \<le> 0x7f" "\<not> is_high (hex_digit (n mod 16))"
    unfolding hex_digit_def is_high_def by auto
qed

lemma utf8_escape: "utf8_length (unicode_escape c @ s) = 6 + utf8_length s"
  by (simp add: unicode_escape_def)

lemma utf8_quote_lone:
  "is_high c \<or> is_low c \<Longrightarrow> utf8_length (quote_unit c @ s) = 6 + utf8_length s"
proof -
  assume c: "is_high c \<or> is_low c"
  then have "quote_unit c = unicode_escape c"
    by (auto simp: quote_unit_def is_high_def is_low_def)
  then show ?thesis by (simp add: utf8_escape)
qed

lemma utf8_quote_unit:
  assumes "\<not> is_high c" "\<not> is_low c"
  shows "utf8_length (quote_unit c @ s) =
     (if c \<in> {0x22, 0x5c, 0x08, 0x09, 0x0a, 0x0c, 0x0d} then 2 else if c \<le> 0x1f then 6
      else if c \<le> 0x7f then 1 else if c \<le> 0x7ff then 2 else 3) + utf8_length s"
  using assms by (simp add: quote_unit_def utf8_escape unit_width_def)

lemma json_unit_bytes_quote: "utf8_length (quote_units s @ [34]) = Suc (json_unit_bytes s)"
proof (induction s rule: quote_units.induct)
  case (2 c rest)
  show ?case
  proof (cases "is_high c")
    case True
    then have c: "c \<notin> {0x22, 0x5c, 0x08, 0x09, 0x0a, 0x0c, 0x0d}" "\<not> c \<le> 0x1f" "0xd800 \<le> c" "c \<le> 0xdbff"
      by (auto simp: is_high_def)
    show ?thesis
    proof (cases rest)
      case Nil
      then show ?thesis using True c utf8_quote_lone [of c "[34]"] by simp
    next
      case (Cons d rest')
      show ?thesis
      proof (cases "is_low d")
        case True
        then show ?thesis using 2 Cons c \<open>is_high c\<close> by (auto simp: is_low_def)
      next
        case False
        then have "\<not> (0xdc00 \<le> d \<and> d \<le> 0xdfff)" by (simp add: is_low_def)
        then show ?thesis using 2 Cons c \<open>is_high c\<close> False utf8_quote_lone [of c] by simp
      qed
    qed
  next
    case high: False
    show ?thesis
    proof (cases "is_low c")
      case True
      then have c: "c \<notin> {0x22, 0x5c, 0x08, 0x09, 0x0a, 0x0c, 0x0d}" "\<not> c \<le> 0x1f"
        "\<not> (0xd800 \<le> c \<and> c \<le> 0xdbff)" "0xdc00 \<le> c" "c \<le> 0xdfff"
        by (auto simp: is_low_def)
      have "json_unit_bytes (c # rest) = 6 + json_unit_bytes rest"
        using c by (simp del: insert_iff)
      then show ?thesis using 2 high True utf8_quote_lone [of c] by simp
    next
      case False
      then have c: "\<not> (0xd800 \<le> c \<and> c \<le> 0xdbff)" "\<not> (0xdc00 \<le> c \<and> c \<le> 0xdfff)"
        using high by (auto simp: is_low_def is_high_def)
      show ?thesis using 2 high False c utf8_quote_unit [of c] by (simp del: insert_iff) auto
    qed
  qed
qed simp

lemma utf8_json_quote: "utf8_length (json_quote s) = jsonStringByteLength s"
  using json_unit_bytes_quote [of s] by (simp add: json_quote_def jsonStringByteLength_def)

lemma number_text_ascii:
  assumes "number_texts numtext" and "c \<in> set (numtext q)"
  shows "c \<le> 0x7f" "\<not> is_high c"
proof -
  have "is_number_char c" using assms by (auto simp: number_texts_def)
  then show "c \<le> 0x7f" by (auto simp: is_number_char_def)
  then show "\<not> is_high c" by (simp add: is_high_def)
qed

text \<open>A JSON text is never empty and never ends in a high surrogate.\<close>

lemma stringify_ends:
  assumes "number_texts numtext" "is_json v"
  shows "stringify numtext v \<noteq> []" "\<not> is_high (last (stringify numtext v))"
proof -
  have num: "numtext q \<noteq> []" "\<not> is_high (last (numtext q))" for q
  proof -
    show "numtext q \<noteq> []" using assms(1) by (simp add: number_texts_def)
    then show "\<not> is_high (last (numtext q))"
      using number_text_ascii [OF assms(1)] last_in_set by blast
  qed
  show "stringify numtext v \<noteq> []"
    using assms(2) num by (cases v) (auto simp: js_def json_quote_def)
  show "\<not> is_high (last (stringify numtext v))"
    using assms(2) num by (cases v) (auto simp: js_def json_quote_def is_high_def)
qed

lemma utf8_stringify_append:
  "number_texts numtext \<Longrightarrow> is_json v \<Longrightarrow>
   utf8_length (stringify numtext v @ s) = utf8_length (stringify numtext v) + utf8_length s"
  using utf8_append stringify_ends by blast

lemma utf8_quote_append: "utf8_length (json_quote s @ r) = jsonStringByteLength s + utf8_length r"
  using utf8_append [of "json_quote s" r] utf8_json_quote [of s] by (simp add: json_quote_def)

lemma utf8_join:
  "(\<forall>t \<in> set ts. t = [] \<or> \<not> is_high (last t)) \<Longrightarrow>
   utf8_length (join_commas ts @ [c]) = (if is_high c then 3 else unit_width c) +
     sum_list (map utf8_length ts) + (length ts - 1)"
proof (induction ts rule: join_commas.induct)
  case (2 t)
  then show ?case using utf8_append [of t "[c]"] by auto
next
  case (3 t u ts)
  then show ?case using utf8_append [of t "44 # join_commas (u # ts) @ [c]"] by auto
qed auto

text \<open>What a value costs: its nodes and its depth.\<close>

primrec node_count :: "jsval \<Rightarrow> nat" where
  "node_count Undefined = 1"
| "node_count Null = 1"
| "node_count (Boolean b) = 1"
| "node_count (Number n) = 1"
| "node_count (Text s) = 1"
| "node_count (Array items) = Suc (sum_list (map node_count items))"
| "node_count (Object members) = Suc (sum_list (map snd (map (map_prod id node_count) members)))"
| "node_count Opaque = 1"

primrec json_depth :: "jsval \<Rightarrow> nat" where
  "json_depth Undefined = 0"
| "json_depth Null = 0"
| "json_depth (Boolean b) = 0"
| "json_depth (Number n) = 0"
| "json_depth (Text s) = 0"
| "json_depth (Array items) = fold max (map (\<lambda>v. Suc v) (map json_depth items)) 0"
| "json_depth (Object members) = fold max (map (\<lambda>m. Suc (snd m)) (map (map_prod id json_depth) members)) 0"
| "json_depth Opaque = 0"

lemma fold_max_le: "fold max xs (a :: nat) \<le> b \<longleftrightarrow> a \<le> b \<and> (\<forall>x \<in> set xs. x \<le> b)"
  by (induction xs arbitrary: a) auto

lemma depth_parts:
  "d + json_depth (Array items) \<le> b \<longleftrightarrow> d \<le> b \<and> (\<forall>v \<in> set items. Suc d + json_depth v \<le> b)"
  "d + json_depth (Object members) \<le> b \<longleftrightarrow> d \<le> b \<and> (\<forall>m \<in> set members. Suc d + json_depth (snd m) \<le> b)"
proof -
  have le: "d + n \<le> b \<longleftrightarrow> d \<le> b \<and> n \<le> b - d" for n by auto
  show "d + json_depth (Array items) \<le> b \<longleftrightarrow> d \<le> b \<and> (\<forall>v \<in> set items. Suc d + json_depth v \<le> b)"
    unfolding le by (auto simp: fold_max_le)
  show "d + json_depth (Object members) \<le> b \<longleftrightarrow> d \<le> b \<and> (\<forall>m \<in> set members. Suc d + json_depth (snd m) \<le> b)"
    unfolding le by (auto simp: fold_max_le)
qed

lemma node_count_object [simp]:
  "node_count (Object members) = Suc (sum_list (map (\<lambda>m. node_count (snd m)) members))"
  by (simp add: comp_def map_prod_fst_snd)

declare node_count.simps(7) [simp del] json_depth.simps(6,7) [simp del]

definition text_size :: "measure_context \<Rightarrow> jsval \<Rightarrow> nat" where
  "text_size ctx v = utf8_length (stringify (mc_numtext ctx) v)"

lemma text_size_array:
  assumes "number_texts (mc_numtext ctx)" "\<forall>v \<in> set items. is_json v"
  shows "text_size ctx (Array items) = 2 + sum_list (map (text_size ctx) items) + (length items - 1)"
  using assms stringify_ends [OF assms(1)] unfolding text_size_def
  by (simp add: utf8_join comp_def)

lemma text_size_object:
  assumes "number_texts (mc_numtext ctx)" "\<forall>m \<in> set members. is_json (snd m)"
  shows "text_size ctx (Object members) = 2 +
     sum_list (map (\<lambda>m. jsonStringByteLength (fst m) + 1 + text_size ctx (snd m)) members) +
     (length members - 1)"
proof -
  have ends: "t = [] \<or> \<not> is_high (last t)"
    if "t \<in> set (map member_text (map (map_prod id (stringify (mc_numtext ctx))) members))" for t
    using that stringify_ends [OF assms(1)] assms(2) by (force simp: member_text_def)
  have width: "utf8_length (member_text (map_prod id (stringify (mc_numtext ctx)) m)) =
      jsonStringByteLength (fst m) + 1 + text_size ctx (snd m)" for m
    by (simp add: member_text_def utf8_quote_append text_size_def)
  have "\<forall>t \<in> set (map member_text (map (map_prod id (stringify (mc_numtext ctx))) members)).
      t = [] \<or> \<not> is_high (last t)"
    using ends by blast
  from utf8_join [where c = 125, OF this] show ?thesis
    unfolding text_size_def [of ctx "Object members"] stringify.simps
    by (simp add: width comp_def)
qed

lemma addMeasuredBytes_ok:
  assumes "of_nat (mc_maxBytes ctx) \<le> max_safe_integer"
  shows "addMeasuredBytes ctx a b = Measured c \<longleftrightarrow> c = a + b \<and> c \<le> mc_maxBytes ctx"
proof -
  have "is_safe_integer (Fin (of_nat (a + b)))" if "a + b \<le> mc_maxBytes ctx"
  proof -
    have "(of_nat (a + b) :: rat) \<le> of_nat (mc_maxBytes ctx)" using that of_nat_le_iff by blast
    then show ?thesis using assms by simp
  qed
  then show ?thesis by (auto simp: addMeasuredBytes_def Let_def)
qed

lemma measured_split:
  "(case r of Measured c \<Rightarrow> k c | failed \<Rightarrow> (failed, n)) = (Measured b, m) \<longleftrightarrow>
   (\<exists>c. r = Measured c \<and> k c = (Measured b, m))"
  "(case p of (Measured c, n) \<Rightarrow> h c n | failed \<Rightarrow> failed) = (Measured b, m) \<longleftrightarrow>
   (\<exists>c n. p = (Measured c, n) \<and> h c n = (Measured b, m))"
  by (cases r; simp) (cases p; cases "fst p"; auto)

text \<open>The measurement succeeds exactly on the values below, and with exactly this number.\<close>

lemma measure_spec:
  assumes num: "number_texts (mc_numtext ctx)" and cap: "of_nat (mc_maxBytes ctx) \<le> max_safe_integer"
  shows "measure_json ctx v path d n = (Measured b, m) \<longleftrightarrow>
      is_json v \<and> m = n + node_count v \<and> m \<le> mc_maxNodes ctx \<and>
      d + json_depth v \<le> mc_maxDepth ctx \<and> b = text_size ctx v \<and> b \<le> mc_maxBytes ctx"
    and "measure_items ctx items i b0 path d n = (Measured b, m) \<longleftrightarrow>
      (\<forall>v \<in> set items. is_json v) \<and> m = n + sum_list (map node_count items) \<and>
      (items \<noteq> [] \<longrightarrow> m \<le> mc_maxNodes ctx) \<and>
      (\<forall>v \<in> set items. Suc d + json_depth v \<le> mc_maxDepth ctx) \<and>
      b = b0 + sum_list (map (text_size ctx) items) + (length items - 1) \<and>
      (items \<noteq> [] \<longrightarrow> b \<le> mc_maxBytes ctx)"
    and "measure_members ctx members b0 path d n = (Measured b, m) \<longleftrightarrow>
      (\<forall>v \<in> set members. is_json (snd v)) \<and> m = n + sum_list (map (\<lambda>v. node_count (snd v)) members) \<and>
      (members \<noteq> [] \<longrightarrow> m \<le> mc_maxNodes ctx) \<and>
      (\<forall>v \<in> set members. Suc d + json_depth (snd v) \<le> mc_maxDepth ctx) \<and>
      b = b0 + sum_list (map (\<lambda>m. jsonStringByteLength (fst m) + 1 + text_size ctx (snd m)) members)
        + (length members - 1) \<and>
      (members \<noteq> [] \<longrightarrow> b \<le> mc_maxBytes ctx)"
  using num cap
proof (induction ctx v path d n and ctx items i b0 path d n and ctx members b0 path d n
    arbitrary: b m and b m and b m
    rule: measure_json_measure_items_measure_members.induct)
  case (1 ctx v path d n)
  note add = addMeasuredBytes_ok [OF 1(4)]
  show ?case
  proof (cases v)
    case (Array items)
    have parts: "measure_items ctx items 0 2 path d (Suc n) = (Measured c, k) \<longleftrightarrow>
        (\<forall>v \<in> set items. is_json v) \<and> k = Suc n + sum_list (map node_count items) \<and>
        (items \<noteq> [] \<longrightarrow> k \<le> mc_maxNodes ctx) \<and>
        (\<forall>v \<in> set items. Suc d + json_depth v \<le> mc_maxDepth ctx) \<and>
        c = 2 + sum_list (map (text_size ctx) items) + (length items - 1) \<and>
        (items \<noteq> [] \<longrightarrow> c \<le> mc_maxBytes ctx)"
      if "Suc n \<le> mc_maxNodes ctx" "d \<le> mc_maxDepth ctx" for c k
      using 1(1) [OF refl _ _ Array 1(3,4)] that by simp
    show ?thesis
    proof (cases "Suc n \<le> mc_maxNodes ctx \<and> d \<le> mc_maxDepth ctx")
      case False
      then show ?thesis unfolding Array by (auto simp: measure_json.simps depth_parts)
    next
      case True
      have "measure_json ctx v path d n = (Measured b, m) \<longleftrightarrow>
          (\<exists>c. measure_items ctx items 0 2 path d (Suc n) = (Measured c, m) \<and> b = c \<and> c \<le> mc_maxBytes ctx)"
        unfolding Array measure_json.simps Let_def jsval.case using True
        by (auto simp: measured_split add)
      then show ?thesis
        using True parts text_size_array [OF 1(3)] unfolding Array
        by (auto simp: depth_parts)
    qed
  next
    case (Object members)
    have parts: "measure_members ctx members 2 path d (Suc n) = (Measured c, k) \<longleftrightarrow>
        (\<forall>v \<in> set members. is_json (snd v)) \<and> k = Suc n + sum_list (map (\<lambda>v. node_count (snd v)) members) \<and>
        (members \<noteq> [] \<longrightarrow> k \<le> mc_maxNodes ctx) \<and>
        (\<forall>v \<in> set members. Suc d + json_depth (snd v) \<le> mc_maxDepth ctx) \<and>
        c = 2 + sum_list (map (\<lambda>m. jsonStringByteLength (fst m) + 1 + text_size ctx (snd m)) members)
          + (length members - 1) \<and>
        (members \<noteq> [] \<longrightarrow> c \<le> mc_maxBytes ctx)"
      if "Suc n \<le> mc_maxNodes ctx" "d \<le> mc_maxDepth ctx" for c k
      using 1(2) [OF refl _ _ Object 1(3,4)] that by simp
    show ?thesis
    proof (cases "Suc n \<le> mc_maxNodes ctx \<and> d \<le> mc_maxDepth ctx")
      case False
      then show ?thesis unfolding Object by (auto simp: measure_json.simps depth_parts)
    next
      case True
      have "measure_json ctx v path d n = (Measured b, m) \<longleftrightarrow>
          (\<exists>c. measure_members ctx members 2 path d (Suc n) = (Measured c, m) \<and> b = c \<and> c \<le> mc_maxBytes ctx)"
        unfolding Object measure_json.simps Let_def jsval.case using True
        by (auto simp: measured_split add)
      then show ?thesis
        using True parts text_size_object [OF 1(3)] unfolding Object
        by (auto simp: depth_parts)
    qed
  qed (use add in \<open>auto simp: measure_json.simps Let_def text_size_def utf8_json_quote js_def\<close>)
next
  case (3 ctx item items i b0 path d n)
  note add = addMeasuredBytes_ok [OF 3(4)]
  have first: "measure_json ctx item (path @ 91 # decimal i @ [93]) (Suc d) n = (Measured c, k) \<longleftrightarrow>
      is_json item \<and> k = n + node_count item \<and> k \<le> mc_maxNodes ctx \<and>
      Suc d + json_depth item \<le> mc_maxDepth ctx \<and> c = text_size ctx item \<and> c \<le> mc_maxBytes ctx" for c k
    using 3(1) [OF 3(3,4)] by simp
  show ?case
  proof (cases "items = []")
    case True
    then show ?thesis
      unfolding measure_items.simps by (auto simp: measured_split add first)
  next
    case False
    have IH: "measure_items ctx items (Suc i) b1 path d k = (Measured b, m) \<longleftrightarrow>
      (\<forall>v \<in> set items. is_json v) \<and> m = k + sum_list (map node_count items) \<and>
      m \<le> mc_maxNodes ctx \<and>
      (\<forall>v \<in> set items. Suc d + json_depth v \<le> mc_maxDepth ctx) \<and>
      b = b1 + sum_list (map (text_size ctx) items) + (length items - 1) \<and> b \<le> mc_maxBytes ctx"
      if "measure_json ctx item (path @ 91 # decimal i @ [93]) (Suc d) n = (Measured c, k)"
        "addMeasuredBytes ctx b0 c = Measured a" "addMeasuredBytes ctx a 1 = Measured b1" for c k a b1
      using 3(2) [OF _ refl that(2) False that(3) 3(3,4)] that(1) False by simp
    have "measure_items ctx (item # items) i b0 path d n = (Measured b, m) \<longleftrightarrow>
      (\<exists>c k a b1. measure_json ctx item (path @ 91 # decimal i @ [93]) (Suc d) n = (Measured c, k) \<and>
         addMeasuredBytes ctx b0 c = Measured a \<and> addMeasuredBytes ctx a 1 = Measured b1 \<and>
         measure_items ctx items (Suc i) b1 path d k = (Measured b, m))"
      unfolding measure_items.simps using False by (auto simp: measured_split)
    also have "\<dots> \<longleftrightarrow>
      (\<exists>c k a b1. measure_json ctx item (path @ 91 # decimal i @ [93]) (Suc d) n = (Measured c, k) \<and>
         addMeasuredBytes ctx b0 c = Measured a \<and> addMeasuredBytes ctx a 1 = Measured b1 \<and>
      (\<forall>v \<in> set items. is_json v) \<and> m = k + sum_list (map node_count items) \<and>
      m \<le> mc_maxNodes ctx \<and>
      (\<forall>v \<in> set items. Suc d + json_depth v \<le> mc_maxDepth ctx) \<and>
      b = b1 + sum_list (map (text_size ctx) items) + (length items - 1) \<and> b \<le> mc_maxBytes ctx)"
      using IH by blast
    finally show ?thesis
      using False by (cases items) (auto simp: add first simp del: measure_items.simps(2))
  qed
next
  case (5 ctx key item members b0 path d n)
  note add = addMeasuredBytes_ok [OF 5(4)]
  have first: "measure_json ctx item (path @ 46 # key) (Suc d) n = (Measured c, k) \<longleftrightarrow>
      is_json item \<and> k = n + node_count item \<and> k \<le> mc_maxNodes ctx \<and>
      Suc d + json_depth item \<le> mc_maxDepth ctx \<and> c = text_size ctx item \<and> c \<le> mc_maxBytes ctx" for c k
    using 5(1) [OF 5(3,4)] by simp
  show ?case
  proof (cases "members = []")
    case True
    then show ?thesis
      unfolding measure_members.simps by (auto simp: measured_split add first)
  next
    case False
    have IH: "measure_members ctx members b1 path d k = (Measured b, m) \<longleftrightarrow>
      (\<forall>v \<in> set members. is_json (snd v)) \<and> m = k + sum_list (map (\<lambda>v. node_count (snd v)) members) \<and>
      m \<le> mc_maxNodes ctx \<and>
      (\<forall>v \<in> set members. Suc d + json_depth (snd v) \<le> mc_maxDepth ctx) \<and>
      b = b1 + sum_list (map (\<lambda>m. jsonStringByteLength (fst m) + 1 + text_size ctx (snd m)) members)
        + (length members - 1) \<and> b \<le> mc_maxBytes ctx"
      if "measure_json ctx item (path @ 46 # key) (Suc d) n = (Measured c, k)"
        "addMeasuredBytes ctx b0 (jsonStringByteLength key) = Measured a"
        "addMeasuredBytes ctx a 1 = Measured a1" "addMeasuredBytes ctx a1 c = Measured a2"
        "addMeasuredBytes ctx a2 1 = Measured b1" for c k a a1 a2 b1
      using 5(2) [OF _ refl that(2-4) False that(5) 5(3,4)] that(1) False by simp
    have "measure_members ctx ((key, item) # members) b0 path d n = (Measured b, m) \<longleftrightarrow>
      (\<exists>c k a a1 a2 b1. measure_json ctx item (path @ 46 # key) (Suc d) n = (Measured c, k) \<and>
         addMeasuredBytes ctx b0 (jsonStringByteLength key) = Measured a \<and>
         addMeasuredBytes ctx a 1 = Measured a1 \<and> addMeasuredBytes ctx a1 c = Measured a2 \<and>
         addMeasuredBytes ctx a2 1 = Measured b1 \<and>
         measure_members ctx members b1 path d k = (Measured b, m))"
      unfolding measure_members.simps using False by (auto simp: measured_split)
    also have "\<dots> \<longleftrightarrow>
      (\<exists>c k a a1 a2 b1. measure_json ctx item (path @ 46 # key) (Suc d) n = (Measured c, k) \<and>
         addMeasuredBytes ctx b0 (jsonStringByteLength key) = Measured a \<and>
         addMeasuredBytes ctx a 1 = Measured a1 \<and> addMeasuredBytes ctx a1 c = Measured a2 \<and>
         addMeasuredBytes ctx a2 1 = Measured b1 \<and>
      (\<forall>v \<in> set members. is_json (snd v)) \<and> m = k + sum_list (map (\<lambda>v. node_count (snd v)) members) \<and>
      m \<le> mc_maxNodes ctx \<and>
      (\<forall>v \<in> set members. Suc d + json_depth (snd v) \<le> mc_maxDepth ctx) \<and>
      b = b1 + sum_list (map (\<lambda>m. jsonStringByteLength (fst m) + 1 + text_size ctx (snd m)) members)
        + (length members - 1) \<and> b \<le> mc_maxBytes ctx)"
      using IH by blast
    finally show ?thesis
      using False by (cases members) (auto simp: add first simp del: measure_members.simps(2))
  qed
qed auto

section \<open>A JSON text determines its value\<close>

text \<open>A reader of quoted texts, for the proof that quoting loses nothing.\<close>

definition hex_value :: "nat \<Rightarrow> nat" where
  "hex_value c = (if c < 58 then c - 48 else c - 87)"

definition unescape :: "nat \<Rightarrow> nat" where
  "unescape e = (if e = 98 then 8 else if e = 116 then 9 else if e = 110 then 10
     else if e = 102 then 12 else if e = 114 then 13 else e)"

definition read_cons :: "nat \<Rightarrow> (jstr \<times> jstr) option \<Rightarrow> (jstr \<times> jstr) option" where
  "read_cons c = map_option (\<lambda>(s, r). (c # s, r))"

fun unquote :: "jstr \<Rightarrow> (jstr \<times> jstr) option" where
  "unquote [] = None"
| "unquote (c # cs) =
     (if c = 34 then Some ([], cs)
      else if c = 92 then
        (case cs of
           [] \<Rightarrow> None
         | e # cs1 \<Rightarrow>
             if e = 117 then
               (case cs1 of
                  w # x # y # z # cs2 \<Rightarrow>
                    read_cons (((hex_value w * 16 + hex_value x) * 16 + hex_value y) * 16 + hex_value z) (unquote cs2)
                | _ \<Rightarrow> None)
             else read_cons (unescape e) (unquote cs1))
      else read_cons c (unquote cs))"

lemma hex_value_digit: "n < 16 \<Longrightarrow> hex_value (hex_digit n) = n"
  by (simp add: hex_value_def hex_digit_def)

lemma hex_value_escape: "c < 65536 \<Longrightarrow>
  ((hex_value (hex_digit (c div 4096 mod 16)) * 16 + hex_value (hex_digit (c div 256 mod 16))) * 16 +
    hex_value (hex_digit (c div 16 mod 16))) * 16 + hex_value (hex_digit (c mod 16)) = c"
proof -
  assume c: "c < 65536"
  define a b t where "a = c div 16" and "b = a div 16" and "t = b div 16"
  have q: "c div 256 = b" "c div 4096 = t" "c div 16 = a"
    by (simp_all add: a_def b_def t_def div_mult2_eq [symmetric])
  have "t < 16" using c by (simp add: a_def b_def t_def div_mult2_eq [symmetric])
  then have digits: "hex_value (hex_digit (t mod 16)) = t" by (simp add: hex_value_digit)
  have sums: "a * 16 + c mod 16 = c" "b * 16 + a mod 16 = a" "t * 16 + b mod 16 = b"
    by (simp_all add: a_def b_def t_def)
  have d: "hex_value (hex_digit (n mod 16)) = n mod 16" for n
    by (simp add: hex_value_digit)
  show ?thesis unfolding q d [of b] d [of a] d [of c] digits sums ..
qed

lemma unquote_raw: "c \<noteq> 34 \<Longrightarrow> c \<noteq> 92 \<Longrightarrow> unquote (c # t) = read_cons c (unquote t)"
  by simp

lemma unquote_escape: "c < 65536 \<Longrightarrow> unquote (unicode_escape c @ t) = read_cons c (unquote t)"
  using hex_value_escape [of c] by (simp add: unicode_escape_def)

lemma unquote_unit: "unquote (quote_unit c @ t) = read_cons c (unquote t)"
proof -
  have "c < 65536" if "c \<le> 0x1f \<or> is_high c \<or> is_low c"
    using that by (auto simp: is_high_def is_low_def)
  then show ?thesis
    by (auto simp: quote_unit_def unquote_escape unescape_def simp del: unquote.simps(2))
      (auto simp: unescape_def)
qed

declare unquote.simps(2) [simp del]

lemma unquote_end [simp]: "unquote (34 # r) = Some ([], r)"
  by (simp add: unquote.simps(2))

lemma unquote_quote: "unquote (quote_units s @ 34 # r) = Some (s, r)"
proof (induction s rule: quote_units.induct)
  case (2 c rest)
  show ?case
  proof (cases "is_high c")
    case True
    then have c: "c \<noteq> 34" "c \<noteq> 92" by (auto simp: is_high_def)
    show ?thesis
    proof (cases rest)
      case Nil
      then show ?thesis using True unquote_unit [of c "34 # r"] by (simp add: read_cons_def)
    next
      case (Cons d rest')
      show ?thesis
      proof (cases "is_low d")
        case low: True
        then have d: "d \<noteq> 34" "d \<noteq> 92" by (auto simp: is_low_def)
        show ?thesis using 2(1) [OF True Cons low] True Cons low c d
          by (simp add: read_cons_def unquote_raw)
      next
        case False
        then show ?thesis using 2(2) [OF True Cons False] True Cons unquote_unit [of c]
          by (simp add: read_cons_def)
      qed
    qed
  next
    case False
    then show ?thesis using 2(3) [OF False] unquote_unit [of c] by (simp add: read_cons_def)
  qed
qed simp

lemma json_quote_unique: "json_quote s @ r = json_quote s' @ r' \<Longrightarrow> s = s' \<and> r = r'"
proof -
  assume "json_quote s @ r = json_quote s' @ r'"
  then have "unquote (quote_units s @ 34 # r) = unquote (quote_units s' @ 34 # r')"
    by (simp only: json_quote_def append_Cons append_assoc append_Nil list.inject)
  then show ?thesis unfolding unquote_quote by simp
qed

text \<open>
  A text is followed by the end, a separator or a closing bracket, never by a character that
  could continue a number.  A value is readable when its text, so followed, is no other's.
\<close>

definition ends :: "jstr \<Rightarrow> bool" where
  "ends r \<longleftrightarrow> r = [] \<or> \<not> is_number_char (hd r)"

definition readable :: "('a \<Rightarrow> jstr) \<Rightarrow> ('a \<Rightarrow> bool) \<Rightarrow> 'a \<Rightarrow> bool" where
  "readable f V x \<longleftrightarrow>
     (\<forall>y r r'. V y \<and> ends r \<and> ends r' \<and> f x @ r = f y @ r' \<longrightarrow> x = y \<and> r = r')"

lemma readableD: "readable f V x \<Longrightarrow> V y \<Longrightarrow> f x @ r = f y @ r' \<Longrightarrow> ends r \<Longrightarrow> ends r' \<Longrightarrow> x = y \<and> r = r'"
  by (simp add: readable_def)

lemma ends_simps [simp]: "ends []" "ends (44 # r)" "ends (93 # r)" "ends (125 # r)" "ends (58 # r)"
  by (simp_all add: ends_def is_number_char_def)

lemma join_Cons: "join_commas (t # ts) = t @ (if ts = [] then [] else 44 # join_commas ts)"
  by (cases ts) auto

lemma join_readable:
  assumes "\<forall>x \<in> set xs. readable f V x" "\<forall>y \<in> set ys. V y"
    and start: "\<And>y. y \<in> set xs \<union> set ys \<Longrightarrow> f y \<noteq> [] \<and> hd (f y) \<noteq> e"
    and e: "e = 93 \<or> e = 125"
    and eq: "join_commas (map f xs) @ e # r = join_commas (map f ys) @ e # r'"
  shows "xs = ys \<and> r = r'"
  using assms(1,2) start eq
proof (induction xs arbitrary: ys)
  case Nil
  then show ?case
  proof (cases ys)
    case (Cons y ys')
    then have "f y \<noteq> []" "hd (f y) \<noteq> e" using Nil(3) by auto
    then show ?thesis using Nil(4) Cons by (cases "f y") (auto simp: join_Cons)
  qed simp
next
  case (Cons x xs)
  have x: "f x \<noteq> []" "hd (f x) \<noteq> e" using Cons(4) by auto
  show ?case
  proof (cases ys)
    case Nil
    then show ?thesis using Cons(5) x by (cases "f x") (auto simp: join_Cons)
  next
    case ys: (Cons y ys')
    let ?t = "(if xs = [] then [] else 44 # join_commas (map f xs)) @ e # r"
    let ?u = "(if ys' = [] then [] else 44 # join_commas (map f ys')) @ e # r'"
    have "f x @ ?t = f y @ ?u" using Cons(5) ys by (simp add: join_Cons)
    then have xy: "x = y" "?t = ?u"
      using readableD [of f V x y ?t ?u] Cons(2,3) ys e by auto
    show ?thesis
    proof (cases "xs = [] \<or> ys' = []")
      case True
      then show ?thesis using xy ys e by (auto split: if_splits)
    next
      case False
      then have "join_commas (map f xs) @ e # r = join_commas (map f ys') @ e # r'" using xy by simp
      then have "xs = ys' \<and> r = r'" using Cons(2-4) ys by (intro Cons.IH) auto
      then show ?thesis using xy ys by simp
    qed
  qed
qed

text \<open>The first character of a text tells the constructor of its value.\<close>

fun json_tag :: "jsval \<Rightarrow> nat" where
  "json_tag Null = 110"
| "json_tag (Boolean b) = (if b then 116 else 102)"
| "json_tag (Text s) = 34"
| "json_tag (Array items) = 91"
| "json_tag (Object members) = 123"
| "json_tag _ = 0"

lemma stringify_start:
  assumes "number_texts numtext" "is_json v"
  shows "json_tag v = (if is_number_char (hd (stringify numtext v)) then 0 else hd (stringify numtext v))"
proof -
  have num: "is_number_char (hd (numtext q))" for q
  proof -
    have "numtext q \<noteq> []" "\<forall>c \<in> set (numtext q). is_number_char c"
      using assms(1) by (auto simp: number_texts_def)
    then show ?thesis by simp
  qed
  then show ?thesis
    using assms(2) by (cases v) (auto simp: js_def json_quote_def is_number_char_def is_finite_iff)
qed

lemma same_tag:
  assumes "number_texts numtext" "is_json v" "is_json y"
    and "stringify numtext v @ r = stringify numtext y @ r'"
  shows "json_tag v = json_tag y"
proof -
  have "hd (stringify numtext v) = hd (stringify numtext y)"
    using stringify_ends(1) [OF assms(1,2)] stringify_ends(1) [OF assms(1,3)] assms(4)
    by (metis hd_append2)
  then show ?thesis using stringify_start [OF assms(1)] assms(2,3) by simp
qed

lemma number_readable:
  assumes num: "number_texts numtext" and eq: "numtext q @ r = numtext q' @ r'" and "ends r" "ends r'"
  shows "q = q' \<and> r = r'"
proof -
  have "takeWhile is_number_char (numtext p @ t) = numtext p \<and> dropWhile is_number_char (numtext p @ t) = t"
    if "ends t" for p t
    using num that by (cases t) (auto simp: number_texts_def ends_def)
  then have "numtext q = numtext q'" "r = r'" using eq assms(3,4) by metis+
  then show ?thesis using num by (auto simp: number_texts_def dest: injD)
qed

lemma readableI:
  assumes "\<And>y r r'. V y \<Longrightarrow> ends r \<Longrightarrow> ends r' \<Longrightarrow> f x @ r = f y @ r' \<Longrightarrow> x = y \<and> r = r'"
  shows "readable f V x"
  using assms by (auto simp: readable_def)

lemma member_readable:
  assumes "readable g V (snd m)"
  shows "readable (\<lambda>m. member_text (map_prod id g m)) (\<lambda>m. V (snd m)) m"
proof (rule readableI)
  fix y r r'
  assume "V (snd y)" "ends r" "ends r'"
    and "member_text (map_prod id g m) @ r = member_text (map_prod id g y) @ r'"
  then have "json_quote (fst m) @ 58 # g (snd m) @ r = json_quote (fst y) @ 58 # g (snd y) @ r'"
    by (simp add: member_text_def)
  then have "fst m = fst y" "g (snd m) @ r = g (snd y) @ r'"
    using json_quote_unique [of "fst m" "58 # g (snd m) @ r" "fst y" "58 # g (snd y) @ r'"] by auto
  then show "m = y \<and> r = r'"
    using readableD [OF assms \<open>V (snd y)\<close> _ \<open>ends r\<close> \<open>ends r'\<close>] by (auto simp: prod_eq_iff)
qed

lemma stringify_head:
  assumes "number_texts numtext" "is_json v"
  shows "stringify numtext v \<noteq> [] \<and> hd (stringify numtext v) \<noteq> 93"
  using stringify_start [OF assms] stringify_ends(1) [OF assms]
  by (cases v) (auto simp: is_number_char_def split: if_splits)

lemma stringify_readable:
  assumes num: "number_texts numtext"
  shows "is_json v \<Longrightarrow> readable (stringify numtext) is_json v"
proof (induction v)
  case (Array items)
  show ?case
  proof (rule readableI)
    fix y r r'
    assume y: "is_json y" and eq: "stringify numtext (Array items) @ r = stringify numtext y @ r'"
    then obtain items' where "y = Array items'"
      using same_tag [OF num Array(2) y eq] by (cases y) (auto split: if_splits)
    moreover from this have "items = items' \<and> r = r'"
      using Array y eq stringify_head [OF num]
      by (intro join_readable [where f = "stringify numtext" and V = is_json and e = 93]) auto
    ultimately show "Array items = y \<and> r = r'" by simp
  qed
next
  case (Object members)
  show ?case
  proof (rule readableI)
    fix y r r'
    assume y: "is_json y" and eq: "stringify numtext (Object members) @ r = stringify numtext y @ r'"
    then obtain members' where m: "y = Object members'"
      using same_tag [OF num Object(2) y eq] by (cases y) (auto split: if_splits)
    have "readable (stringify numtext) is_json (snd m)" if "m \<in> set members" for m
      using Object that by (cases m) (auto simp: snds.simps)
    then have "\<forall>m \<in> set members.
        readable (\<lambda>m. member_text (map_prod id (stringify numtext) m)) (\<lambda>m. is_json (snd m)) m"
      using member_readable by blast
    moreover have "member_text (map_prod id (stringify numtext) m) \<noteq> [] \<and>
        hd (member_text (map_prod id (stringify numtext) m)) \<noteq> 125" for m
      by (simp add: member_text_def json_quote_def)
    moreover have "join_commas (map (\<lambda>m. member_text (map_prod id (stringify numtext) m)) members) @ 125 # r =
        join_commas (map (\<lambda>m. member_text (map_prod id (stringify numtext) m)) members') @ 125 # r'"
      using eq unfolding m by (simp add: comp_def)
    moreover have "\<forall>m \<in> set members'. is_json (snd m)" using y m by simp
    ultimately have "members = members' \<and> r = r'"
      by (intro join_readable [where f = "\<lambda>m. member_text (map_prod id (stringify numtext) m)"
          and V = "\<lambda>m. is_json (snd m)" and e = 125]) simp_all
    then show "Object members = y \<and> r = r'" using m by simp
  qed
next
  case (Number n)
  then obtain q where q: "n = Fin q" by (auto simp: is_finite_iff)
  show ?case
  proof (rule readableI)
    fix y r r'
    assume y: "is_json y" and e: "ends r" "ends r'" and eq: "stringify numtext (Number n) @ r = stringify numtext y @ r'"
    then obtain q' where "y = Number (Fin q')"
      using same_tag [OF num Number y eq] by (cases y) (auto simp: is_finite_iff split: if_splits)
    then show "Number n = y \<and> r = r'" using number_readable [OF num _ e] eq q by auto
  qed
next
  case (Text s)
  show ?case
  proof (rule readableI)
    fix y r r'
    assume y: "is_json y" and eq: "stringify numtext (Text s) @ r = stringify numtext y @ r'"
    then obtain s' where "y = Text s'"
      using same_tag [OF num Text y eq] by (cases y) (auto split: if_splits)
    moreover from this have "s = s' \<and> r = r'"
      using eq by (intro json_quote_unique) simp
    ultimately show "Text s = y \<and> r = r'" by simp
  qed
next
  case Null
  show ?case
  proof (rule readableI)
    fix y r r'
    assume y: "is_json y" and eq: "stringify numtext Null @ r = stringify numtext y @ r'"
    then have "y = Null" using same_tag [OF num Null y eq] by (cases y) (auto split: if_splits)
    then show "Null = y \<and> r = r'" using eq by simp
  qed
next
  case (Boolean b)
  show ?case
  proof (rule readableI)
    fix y r r'
    assume y: "is_json y" and eq: "stringify numtext (Boolean b) @ r = stringify numtext y @ r'"
    then have "y = Boolean b" using same_tag [OF num Boolean y eq] by (cases y) (auto split: if_splits)
    then show "Boolean b = y \<and> r = r'" using eq by simp
  qed
qed auto

lemma stringify_inject:
  assumes "number_texts numtext" "is_json v" "is_json w" "stringify numtext v = stringify numtext w"
  shows "v = w"
  using readableD [OF stringify_readable [OF assms(1,2)] assms(3), of "[]" "[]"] assms(4) by simp

lemma canonical_inject:
  assumes "number_texts numtext" "canonicalizeJson numtext v = Inr text" "canonicalizeJson numtext w = Inr text"
  shows "json_norm v = json_norm w"
proof -
  have j: "is_json v" "is_json w"
    using assms(2,3) canonical_error(1) [of v numtext] canonical_error(1) [of w numtext]
    by (auto simp: canonicalizeJson_def)
  then show ?thesis
    using canonical_text(1) [of _ numtext] assms stringify_inject [OF assms(1)]
    by (simp add: canonicalizeJson_def)
qed

section \<open>Properties\<close>

text \<open>C0: Measuring a value succeeds exactly when it is JSON within the node and depth limits and
  its \<open>JSON.stringify\<close> text fits the byte limit, and then it answers the UTF-8 length of that
  text, which is never built.\<close>

theorem measured_bytes_are_serialized_bytes:
  assumes "number_texts (mc_numtext ctx)" and "of_nat (mc_maxBytes ctx) \<le> max_safe_integer"
  shows "fst (measure_json ctx v path 0 0) = Measured b \<longleftrightarrow>
    is_json v \<and> node_count v \<le> mc_maxNodes ctx \<and> json_depth v \<le> mc_maxDepth ctx \<and>
    b = utf8_length (stringify (mc_numtext ctx) v) \<and> b \<le> mc_maxBytes ctx"
proof -
  have "fst (measure_json ctx v path 0 0) = Measured b \<longleftrightarrow> (\<exists>m. measure_json ctx v path 0 0 = (Measured b, m))"
    by (cases "measure_json ctx v path 0 0") auto
  then show ?thesis by (auto simp: measure_spec(1) [OF assms] text_size_def)
qed

text \<open>A platform for the witnesses: numerator, \<open>e\<close>, denominator.\<close>

definition sample_numtext :: "rat \<Rightarrow> jstr" where
  "sample_numtext q = (let (n, d) = quotient_of q
     in (if n < 0 then [45] else []) @ decimal (nat \<bar>n\<bar>) @ 101 # decimal (nat d))"

lemma decimal_digits: "decimal n \<noteq> [] \<and> (\<forall>c \<in> set (decimal n). 48 \<le> c \<and> c \<le> 57)"
proof (induction n rule: decimal.induct)
  case (1 n)
  then show ?case by (subst (1 2) decimal.simps) auto
qed

lemma decimal_inject: "decimal m = decimal n \<Longrightarrow> m = n"
proof (induction m arbitrary: n rule: decimal.induct)
  case (1 m)
  have single: "decimal k = [c] \<Longrightarrow> k < 10" for k c
    using decimal_digits [of "k div 10"] by (subst (asm) decimal.simps) (auto split: if_splits)
  show ?case
  proof (cases "m < 10 \<or> n < 10")
    case True
    then have "m < 10" "n < 10"
      using 1(2) single [of n] single [of m] by (metis decimal.simps)+
    then show ?thesis using 1(2) by (simp add: decimal.simps)
  next
    case False
    then have "decimal (m div 10) @ [48 + m mod 10] = decimal (n div 10) @ [48 + n mod 10]"
      using 1(2) by (metis decimal.simps)
    then have "m div 10 = n div 10" "m mod 10 = n mod 10" using 1(1) False by auto
    then show ?thesis by (metis div_mult_mod_eq)
  qed
qed

lemma sample_number_texts: "number_texts sample_numtext"
  unfolding number_texts_def
proof (intro conjI allI)
  show "inj sample_numtext"
  proof (rule injI)
    fix p q assume eq: "sample_numtext p = sample_numtext q"
    obtain a b where p: "quotient_of p = (a, b)" by fastforce
    obtain c d where q: "quotient_of q = (c, d)" by fastforce
    have pos: "0 < b" "0 < d" using quotient_of_denom_pos p q by blast+
    have digit: "decimal k \<noteq> 45 # r" "101 \<notin> set (decimal k)" "45 # r \<noteq> decimal k" for k r
    proof -
      show "101 \<notin> set (decimal k)" using decimal_digits [of k] by auto
      show "decimal k \<noteq> 45 # r" using decimal_digits [of k] by auto
      then show "45 # r \<noteq> decimal k" by metis
    qed
    have sign: "a < 0 \<longleftrightarrow> c < 0" 
      using eq digit decimal_digits by (auto simp: sample_numtext_def p q Cons_eq_append_conv append_eq_Cons_conv split: if_splits)
    have "decimal (nat \<bar>a\<bar>) @ 101 # decimal (nat b) = decimal (nat \<bar>c\<bar>) @ 101 # decimal (nat d)"
      using eq sign by (simp add: sample_numtext_def p q split: if_splits)
    then have "decimal (nat \<bar>a\<bar>) = decimal (nat \<bar>c\<bar>) \<and> decimal (nat b) = decimal (nat d)"
      using digit(2) by (auto simp: append_Cons_eq_iff)
    then have "nat \<bar>a\<bar> = nat \<bar>c\<bar>" "nat b = nat d" using decimal_inject by blast+
    then have "a = c" "b = d" using sign pos by auto
    then show "p = q" using p q quotient_of_div by metis
  qed
next
  fix q show "sample_numtext q \<noteq> []" by (simp add: sample_numtext_def split: prod.split)
next
  fix q
  have "is_number_char c" if "c \<in> set (decimal k)" for c k
    using decimal_digits [of k] that by (simp add: is_number_char_def)
  then show "\<forall>c \<in> set (sample_numtext q). is_number_char c"
    by (auto simp: sample_numtext_def is_number_char_def split: prod.splits if_splits)
qed

theorem measured_bytes_are_serialized_bytes_witness:
  "fst (measure_json \<lparr>mc_maxBytes = 100, mc_maxDepth = 5, mc_maxNodes = 9, mc_numtext = sample_numtext\<rparr>
     (Object [(js ''a'', Array [Null, Boolean True]), (js ''b'', Text [8364])]) [] 0 0) = Measured 27"
proof -
  let ?ctx = "\<lparr>mc_maxBytes = 100, mc_maxDepth = 5, mc_maxNodes = 9, mc_numtext = sample_numtext\<rparr>"
  let ?v = "Object [(js ''a'', Array [Null, Boolean True]), (js ''b'', Text [8364])]"
  have "is_json ?v \<and> node_count ?v \<le> mc_maxNodes ?ctx \<and> json_depth ?v \<le> mc_maxDepth ?ctx \<and>
    27 = utf8_length (stringify (mc_numtext ?ctx) ?v) \<and> 27 \<le> mc_maxBytes ?ctx"
    by (simp add: node_count.simps json_depth.simps json_quote_def quote_unit_def js_def is_high_def
        is_low_def member_text_def unit_width_def)
  then show ?thesis
    using measured_bytes_are_serialized_bytes [of ?ctx ?v "[]" 27] sample_number_texts
    by (simp add: max_safe_integer_def)
qed

text \<open>C7: Two JSON values have the same canonical text exactly when they are equal up to the order
  of the members of their objects.\<close>

theorem canonical_text_identifies_values:
  assumes "number_texts numtext" and "is_json v" and "is_json w"
  shows "canonicalizeJson numtext v = canonicalizeJson numtext w \<longleftrightarrow> json_norm v = json_norm w"
  using stringify_inject [OF assms(1), of "json_norm v" "json_norm w"] assms
  by (auto simp: canonicalizeJson_def canonical_text(1))

theorem canonical_text_identifies_values_witness:
  "canonicalizeJson sample_numtext (Object [(js ''b'', Null), (js ''a'', Text [])]) =
   canonicalizeJson sample_numtext (Object [(js ''a'', Text []), (js ''b'', Null)])"
proof -
  have "is_json (Object [(js ''b'', Null), (js ''a'', Text [])])"
    "is_json (Object [(js ''a'', Text []), (js ''b'', Null)])"
    "json_norm (Object [(js ''b'', Null), (js ''a'', Text [])]) = json_norm (Object [(js ''a'', Text []), (js ''b'', Null)])"
    by (simp_all add: js_def)
  then show ?thesis
    using canonical_text_identifies_values [OF sample_number_texts] by blast
qed

end
