(* ===== verification/Config.thy ===== *)
theory Config
  imports Json_Text Identity
begin

text \<open>
  Process configuration (\<open>src/config.ts\<close>): the effective name and project of a runtime, the
  choice of the private runtime directory, and the protocol limits.  The file system, the
  process environment, the path functions and SHA-256 are fields of the environment; every
  answer of the file system is a separate value, so other processes may act between any two
  calls.
\<close>

section \<open>Names and projects\<close>

definition P2P_NAME_FLAG :: string where "P2P_NAME_FLAG = ''p2p-name''"
definition P2P_PROJECT_FLAG :: string where "P2P_PROJECT_FLAG = ''p2p-project''"

record p2p_flags =
  fl_p2pName :: jsval
  fl_p2pProject :: jsval

record p2p_options =
  po_flags :: "p2p_flags option"
  po_p2pName :: jsval
  po_p2pProject :: jsval
  po_sessionName :: "jstr option"

datatype name_source = From_flag | From_session | From_fallback

record p2p_config =
  pc_name :: jstr
  pc_nameSource :: name_source
  pc_nameOverride :: "jstr option"
  pc_projectOverride :: "jstr option"

text \<open>
  The option that is wrong, and why; \<open>P2P_label_rejected\<close> is the configuration error that takes
  over the message of the label normalizer's exception.
\<close>

datatype p2p_error =
    P2PConfigurationError string string
  | P2P_label_rejected string room_exn
  | Fallback_name_unusable room_exn

text \<open>Reading the flags: the flag API of the host is a function from flag names.\<close>

definition readP2PFlags :: "(string \<Rightarrow> jsval) \<Rightarrow> p2p_flags" where
  "readP2PFlags getFlag = \<lparr>fl_p2pName = getFlag P2P_NAME_FLAG, fl_p2pProject = getFlag P2P_PROJECT_FLAG\<rparr>"

fun firstDefined :: "jsval list \<Rightarrow> jsval" where
  "firstDefined [] = Undefined"
| "firstDefined (v # vs) = (if v \<noteq> Undefined then v else firstDefined vs)"

definition validateLabel :: "room_env \<Rightarrow> jsval \<Rightarrow> string \<Rightarrow> p2p_error + jstr option" where
  "validateLabel env v option_name =
     (case v of
        Undefined \<Rightarrow> Inr None
      | Text s \<Rightarrow>
          if s = [] then Inl (P2PConfigurationError option_name ''the value must not be empty'')
          else (case (if option_name = P2P_NAME_FLAG then asNormalizedName env s
                      else normalizeProjectLabel env s) of
              Inl x \<Rightarrow> Inl (P2P_label_rejected option_name x)
            | Inr label \<Rightarrow> Inr (Some label))
      | _ \<Rightarrow> Inl (P2PConfigurationError option_name ''a string value is required''))"

definition fallback_name :: "room_env \<Rightarrow> p2p_error + jstr \<times> name_source" where
  "fallback_name env =
     (case asNormalizedName env (js ''agent'') of
        Inl x \<Rightarrow> Inl (Fallback_name_unusable x)
      | Inr name \<Rightarrow> Inr (name, From_fallback))"

definition effective_name ::
  "room_env \<Rightarrow> jstr option \<Rightarrow> jstr option \<Rightarrow> p2p_error + jstr \<times> name_source" where
  "effective_name env nameOverride sessionName =
     (case nameOverride of
        Some name \<Rightarrow> Inr (name, From_flag)
      | None \<Rightarrow>
          (case sessionName of
             Some s \<Rightarrow>
               (case asNormalizedName env s of
                  Inr name \<Rightarrow> Inr (name, From_session)
                | Inl _ \<Rightarrow> fallback_name env)
           | None \<Rightarrow> fallback_name env))"

definition resolveP2PConfig :: "room_env \<Rightarrow> p2p_options \<Rightarrow> p2p_error + p2p_config" where
  "resolveP2PConfig env options =
     (let flag = (\<lambda>f. case po_flags options of None \<Rightarrow> Undefined | Some flags \<Rightarrow> f flags);
          nameInput = firstDefined [po_p2pName options, flag fl_p2pName];
          projectInput = firstDefined [po_p2pProject options, flag fl_p2pProject]
      in case validateLabel env nameInput P2P_NAME_FLAG of
           Inl x \<Rightarrow> Inl x
         | Inr nameOverride \<Rightarrow>
             (case validateLabel env projectInput P2P_PROJECT_FLAG of
                Inl x \<Rightarrow> Inl x
              | Inr projectOverride \<Rightarrow>
                  (let sessionName = (case po_sessionName options of
                       None \<Rightarrow> None | Some s \<Rightarrow> if s = [] then None else Some s)
                   in case effective_name env nameOverride sessionName of
                        Inl x \<Rightarrow> Inl x
                      | Inr (name, source) \<Rightarrow> Inr
                          \<lparr>pc_name = name, pc_nameSource = source, pc_nameOverride = nameOverride,
                           pc_projectOverride = projectOverride\<rparr>)))"

section \<open>Protocol limits\<close>

definition DEFAULT_REQUEST_TTL_MS :: rat where "DEFAULT_REQUEST_TTL_MS = 600000"
definition MAX_REQUEST_TTL_MS :: rat where "MAX_REQUEST_TTL_MS = 3600000"
definition MAX_CONTROL_TTL_MS :: rat where "MAX_CONTROL_TTL_MS = 30000"
definition MAX_ENVELOPE_BYTES :: rat where "MAX_ENVELOPE_BYTES = 1048576"
definition MAX_SCHEMA_BYTES :: rat where "MAX_SCHEMA_BYTES = 65536"
definition DEFAULT_QUEUE_LIMIT :: rat where "DEFAULT_QUEUE_LIMIT = 32"

record protocol_limits =
  li_requestTtlMs :: rat
  li_maxRequestTtlMs :: rat
  li_maxControlTtlMs :: rat
  li_maxEnvelopeBytes :: rat
  li_maxSchemaBytes :: rat
  li_maxQueueEntries :: rat

text \<open>The overrides that are present; a property that is present and undefined is no number.\<close>

record limit_overrides =
  lv_requestTtlMs :: "jsnum option"
  lv_maxRequestTtlMs :: "jsnum option"
  lv_maxControlTtlMs :: "jsnum option"
  lv_maxEnvelopeBytes :: "jsnum option"
  lv_maxSchemaBytes :: "jsnum option"
  lv_maxQueueEntries :: "jsnum option"

definition V1_LIMIT_CEILINGS :: protocol_limits where
  "V1_LIMIT_CEILINGS =
     \<lparr>li_requestTtlMs = MAX_REQUEST_TTL_MS, li_maxRequestTtlMs = MAX_REQUEST_TTL_MS,
      li_maxControlTtlMs = MAX_CONTROL_TTL_MS, li_maxEnvelopeBytes = MAX_ENVELOPE_BYTES,
      li_maxSchemaBytes = MAX_SCHEMA_BYTES, li_maxQueueEntries = DEFAULT_QUEUE_LIMIT\<rparr>"

definition DEFAULT_PROTOCOL_LIMITS :: protocol_limits where
  "DEFAULT_PROTOCOL_LIMITS =
     \<lparr>li_requestTtlMs = DEFAULT_REQUEST_TTL_MS, li_maxRequestTtlMs = MAX_REQUEST_TTL_MS,
      li_maxControlTtlMs = MAX_CONTROL_TTL_MS, li_maxEnvelopeBytes = MAX_ENVELOPE_BYTES,
      li_maxSchemaBytes = MAX_SCHEMA_BYTES, li_maxQueueEntries = DEFAULT_QUEUE_LIMIT\<rparr>"

definition override :: "rat \<Rightarrow> jsnum option \<Rightarrow> jsnum" where
  "override standard v = (case v of None \<Rightarrow> Fin standard | Some n \<Rightarrow> n)"

definition check_limit :: "string \<Rightarrow> jsnum \<Rightarrow> rat \<Rightarrow> js_exn + rat" where
  "check_limit name v cap =
     (if \<not> is_finite v \<or> v \<le> Fin 0 \<or> Fin cap < v
      then Inl (RangeErrorExn (name @ '' must be a finite positive value no greater than its ceiling''))
      else Inr (fin_val v))"

definition createProtocolConfig :: "limit_overrides \<Rightarrow> js_exn + protocol_limits" where
  "createProtocolConfig given =
     (let D = DEFAULT_PROTOCOL_LIMITS; C = V1_LIMIT_CEILINGS
      in case check_limit ''requestTtlMs'' (override (li_requestTtlMs D) (lv_requestTtlMs given)) (li_requestTtlMs C) of
        Inl x \<Rightarrow> Inl x | Inr requestTtlMs \<Rightarrow>
      (case check_limit ''maxRequestTtlMs'' (override (li_maxRequestTtlMs D) (lv_maxRequestTtlMs given)) (li_maxRequestTtlMs C) of
        Inl x \<Rightarrow> Inl x | Inr maxRequestTtlMs \<Rightarrow>
      (case check_limit ''maxControlTtlMs'' (override (li_maxControlTtlMs D) (lv_maxControlTtlMs given)) (li_maxControlTtlMs C) of
        Inl x \<Rightarrow> Inl x | Inr maxControlTtlMs \<Rightarrow>
      (case check_limit ''maxEnvelopeBytes'' (override (li_maxEnvelopeBytes D) (lv_maxEnvelopeBytes given)) (li_maxEnvelopeBytes C) of
        Inl x \<Rightarrow> Inl x | Inr maxEnvelopeBytes \<Rightarrow>
      (case check_limit ''maxSchemaBytes'' (override (li_maxSchemaBytes D) (lv_maxSchemaBytes given)) (li_maxSchemaBytes C) of
        Inl x \<Rightarrow> Inl x | Inr maxSchemaBytes \<Rightarrow>
      (case check_limit ''maxQueueEntries'' (override (li_maxQueueEntries D) (lv_maxQueueEntries given)) (li_maxQueueEntries C) of
        Inl x \<Rightarrow> Inl x | Inr maxQueueEntries \<Rightarrow>
      if requestTtlMs > maxRequestTtlMs
      then Inl (RangeErrorExn ''requestTtlMs must not exceed maxRequestTtlMs'')
      else Inr \<lparr>li_requestTtlMs = requestTtlMs, li_maxRequestTtlMs = maxRequestTtlMs,
        li_maxControlTtlMs = maxControlTtlMs, li_maxEnvelopeBytes = maxEnvelopeBytes,
        li_maxSchemaBytes = maxSchemaBytes, li_maxQueueEntries = maxQueueEntries\<rparr>))))))"

text \<open>What every accepted configuration satisfies.\<close>

definition limits_ok :: "protocol_limits \<Rightarrow> bool" where
  "limits_ok c \<longleftrightarrow>
     0 < li_requestTtlMs c \<and> li_requestTtlMs c \<le> li_maxRequestTtlMs c \<and>
     0 < li_maxRequestTtlMs c \<and> li_maxRequestTtlMs c \<le> MAX_REQUEST_TTL_MS \<and>
     0 < li_maxControlTtlMs c \<and> li_maxControlTtlMs c \<le> MAX_CONTROL_TTL_MS \<and>
     0 < li_maxEnvelopeBytes c \<and> li_maxEnvelopeBytes c \<le> MAX_ENVELOPE_BYTES \<and>
     0 < li_maxSchemaBytes c \<and> li_maxSchemaBytes c \<le> MAX_SCHEMA_BYTES \<and>
     0 < li_maxQueueEntries c \<and> li_maxQueueEntries c \<le> DEFAULT_QUEUE_LIMIT"

lemma check_limit_Inr: "check_limit name v c = Inr q \<longleftrightarrow> v = Fin q \<and> 0 < q \<and> q \<le> c"
  by (cases v) (auto simp: check_limit_def not_le not_less)

lemma createProtocolConfig_ok: "createProtocolConfig overrides = Inr c \<Longrightarrow> limits_ok c"
  unfolding createProtocolConfig_def Let_def
  by (auto simp: check_limit_Inr V1_LIMIT_CEILINGS_def limits_ok_def split: sum.splits if_splits)

section \<open>The private runtime directory\<close>

definition RUNTIME_DIR_ENV :: string where "RUNTIME_DIR_ENV = ''PI_TO_PI_RUNTIME_DIR''"
definition XDG_RUNTIME_DIR_ENV :: string where "XDG_RUNTIME_DIR_ENV = ''XDG_RUNTIME_DIR''"
definition LOCAL_APP_DATA_ENV :: string where "LOCAL_APP_DATA_ENV = ''LOCALAPPDATA''"

text \<open>0700.\<close>

definition PRIVATE_DIRECTORY_MODE :: nat where "PRIVATE_DIRECTORY_MODE = 448"

datatype root_source = Root_override | Root_xdg | Root_local_app_data | Root_temporary

record root_selection =
  rs_path :: jstr
  rs_source :: root_source
  rs_warning :: "jstr option"

datatype file_kind = Directory | Symbolic_link | Other_file

record file_stats =
  st_kind :: file_kind
  st_uid :: nat
  st_mode :: nat

datatype fs_error = Missing | Other_error

text \<open>
  \<open>Protector_exn\<close> and \<open>Warn_exn\<close> are whatever an injected protector or warning function throws.  The two messages that end in the
  text of a system error have that text left out.
\<close>

datatype root_exn = RuntimeRootError jstr | Fs_exn fs_error | Protector_exn | Warn_exn

text \<open>
  The platform: \<open>win\<close> is whether the platform is Windows.  The k-th call of the file system
  gets the k-th answer.  \<open>rt_icacls\<close> is whether the ACL tool succeeds for a path and an account.
\<close>

record root_env =
  rt_lstat :: "nat \<Rightarrow> jstr \<Rightarrow> fs_error + file_stats"
  rt_mkdir :: "nat \<Rightarrow> jstr \<Rightarrow> fs_error option"
  rt_chmod :: "nat \<Rightarrow> jstr \<Rightarrow> fs_error option"
  rt_icacls :: "jstr \<Rightarrow> jstr \<Rightarrow> bool"
  rt_process_win32 :: bool
  rt_process_env :: "string \<Rightarrow> jstr option"
  rt_process_uid :: "nat option"
  rt_username :: jstr
  rt_homedir :: jstr
  rt_tmpdir :: jstr
  rt_isAbsolute :: "bool \<Rightarrow> jstr \<Rightarrow> bool"
  rt_normalize :: "bool \<Rightarrow> jstr \<Rightarrow> jstr"
  rt_join :: "bool \<Rightarrow> jstr list \<Rightarrow> jstr"
  rt_sha256 :: "jstr \<Rightarrow> jstr"

text \<open>
  \<open>op_protect\<close> is an injected protector: the paths it accepts.  \<open>op_warn\<close> is an injected warning
  function: the messages at which it returns; \<open>console.warn\<close>, which stands in for it, returns.
\<close>

record root_options =
  op_env :: "(string \<Rightarrow> jstr option) option"
  op_win32 :: "bool option"
  op_temporaryDirectory :: "jstr option"
  op_homeDirectory :: "jstr option"
  op_uid :: "nat option"
  op_protect :: "(jstr \<Rightarrow> bool) option"
  op_warn :: "(jstr \<Rightarrow> bool) option"

record root_state =
  rt_calls :: nat
  rt_warned :: "jstr list"

type_synonym 'a rooted = "(root_state, root_exn, 'a) exec"

definition given_or :: "'a option \<Rightarrow> 'a \<Rightarrow> 'a" where
  "given_or v d = (case v of None \<Rightarrow> d | Some a \<Rightarrow> a)"

definition currentUid :: "root_env \<Rightarrow> root_options \<Rightarrow> nat option" where
  "currentUid env options = (case op_uid options of Some u \<Rightarrow> Some u | None \<Rightarrow> rt_process_uid env)"

definition normalizeAbsolute :: "root_env \<Rightarrow> jstr \<Rightarrow> bool \<Rightarrow> jstr option" where
  "normalizeAbsolute env v win =
     (if v = [] \<or> \<not> rt_isAbsolute env win v then None else Some (rt_normalize env win v))"

definition isDirectoryModePrivate :: "nat \<Rightarrow> bool" where
  "isDirectoryModePrivate mode \<longleftrightarrow> mode mod 512 = PRIVATE_DIRECTORY_MODE"

definition windowsAccount :: "root_env \<Rightarrow> (string \<Rightarrow> jstr option) \<Rightarrow> root_exn + jstr" where
  "windowsAccount env vars =
     (let username = (case vars ''USERNAME'' of
          Some u \<Rightarrow> u
        | None \<Rightarrow> if rt_process_win32 env then rt_username env else [])
      in if username = [] then Inl (RuntimeRootError
           (js ''Cannot determine the current Windows account for ACL protection''))
         else (case vars ''USERDOMAIN'' of
             Some d \<Rightarrow> Inr (if d = [] then username else d @ 92 # username)
           | None \<Rightarrow> Inr username))"

definition protectWindowsPathSync :: "root_env \<Rightarrow> jstr \<Rightarrow> (string \<Rightarrow> jstr option) \<Rightarrow> 'a rooted \<Rightarrow> 'a rooted" where
  "protectWindowsPathSync env path vars rest =
     (if \<not> rt_process_win32 env then rest
      else (case windowsAccount env vars of
          Inl x \<Rightarrow> throw x
        | Inr account \<Rightarrow>
            if rt_icacls env path account then rest
            else throw (RuntimeRootError (js ''Cannot establish a private Windows ACL for '' @ path))))"

definition fs_call :: "nat rooted" where
  "fs_call = bindE (getE rt_calls) (\<lambda>i. thenE (modE (\<lambda>s. s\<lparr>rt_calls := Suc i\<rparr>)) (ret i))"

definition lstatSync :: "root_env \<Rightarrow> jstr \<Rightarrow> file_stats rooted" where
  "lstatSync env path = bindE fs_call
     (\<lambda>i. case rt_lstat env i path of Inl e \<Rightarrow> throw (Fs_exn e) | Inr stats \<Rightarrow> ret stats)"

definition fs_effect :: "(nat \<Rightarrow> jstr \<Rightarrow> fs_error option) \<Rightarrow> jstr \<Rightarrow> unit rooted" where
  "fs_effect operation path = bindE fs_call
     (\<lambda>i. case operation i path of Some e \<Rightarrow> throw (Fs_exn e) | None \<Rightarrow> ret ())"

definition private_stats :: "bool \<Rightarrow> nat option \<Rightarrow> file_stats \<Rightarrow> bool" where
  "private_stats win uid stats \<longleftrightarrow>
     win \<or> (uid = Some (st_uid stats) \<and> isDirectoryModePrivate (st_mode stats))"

definition validatePrivateExistingDirectory :: "root_env \<Rightarrow> jstr \<Rightarrow> bool \<Rightarrow> nat option \<Rightarrow> bool rooted" where
  "validatePrivateExistingDirectory env directory win uid =
     catchE (bindE (lstatSync env directory)
         (\<lambda>stats. ret (st_kind stats = Directory \<and> private_stats win uid stats)))
       (\<lambda>_. ret False)"

text \<open>The first look at a directory: it exists and is private, or it is created now.\<close>

definition existing_or_created :: "root_env \<Rightarrow> jstr \<Rightarrow> bool \<Rightarrow> nat option \<Rightarrow> bool rooted" where
  "existing_or_created env directory win uid =
     catchE (bindE (lstatSync env directory)
         (\<lambda>stats. if st_kind stats \<noteq> Directory
            then throw (RuntimeRootError (js ''Runtime root is not a real directory: '' @ directory))
            else if \<not> private_stats win uid stats
            then throw (RuntimeRootError (js ''Runtime root is not private to the current user: '' @ directory))
            else ret False))
       (\<lambda>x. if x \<noteq> Fs_exn Missing then throw x
          else thenE (fs_effect (rt_mkdir env) directory) (ret True))"

definition tighten_created :: "root_env \<Rightarrow> jstr \<Rightarrow> file_stats rooted" where
  "tighten_created env directory =
     thenE (catchE (fs_effect (rt_chmod env) directory)
         (\<lambda>_. throw (RuntimeRootError (js ''Cannot set private runtime-root permissions for '' @ directory))))
       (lstatSync env directory)"

definition ensurePrivateDirectorySync :: "root_env \<Rightarrow> root_options \<Rightarrow> jstr \<Rightarrow> unit rooted" where
  "ensurePrivateDirectorySync env options directory =
     (let win = given_or (op_win32 options) (rt_process_win32 env); uid = currentUid env options
      in bindE (existing_or_created env directory win uid)
       (\<lambda>created. bindE (lstatSync env directory)
       (\<lambda>stats. if st_kind stats \<noteq> Directory
          then throw (RuntimeRootError (js ''Runtime root is not a real directory: '' @ directory))
          else if \<not> win
          then (if uid \<noteq> Some (st_uid stats)
                then throw (RuntimeRootError (js ''Cannot verify runtime-root ownership: '' @ directory))
                else bindE (if created then tighten_created env directory else ret stats)
                 (\<lambda>stats. if \<not> isDirectoryModePrivate (st_mode stats)
                    then throw (RuntimeRootError (js ''Runtime root is not private to the current user: '' @ directory))
                    else ret ()))
          else if rt_process_win32 env
          then (case op_protect options of
              Some protect \<Rightarrow>
                if protect directory then ret ()
                else throw Protector_exn
            | None \<Rightarrow> protectWindowsPathSync env directory
                (given_or (op_env options) (rt_process_env env)) (ret ()))
          else ret ())))"

definition stableUserKey ::
  "root_env \<Rightarrow> bool \<Rightarrow> (string \<Rightarrow> jstr option) \<Rightarrow> jstr \<Rightarrow> nat option \<Rightarrow> jstr" where
  "stableUserKey env win vars homeDirectory uid =
     (case (win, uid) of
        (False, Some u) \<Rightarrow> js ''uid-'' @ decimal u
      | _ \<Rightarrow>
          (let account = given_or (vars ''USERNAME'') (given_or (vars ''USER'') [])
           in js ''user-'' @ take 24 (rt_sha256 env (account @ 0 # homeDirectory))))"

text \<open>
  \<open>rt_warned\<close> is the set of messages handed to a warning function so far, in their order; a message is
  handed over once, and what the function throws ends the selection.
\<close>

definition reportFallbackWarning :: "root_options \<Rightarrow> jstr \<Rightarrow> unit rooted" where
  "reportFallbackWarning options message = bindE (getE rt_warned)
     (\<lambda>warned. if message \<in> set warned then ret ()
        else thenE (modE (\<lambda>s. s\<lparr>rt_warned := rt_warned s @ [message]\<rparr>))
          (if given_or (op_warn options) (\<lambda>_. True) message then ret () else throw Warn_exn))"

definition tryRoot ::
  "root_env \<Rightarrow> root_options \<Rightarrow> jstr \<Rightarrow> root_source \<Rightarrow> root_selection option rooted" where
  "tryRoot env options directory source =
     catchE (thenE (ensurePrivateDirectorySync env options directory)
         (ret (Some \<lparr>rs_path = directory, rs_source = source, rs_warning = None\<rparr>)))
       (\<lambda>_. ret None)"

text \<open>A candidate is a selection, or the reasons why there is none.\<close>

type_synonym candidate_root = "(jstr list + root_selection) rooted"

definition tried :: "jstr \<Rightarrow> root_selection option rooted \<Rightarrow> candidate_root" where
  "tried failure attempt = bindE attempt
     (\<lambda>selected. ret (case selected of Some r \<Rightarrow> Inr r | None \<Rightarrow> Inl [failure]))"

text \<open>The first candidate: the explicit override, when it is set.\<close>

definition override_root :: "root_env \<Rightarrow> root_options \<Rightarrow> bool \<Rightarrow> jstr option \<Rightarrow> candidate_root" where
  "override_root env options win setting =
     (case setting of
        None \<Rightarrow> ret (Inl [])
      | Some v \<Rightarrow>
          (case normalizeAbsolute env v win of
             None \<Rightarrow> ret (Inl [js ''PI_TO_PI_RUNTIME_DIR must be absolute''])
           | Some path \<Rightarrow> tried (js ''PI_TO_PI_RUNTIME_DIR is not a private directory'')
               (tryRoot env options path Root_override)))"

text \<open>The second: the per-user directory of the platform.\<close>

definition xdg_root :: "root_env \<Rightarrow> root_options \<Rightarrow> jstr option \<Rightarrow> candidate_root" where
  "xdg_root env options absoluteXdg =
     (case absoluteXdg of
        None \<Rightarrow> ret (Inl [js ''XDG_RUNTIME_DIR is unavailable or not private''])
      | Some xdg \<Rightarrow> bindE (validatePrivateExistingDirectory env xdg False (currentUid env options))
          (\<lambda>ok. if \<not> ok then ret (Inl [js ''XDG_RUNTIME_DIR is unavailable or not private''])
             else tried (js ''XDG_RUNTIME_DIR/pi-to-pi cannot be made private'')
               (tryRoot env options (rt_join env False [xdg, js ''pi-to-pi'']) Root_xdg)))"

definition local_app_data_root :: "root_env \<Rightarrow> root_options \<Rightarrow> jstr option \<Rightarrow> candidate_root" where
  "local_app_data_root env options absoluteLocalAppData =
     (case absoluteLocalAppData of
        None \<Rightarrow> ret (Inl [js ''LOCALAPPDATA is unavailable or not absolute''])
      | Some data \<Rightarrow> tried (js ''LOCALAPPDATA runtime directory is not private'')
          (tryRoot env options (rt_join env True [data, js ''pi-to-pi'', js ''runtime'']) Root_local_app_data))"

definition platform_root ::
  "root_env \<Rightarrow> root_options \<Rightarrow> bool \<Rightarrow> (string \<Rightarrow> jstr option) \<Rightarrow> candidate_root" where
  "platform_root env options win vars =
     (let candidate = (\<lambda>name. case vars name of None \<Rightarrow> None | Some v \<Rightarrow> normalizeAbsolute env v win)
      in if \<not> win then xdg_root env options (candidate XDG_RUNTIME_DIR_ENV)
         else local_app_data_root env options (candidate LOCAL_APP_DATA_ENV))"

definition fallback_warning :: "bool \<Rightarrow> jstr \<Rightarrow> jstr" where
  "fallback_warning win fallback =
     (if \<not> win
      then js ''XDG_RUNTIME_DIR is unavailable or not private; using private temporary runtime root '' @ fallback
      else js ''A per-user LocalAppData runtime root is unavailable; using private temporary runtime root '' @ fallback)"

text \<open>The last: a directory of the user below the temporary directory, with a warning.\<close>

definition temporary_root ::
  "root_env \<Rightarrow> root_options \<Rightarrow> bool \<Rightarrow> (string \<Rightarrow> jstr option) \<Rightarrow> jstr \<Rightarrow> jstr \<Rightarrow> candidate_root" where
  "temporary_root env options win vars homeDirectory temporaryDirectory =
     (case normalizeAbsolute env temporaryDirectory win of
        None \<Rightarrow> ret (Inl [js ''temporary directory is not absolute''])
      | Some absoluteTemporary \<Rightarrow>
          (let key = stableUserKey env win vars homeDirectory (currentUid env options);
               fallback = rt_join env win [absoluteTemporary, js ''pi-to-pi-'' @ key];
               warning = fallback_warning win fallback
           in bindE (tryRoot env options fallback Root_temporary)
             (\<lambda>selected. case selected of
                 None \<Rightarrow> ret (Inl [js ''temporary runtime directory is not private: '' @ fallback])
               | Some r \<Rightarrow> thenE (reportFallbackWarning options warning)
                   (ret (Inr (r\<lparr>rs_warning := Some warning\<rparr>))))))"

fun join_reasons :: "jstr list \<Rightarrow> jstr" where
  "join_reasons [] = []"
| "join_reasons [t] = t"
| "join_reasons (t # u # ts) = t @ js ''; '' @ join_reasons (u # ts)"

text \<open>The first candidate that is one, tried in order.\<close>

fun first_root :: "jstr list \<Rightarrow> candidate_root list \<Rightarrow> root_selection rooted" where
  "first_root failures [] = throw (RuntimeRootError
     (js ''Unable to establish a private Pi-to-Pi runtime root ('' @ join_reasons failures @ js '')''))"
| "first_root failures (c # cs) = bindE c
     (\<lambda>outcome. case outcome of Inr r \<Rightarrow> ret r | Inl reasons \<Rightarrow> first_root (failures @ reasons) cs)"

definition resolveRuntimeRoot :: "root_env \<Rightarrow> root_options \<Rightarrow> root_selection rooted" where
  "resolveRuntimeRoot env options =
     (let vars = given_or (op_env options) (rt_process_env env);
          win = given_or (op_win32 options) (rt_process_win32 env);
          homeDirectory = given_or (op_homeDirectory options)
            (given_or (vars ''USERPROFILE'') (given_or (vars ''HOME'') (rt_homedir env)));
          temporaryDirectory = given_or (op_temporaryDirectory options) (rt_tmpdir env)
      in first_root []
           [override_root env options win (vars RUNTIME_DIR_ENV),
            platform_root env options win vars,
            temporary_root env options win vars homeDirectory temporaryDirectory])"

section \<open>A selected root is private\<close>

lemma thenE_eq_Inr: "thenE m k s = (Inr b, u) \<longleftrightarrow> (\<exists>a t. m s = (Inr a, t) \<and> k t = (Inr b, u))"
  by (auto simp: thenE_def bindE_eq_Inr)

lemma catchE_eq_Inr:
  "catchE m h s = (Inr b, u) \<longleftrightarrow>
   m s = (Inr b, u) \<or> (\<exists>x t. m s = (Inl x, t) \<and> h x t = (Inr b, u))"
  by (auto simp: catchE_def split: prod.splits sum.splits)

lemma simple_Inr:
  "ret a s = (Inr b, u) \<longleftrightarrow> b = a \<and> u = s"
  "throw x s = (Inr b, u) \<longleftrightarrow> False"
  "getE f s = (Inr b, u) \<longleftrightarrow> b = f s \<and> u = s"
  "modE g s = (Inr c, u) \<longleftrightarrow> u = g s"
  by (auto simp: exec_simps)

lemmas run_simps = bindE_eq_Inr thenE_eq_Inr catchE_eq_Inr simple_Inr

lemma lstatSync_Inr:
  "lstatSync env path s = (Inr stats, t) \<longleftrightarrow>
   rt_lstat env (rt_calls s) path = Inr stats \<and> t = s\<lparr>rt_calls := Suc (rt_calls s)\<rparr>"
  by (auto simp: lstatSync_def fs_call_def run_simps split: sum.splits)

lemma fs_effect_Inr:
  "fs_effect operation path s = (Inr u, t) \<longleftrightarrow>
   operation (rt_calls s) path = None \<and> t = s\<lparr>rt_calls := Suc (rt_calls s)\<rparr>"
  by (auto simp: fs_effect_def fs_call_def run_simps split: option.splits)

text \<open>
  What the file system said of a directory: at some call that it is a real directory of the
  user, and at the last call that its mode is 0700; no other call was made after the latter.
\<close>

definition seen_private :: "root_env \<Rightarrow> nat option \<Rightarrow> jstr \<Rightarrow> nat \<Rightarrow> nat \<Rightarrow> bool" where
  "seen_private env uid path first calls \<longleftrightarrow>
     (\<exists>k m stats stats'. first \<le> k \<and> k \<le> m \<and> calls = Suc m \<and>
        rt_lstat env k path = Inr stats \<and> st_kind stats = Directory \<and> uid = Some (st_uid stats) \<and>
        rt_lstat env m path = Inr stats' \<and> isDirectoryModePrivate (st_mode stats'))"

lemma seen_privateI:
  "first \<le> k \<Longrightarrow> k \<le> m \<Longrightarrow> calls = Suc m \<Longrightarrow> rt_lstat env k path = Inr stats \<Longrightarrow>
   st_kind stats = Directory \<Longrightarrow> uid = Some (st_uid stats) \<Longrightarrow>
   rt_lstat env m path = Inr stats' \<Longrightarrow> isDirectoryModePrivate (st_mode stats') \<Longrightarrow>
   seen_private env uid path first calls"
  unfolding seen_private_def by blast

lemma tighten_created_Inr:
  "tighten_created env directory s = (Inr stats, t) \<Longrightarrow>
   \<exists>m. rt_calls s \<le> m \<and> rt_calls t = Suc m \<and> rt_lstat env m directory = Inr stats"
  by (auto simp: tighten_created_def run_simps fs_effect_Inr lstatSync_Inr)

text \<open>File system calls only move on, and warnings stay.\<close>

definition calls_forward :: "root_state \<Rightarrow> root_state \<Rightarrow> bool" where
  "calls_forward s t \<longleftrightarrow> rt_calls s \<le> rt_calls t \<and> set (rt_warned s) \<subseteq> set (rt_warned t)"

interpretation forward: step_contract calls_forward
  by unfold_locales (auto simp: calls_forward_def)

lemma forward_call: "obeys calls_forward fs_call"
  by (rule obeysI) (simp add: fs_call_def exec_simps calls_forward_def)

lemma forward_lstat: "obeys calls_forward (lstatSync env path)"
  unfolding lstatSync_def by (intro forward.closure forward_call)

lemma forward_effect: "obeys calls_forward (fs_effect operation path)"
  unfolding fs_effect_def by (intro forward.closure forward_call)

lemma forward_existing: "obeys calls_forward (existing_or_created env directory win uid)"
  unfolding existing_or_created_def
  by (intro forward.closure forward_lstat forward_effect)

lemma forward_ensure: "obeys calls_forward (ensurePrivateDirectorySync env options directory)"
  unfolding ensurePrivateDirectorySync_def tighten_created_def protectWindowsPathSync_def Let_def
  by (intro forward.closure forward_lstat forward_effect forward_existing)

lemma forward_try: "obeys calls_forward (tryRoot env options path source)"
  unfolding tryRoot_def by (intro forward.closure forward_ensure)

lemma forward_warning: "obeys calls_forward (reportFallbackWarning options message)"
  unfolding reportFallbackWarning_def by (intro forward.closure forward.modE) (auto simp: calls_forward_def)

lemma ensure_private:
  assumes "ensurePrivateDirectorySync env options directory s = (Inr (), t)"
    and win: "\<not> given_or (op_win32 options) (rt_process_win32 env)"
  shows "seen_private env (currentUid env options) directory (rt_calls s) (rt_calls t)"
proof -
  obtain created s1 stats s2 where first: "existing_or_created env directory False (currentUid env options) s = (Inr created, s1)"
    and second: "lstatSync env directory s1 = (Inr stats, s2)"
    and kind: "st_kind stats = Directory" and uid: "currentUid env options = Some (st_uid stats)"
    and last: "bindE (if created then tighten_created env directory else ret stats)
         (\<lambda>stats. if \<not> isDirectoryModePrivate (st_mode stats)
            then throw (RuntimeRootError (js ''Runtime root is not private to the current user: '' @ directory))
            else ret ()) s2 = (Inr (), t)"
    using assms unfolding ensurePrivateDirectorySync_def Let_def
    by (auto simp: bindE_eq_Inr simple_Inr split: if_splits)
  have le: "rt_calls s \<le> rt_calls s1"
    using obeys_result [OF forward_existing first] by (simp add: calls_forward_def)
  have at: "rt_lstat env (rt_calls s1) directory = Inr stats" "rt_calls s2 = Suc (rt_calls s1)"
    using second by (auto simp: lstatSync_Inr)
  show ?thesis
  proof (cases created)
    case True
    then obtain stats' where "tighten_created env directory s2 = (Inr stats', t)"
      and mode: "isDirectoryModePrivate (st_mode stats')"
      using last by (auto simp: bindE_eq_Inr simple_Inr split: if_splits)
    then obtain m where "rt_calls s2 \<le> m" "rt_calls t = Suc m" "rt_lstat env m directory = Inr stats'"
      using tighten_created_Inr by blast
    then show ?thesis using le at kind uid mode
      by (intro seen_privateI [where k = "rt_calls s1" and m = m]) auto
  next
    case False
    then have "isDirectoryModePrivate (st_mode stats)" "t = s2"
      using last by (auto simp: bindE_eq_Inr simple_Inr split: if_splits)
    then show ?thesis using le at kind uid
      by (intro seen_privateI [where k = "rt_calls s1" and m = "rt_calls s1"]) auto
  qed
qed


lemma tryRoot_Some:
  assumes "tryRoot env options directory source s = (Inr (Some r), t)"
    and "\<not> given_or (op_win32 options) (rt_process_win32 env)"
  shows "rs_path r = directory \<and> rs_source r = source \<and> rs_warning r = None \<and>
    seen_private env (currentUid env options) directory (rt_calls s) (rt_calls t)"
proof -
  have "thenE (ensurePrivateDirectorySync env options directory)
         (ret (Some \<lparr>rs_path = directory, rs_source = source, rs_warning = None\<rparr>)) s = (Inr (Some r), t)"
    using assms(1) unfolding tryRoot_def by (auto simp: catchE_eq_Inr simple_Inr)
  then show ?thesis using ensure_private [OF _ assms(2)] by (auto simp: thenE_eq_Inr simple_Inr)
qed

text \<open>What a candidate that answers with a selection has seen.\<close>

definition private_root :: "root_env \<Rightarrow> root_options \<Rightarrow> root_selection \<Rightarrow> root_state \<Rightarrow> root_state \<Rightarrow> bool" where
  "private_root env options r s t \<longleftrightarrow>
     seen_private env (currentUid env options) (rs_path r) (rt_calls s) (rt_calls t) \<and>
     (rs_source r = Root_temporary \<longleftrightarrow> rs_warning r \<noteq> None) \<and>
     (case rs_warning r of None \<Rightarrow> True | Some w \<Rightarrow> w \<in> set (rt_warned t))"

definition selects_private :: "root_env \<Rightarrow> root_options \<Rightarrow> candidate_root \<Rightarrow> bool" where
  "selects_private env options c \<longleftrightarrow>
     (\<forall>s r t. c s = (Inr (Inr r), t) \<longrightarrow> private_root env options r s t)"

lemma tried_selects:
  assumes "\<not> given_or (op_win32 options) (rt_process_win32 env)" and "source \<noteq> Root_temporary"
  shows "selects_private env options (tried failure (tryRoot env options directory source))"
  using assms tryRoot_Some [OF _ assms(1)]
  by (auto simp: selects_private_def tried_def run_simps private_root_def split: option.splits)

lemma no_selection: "selects_private env options (ret (Inl reasons))"
  by (simp add: selects_private_def simple_Inr)

lemma override_selects:
  assumes "\<not> given_or (op_win32 options) (rt_process_win32 env)"
  shows "selects_private env options (override_root env options win setting)"
  by (simp add: override_root_def no_selection tried_selects assms split: option.split)

lemma seen_private_mono:
  "seen_private env uid path i n \<Longrightarrow> j \<le> i \<Longrightarrow> seen_private env uid path j n"
  unfolding seen_private_def using order_trans by blast

lemma forward_validate: "obeys calls_forward (validatePrivateExistingDirectory env directory win uid)"
  unfolding validatePrivateExistingDirectory_def by (intro forward.closure forward_lstat)

lemma selects_bind:
  assumes "obeys calls_forward m" and "\<And>a. selects_private env options (k a)"
  shows "selects_private env options (bindE m k)"
  unfolding selects_private_def
proof (intro allI impI)
  fix s r t assume "bindE m k s = (Inr (Inr r), t)"
  then obtain a u where "m s = (Inr a, u)" and k: "k a u = (Inr (Inr r), t)"
    by (auto simp: bindE_eq_Inr)
  then have "rt_calls s \<le> rt_calls u" using obeys_result [OF assms(1)] by (simp add: calls_forward_def)
  moreover have "private_root env options r u t" using assms(2) k by (simp add: selects_private_def)
  ultimately show "private_root env options r s t"
    unfolding private_root_def using seen_private_mono by blast
qed

lemma xdg_selects:
  assumes "\<not> given_or (op_win32 options) (rt_process_win32 env)"
  shows "selects_private env options (xdg_root env options candidate)"
proof (cases candidate)
  case None
  then show ?thesis by (simp add: xdg_root_def no_selection)
next
  case (Some xdg)
  have "selects_private env options (bindE (validatePrivateExistingDirectory env xdg False (currentUid env options))
          (\<lambda>ok. if \<not> ok then ret (Inl [js ''XDG_RUNTIME_DIR is unavailable or not private''])
             else tried (js ''XDG_RUNTIME_DIR/pi-to-pi cannot be made private'')
               (tryRoot env options (rt_join env False [xdg, js ''pi-to-pi'']) Root_xdg)))"
    by (rule selects_bind) (simp_all add: forward_validate no_selection tried_selects assms)
  with Some show ?thesis by (simp add: xdg_root_def)
qed

lemma warning_reported:
  "reportFallbackWarning options message s = (Inr u, t) \<Longrightarrow> message \<in> set (rt_warned t) \<and> rt_calls t = rt_calls s"
  by (auto simp: reportFallbackWarning_def run_simps bindE_eq_Inr thenE_eq_Inr split: if_splits)

lemma temporary_selects:
  assumes "\<not> given_or (op_win32 options) (rt_process_win32 env)"
  shows "selects_private env options (temporary_root env options win vars home temporary)"
proof (cases "normalizeAbsolute env temporary win")
  case None
  then show ?thesis by (simp add: temporary_root_def no_selection)
next
  case (Some path)
  show ?thesis
    unfolding selects_private_def
  proof (intro allI impI)
    fix s r t assume run: "temporary_root env options win vars home temporary s = (Inr (Inr r), t)"
    define fallback where "fallback = rt_join env win
      [path, js ''pi-to-pi-'' @ stableUserKey env win vars home (currentUid env options)]"
    have "bindE (tryRoot env options fallback Root_temporary)
             (\<lambda>selected. case selected of
                 None \<Rightarrow> ret (Inl [js ''temporary runtime directory is not private: '' @ fallback])
               | Some r \<Rightarrow> thenE (reportFallbackWarning options (fallback_warning win fallback))
                   (ret (Inr (r\<lparr>rs_warning := Some (fallback_warning win fallback)\<rparr>)))) s = (Inr (Inr r), t)"
      using run unfolding temporary_root_def Some Let_def fallback_def by simp
    then obtain selected u where first: "tryRoot env options fallback Root_temporary s = (Inr selected, u)"
      and rest: "(case selected of
                 None \<Rightarrow> ret (Inl [js ''temporary runtime directory is not private: '' @ fallback])
               | Some r \<Rightarrow> thenE (reportFallbackWarning options (fallback_warning win fallback))
                   (ret (Inr (r\<lparr>rs_warning := Some (fallback_warning win fallback)\<rparr>)))) u = (Inr (Inr r), t)"
      by (auto simp: bindE_eq_Inr)
    show "private_root env options r s t"
    proof (cases selected)
      case None
      then show ?thesis using rest by (simp add: simple_Inr)
    next
      case (Some r0)
      then obtain w where warn: "reportFallbackWarning options (fallback_warning win fallback) u = (Inr w, t)"
        and r: "r = r0\<lparr>rs_warning := Some (fallback_warning win fallback)\<rparr>"
        using rest by (auto simp: thenE_eq_Inr simple_Inr)
      show ?thesis
        using tryRoot_Some [OF first [unfolded Some] assms] warning_reported [OF warn]
        by (simp add: private_root_def r)
    qed
  qed
qed

lemma first_root_private:
  assumes "\<And>c. c \<in> set cs \<Longrightarrow> selects_private env options c"
    and "\<And>c. c \<in> set cs \<Longrightarrow> obeys calls_forward c"
    and "first_root failures cs s = (Inr r, t)"
  shows "private_root env options r s t"
  using assms
proof (induction failures cs arbitrary: s rule: first_root.induct)
  case (1 failures)
  then show ?case by (simp add: simple_Inr)
next
  case (2 failures c cs)
  then obtain outcome u where c: "c s = (Inr outcome, u)"
    and rest: "(case outcome of Inr r \<Rightarrow> ret r | Inl reasons \<Rightarrow> first_root (failures @ reasons) cs) u = (Inr r, t)"
    by (auto simp: bindE_eq_Inr)
  show ?case
  proof (cases outcome)
    case (Inl reasons)
    then have "private_root env options r u t" using 2 rest by simp
    moreover have "rt_calls s \<le> rt_calls u"
      using 2(3) [of c] c by (auto simp: calls_forward_def dest: obeys_result)
    ultimately show ?thesis unfolding private_root_def using seen_private_mono by blast
  next
    case (Inr r')
    then have "r = r'" "t = u" using rest by (simp_all add: simple_Inr)
    moreover have "selects_private env options c" using 2(2) by simp
    ultimately show ?thesis using c Inr unfolding selects_private_def by blast
  qed
qed

lemma forward_tried: "obeys calls_forward m \<Longrightarrow> obeys calls_forward (tried failure m)"
  unfolding tried_def by (intro forward.closure)

lemma forward_override: "obeys calls_forward (override_root env options win setting)"
  unfolding override_root_def by (intro forward.closure forward_tried forward_try)

lemma forward_platform: "obeys calls_forward (platform_root env options win vars)"
  unfolding platform_root_def xdg_root_def local_app_data_root_def Let_def
  by (intro forward.closure forward_tried forward_try forward_validate)

lemma forward_temporary:
  "obeys calls_forward (temporary_root env options win vars home temporary)"
  unfolding temporary_root_def Let_def
  by (intro forward.closure forward_try forward_warning)

lemma platform_selects:
  "\<not> given_or (op_win32 options) (rt_process_win32 env) \<Longrightarrow>
   selects_private env options (platform_root env options False vars)"
  by (simp add: platform_root_def Let_def xdg_selects)

lemma resolved_root_private:
  assumes win: "\<not> given_or (op_win32 options) (rt_process_win32 env)"
    and run: "resolveRuntimeRoot env options s = (Inr r, t)"
  shows "private_root env options r s t"
proof (rule first_root_private)
  show "first_root []
     [override_root env options False (given_or (op_env options) (rt_process_env env) RUNTIME_DIR_ENV),
      platform_root env options False (given_or (op_env options) (rt_process_env env)),
      temporary_root env options False (given_or (op_env options) (rt_process_env env))
        (given_or (op_homeDirectory options)
            (given_or (given_or (op_env options) (rt_process_env env) ''USERPROFILE'')
              (given_or (given_or (op_env options) (rt_process_env env) ''HOME'') (rt_homedir env))))
        (given_or (op_temporaryDirectory options) (rt_tmpdir env))] s = (Inr r, t)"
    using run win unfolding resolveRuntimeRoot_def Let_def by simp
qed (use win in \<open>auto simp: override_selects temporary_selects platform_selects
       forward_override forward_temporary forward_platform\<close>)

section \<open>Properties\<close>

text \<open>C11: Away from Windows, a runtime root that is selected was seen to be a real directory that
  belongs to the user and, at the last look at it, to have mode 0700; it carries a warning exactly
  when it is the temporary fallback, and that warning was handed to the warning
  function.  Between the two looks other
  processes may act, so the theorem speaks of what the file system answered.\<close>

theorem selected_root_is_private:
  assumes "\<not> given_or (op_win32 options) (rt_process_win32 env)"
    and "resolveRuntimeRoot env options s = (Inr r, t)"
  shows "private_root env options r s t"
  by (rule resolved_root_private [OF assms])

text \<open>
  A platform where \<open>/t\<close> has no directory of the user yet: the first look at it finds nothing,
  it is created, and later looks find a private directory of user 7.
\<close>

definition sample_root_env :: root_env where
  "sample_root_env =
     \<lparr>rt_lstat = (\<lambda>k _. if k = 0 then Inl Missing else Inr \<lparr>st_kind = Directory, st_uid = 7, st_mode = 16832\<rparr>),
      rt_mkdir = (\<lambda>_ _. None), rt_chmod = (\<lambda>_ _. None), rt_icacls = (\<lambda>_ _. False),
      rt_process_win32 = False, rt_process_env = (\<lambda>_. None), rt_process_uid = Some 7,
      rt_username = [], rt_homedir = js ''/h'', rt_tmpdir = js ''/t'',
      rt_isAbsolute = (\<lambda>_ p. take 1 p = js ''/''), rt_normalize = (\<lambda>_ p. p),
      rt_join = (\<lambda>_ ps. concat (map (\<lambda>p. p @ js ''/'') ps)), rt_sha256 = (\<lambda>p. p)\<rparr>"

definition sample_root_options :: root_options where
  "sample_root_options =
     \<lparr>op_env = None, op_win32 = None, op_temporaryDirectory = None, op_homeDirectory = None,
      op_uid = None, op_protect = None, op_warn = None\<rparr>"

theorem selected_root_is_private_witness:
  "case resolveRuntimeRoot sample_root_env sample_root_options \<lparr>rt_calls = 0, rt_warned = []\<rparr> of
     (Inl _, _) \<Rightarrow> False
   | (Inr r, t) \<Rightarrow> private_root sample_root_env sample_root_options r \<lparr>rt_calls = 0, rt_warned = []\<rparr> t"
proof -
  have "isl (fst (resolveRuntimeRoot sample_root_env sample_root_options \<lparr>rt_calls = 0, rt_warned = []\<rparr>)) = False"
    by code_simp
  moreover have "\<not> given_or (op_win32 sample_root_options) (rt_process_win32 sample_root_env)"
    by code_simp
  ultimately show ?thesis
    using selected_root_is_private [of sample_root_options sample_root_env "\<lparr>rt_calls = 0, rt_warned = []\<rparr>"]
    by (auto split: sum.split prod.split)
qed

end
