(* ===== verification/Wire_Values.thy ===== *)
theory Wire_Values
  imports Config Lease
begin

text \<open>
  What every validator of the wire boundary uses (\<open>src/protocol/validation.ts\<close>): issues and the
  errors they become, the limits of one validation, the clock, RFC 3339 time stamps, and the
  checks of JSON values, typed contents and metadata.  A check that finds an issue leaves its
  function, and so does an exception; both are the left side of \<open>checked\<close>.
\<close>

section \<open>The platform\<close>

text \<open>
  The text of numbers, the dates, \<open>Date.now()\<close>, whether a text is a regular expression and what
  it matches, the schema compiler, \<open>decodeURIComponent\<close>, \<open>JSON.parse\<close>, the division of numbers
  and SHA-256.
\<close>

record wire_env =
  we_numtext :: "rat \<Rightarrow> jstr"
  we_dates :: date_env
  we_now :: rat
  we_regex_ok :: "jstr \<Rightarrow> bool"
  we_regex_test :: "jstr \<Rightarrow> jstr \<Rightarrow> bool"
  we_compile :: "jsval \<Rightarrow> (jsval \<Rightarrow> bool) option"
  we_decodeURI :: "jstr \<Rightarrow> jstr option"
  we_parse :: "jstr \<Rightarrow> jsval option"
  we_divide :: "rat \<Rightarrow> rat \<Rightarrow> jsnum"
  we_sha256 :: "jstr \<Rightarrow> jstr"

datatype now_input = Now_number jsnum | Now_date jsnum | Now_text jstr

record validation_options =
  vo_now :: "now_input option"
  vo_maxEnvelopeBytes :: "jsnum option"
  vo_maxSchemaBytes :: "jsnum option"
  vo_maxDepth :: "jsnum option"
  vo_maxNodes :: "jsnum option"
  vo_expectedRequestId :: "jstr option"
  vo_limits :: limit_overrides

definition no_limit_overrides :: limit_overrides where
  "no_limit_overrides = \<lparr>lv_requestTtlMs = None, lv_maxRequestTtlMs = None, lv_maxControlTtlMs = None,
     lv_maxEnvelopeBytes = None, lv_maxSchemaBytes = None, lv_maxQueueEntries = None\<rparr>"

definition default_options :: validation_options where
  "default_options = \<lparr>vo_now = None, vo_maxEnvelopeBytes = None, vo_maxSchemaBytes = None,
     vo_maxDepth = None, vo_maxNodes = None, vo_expectedRequestId = None, vo_limits = no_limit_overrides\<rparr>"

section \<open>Issues\<close>

datatype validation_code =
    VC_malformed | VC_incompatible | VC_expired | VC_oversized | VC_invalid_content | VC_invalid_reply

primrec wire_code :: "validation_code \<Rightarrow> error_code" where
  "wire_code VC_malformed = EC_malformed"
| "wire_code VC_incompatible = EC_incompatible"
| "wire_code VC_expired = EC_expired"
| "wire_code VC_oversized = EC_oversized"
| "wire_code VC_invalid_content = EC_invalid_content"
| "wire_code VC_invalid_reply = EC_invalid_reply"

record internal_issue =
  ii_code :: validation_code
  ii_path :: jstr
  ii_reason :: jstr
  ii_keyword :: "jstr option"

definition issue :: "validation_code \<Rightarrow> jstr \<Rightarrow> string \<Rightarrow> internal_issue" where
  "issue code path reason = \<lparr>ii_code = code, ii_path = path, ii_reason = js reason, ii_keyword = None\<rparr>"

definition keyword_issue :: "validation_code \<Rightarrow> jstr \<Rightarrow> string \<Rightarrow> string \<Rightarrow> internal_issue" where
  "keyword_issue code path reason keyword =
     \<lparr>ii_code = code, ii_path = path, ii_reason = js reason, ii_keyword = Some (js keyword)\<rparr>"

datatype stop = Throws js_exn | Issue internal_issue

type_synonym 'a checked = "stop + 'a"

definition bindC :: "'a checked \<Rightarrow> ('a \<Rightarrow> 'b checked) \<Rightarrow> 'b checked" where
  "bindC m k = (case m of Inl s \<Rightarrow> Inl s | Inr a \<Rightarrow> k a)"

definition refuse :: "internal_issue \<Rightarrow> 'a checked" where
  "refuse i = Inl (Issue i)"

definition require :: "bool \<Rightarrow> internal_issue \<Rightarrow> unit checked" where
  "require b i = (if b then Inr () else refuse i)"

text \<open>Checks one after the other: the first that stops decides.\<close>

fun checks :: "unit checked list \<Rightarrow> unit checked" where
  "checks [] = Inr ()"
| "checks (c # cs) = bindC c (\<lambda>_. checks cs)"

definition no_throw :: "js_exn + 'a \<Rightarrow> 'a checked" where
  "no_throw m = (case m of Inl x \<Rightarrow> Inl (Throws x) | Inr a \<Rightarrow> Inr a)"

lemma bindC_Inr: "bindC m k = Inr b \<longleftrightarrow> (\<exists>a. m = Inr a \<and> k a = Inr b)"
  by (auto simp: bindC_def split: sum.splits)

lemma require_Inr [simp]: "require b i = Inr u \<longleftrightarrow> b"
  by (simp add: require_def refuse_def)

lemma checks_Inr: "checks cs = Inr u \<longleftrightarrow> (\<forall>c \<in> set cs. c = Inr ())"
  by (induction cs) (auto simp: bindC_Inr)

declare checks.simps [simp del]

lemma no_throw_Inr [simp]: "no_throw m = Inr a \<longleftrightarrow> m = Inr a"
  by (auto simp: no_throw_def split: sum.split)

lemma refuse_Inr [simp]: "refuse i \<noteq> Inr a"
  by (simp add: refuse_def)

text \<open>The outcome of a validator: it throws, answers an error, or accepts a value.\<close>

type_synonym 'a validated = "js_exn + (protocol_error + 'a)"

definition text_member :: "string \<Rightarrow> jstr \<Rightarrow> jstr \<times> jsval" where
  "text_member key t = (js key, Text t)"

definition issueDetails :: "jstr \<Rightarrow> jstr \<Rightarrow> jstr option \<Rightarrow> jsval" where
  "issueDetails path reason keyword = Object ([text_member ''path'' path, text_member ''reason'' reason] @
     (case keyword of None \<Rightarrow> [] | Some k \<Rightarrow> [text_member ''keyword'' k]))"

definition validationFailure ::
  "wire_env \<Rightarrow> validation_code \<Rightarrow> string \<Rightarrow> jstr \<Rightarrow> jstr \<Rightarrow> jstr option \<Rightarrow> 'a validated" where
  "validationFailure env code message path reason keyword =
     (case createProtocolError (\<lambda>q. utf8_length (we_numtext env q)) (wire_code code) (js message)
             (no_error_options\<lparr>eo_details := Some (issueDetails path reason keyword)\<rparr>) of
        Inl x \<Rightarrow> Inl x
      | Inr e \<Rightarrow> Inr (Inl e))"

primrec messageForInternalCode :: "validation_code \<Rightarrow> string" where
  "messageForInternalCode VC_incompatible = ''protocol value is not supported''"
| "messageForInternalCode VC_expired = ''protocol value has expired''"
| "messageForInternalCode VC_oversized = ''protocol value exceeds a configured size limit''"
| "messageForInternalCode VC_invalid_content = ''protocol content is invalid''"
| "messageForInternalCode VC_invalid_reply = ''protocol reply is invalid''"
| "messageForInternalCode VC_malformed = ''protocol value is malformed''"

definition internalIssueFailure :: "wire_env \<Rightarrow> internal_issue \<Rightarrow> 'a validated" where
  "internalIssueFailure env i = validationFailure env (ii_code i) (messageForInternalCode (ii_code i))
     (ii_path i) (ii_reason i) (ii_keyword i)"

text \<open>Finishing a validator: \<open>fail_with_issue\<close> says what an issue becomes.\<close>

definition outcome_of :: "(internal_issue \<Rightarrow> 'a validated) \<Rightarrow> 'a checked \<Rightarrow> 'a validated" where
  "outcome_of fail_with_issue m =
     (case m of
        Inl (Throws x) \<Rightarrow> Inl x
      | Inl (Issue i) \<Rightarrow> fail_with_issue i
      | Inr a \<Rightarrow> Inr (Inr a))"

lemma validationFailure_error:
  "\<exists>e. validationFailure env code message path reason keyword = Inr (Inl e) \<and> pe_code e = wire_code code"
  by (cases code) (auto simp: validationFailure_def createProtocolError_def no_error_options_def validateRetryMetadata_def)

lemma internalIssueFailure_error:
  "\<exists>e. internalIssueFailure env i = Inr (Inl e) \<and> pe_code e = wire_code (ii_code i)"
  unfolding internalIssueFailure_def by (rule validationFailure_error)

lemma validationFailure_not_ok [simp]: "validationFailure env code message path reason keyword \<noteq> Inr (Inr a)"
  by (simp add: validationFailure_def split: sum.split)

lemma internalIssueFailure_not_ok [simp]: "internalIssueFailure env i \<noteq> Inr (Inr a)"
  unfolding internalIssueFailure_def by simp

section \<open>Objects\<close>

text \<open>An own property, and the value that reading a property gives.\<close>

definition own :: "(jstr \<times> jsval) list \<Rightarrow> string \<Rightarrow> jsval option" where
  "own members key = map_of members (js key)"

definition has_own :: "(jstr \<times> jsval) list \<Rightarrow> string \<Rightarrow> bool" where
  "has_own members key \<longleftrightarrow> own members key \<noteq> None"

fun is_text :: "jsval \<Rightarrow> bool" where
  "is_text (Text _) = True"
| "is_text _ = False"

fun is_boolean :: "jsval \<Rightarrow> bool" where
  "is_boolean (Boolean _) = True"
| "is_boolean _ = False"

fun is_array :: "jsval \<Rightarrow> bool" where
  "is_array (Array _) = True"
| "is_array _ = False"

fun isPlainObject :: "jsval \<Rightarrow> bool" where
  "isPlainObject (Object _) = True"
| "isPlainObject _ = False"

text \<open>A property is there and satisfies a condition.\<close>

definition own_is :: "(jstr \<times> jsval) list \<Rightarrow> string \<Rightarrow> (jsval \<Rightarrow> bool) \<Rightarrow> bool" where
  "own_is members key P \<longleftrightarrow> (case own members key of None \<Rightarrow> False | Some v \<Rightarrow> P v)"

text \<open>A check of a property that may be missing.\<close>

definition if_own :: "(jstr \<times> jsval) list \<Rightarrow> string \<Rightarrow> (jsval \<Rightarrow> unit checked) \<Rightarrow> unit checked" where
  "if_own members key check = (case own members key of None \<Rightarrow> Inr () | Some v \<Rightarrow> check v)"

lemma if_own_Inr: "if_own members key check = Inr u \<longleftrightarrow> (\<forall>v. own members key = Some v \<longrightarrow> check v = Inr ())"
  by (auto simp: if_own_def split: option.split)

definition dot :: "jstr \<Rightarrow> string \<Rightarrow> jstr" where
  "dot path key = path @ 46 # js key"

section \<open>Limits and the clock\<close>

record resolved_limits =
  rl_maxEnvelopeBytes :: rat
  rl_maxSchemaBytes :: rat
  rl_maxDepth :: rat
  rl_maxNodes :: rat
  rl_maxRequestTtlMs :: rat
  rl_maxControlTtlMs :: rat

definition resolvePositiveLimit :: "jsnum option \<Rightarrow> rat \<Rightarrow> string \<Rightarrow> rat \<Rightarrow> js_exn + rat" where
  "resolvePositiveLimit v fallback field cap =
     (let resolved = (case v of None \<Rightarrow> Fin fallback | Some n \<Rightarrow> n)
      in if \<not> is_safe_integer resolved \<or> resolved \<le> Fin 0
         then Inl (RangeErrorExn (field @ '' must be a positive safe integer''))
         else Inr (min (fin_val resolved) cap))"

definition depth_limit :: "validation_options \<Rightarrow> js_exn + rat" where
  "depth_limit options = resolvePositiveLimit (vo_maxDepth options)
     (of_nat DEFAULT_VALIDATION_MAX_DEPTH) ''maxDepth'' (of_nat DEFAULT_VALIDATION_MAX_DEPTH)"

definition node_limit :: "validation_options \<Rightarrow> js_exn + rat" where
  "node_limit options = resolvePositiveLimit (vo_maxNodes options)
     (of_nat DEFAULT_VALIDATION_MAX_NODES) ''maxNodes'' (of_nat DEFAULT_VALIDATION_MAX_NODES)"

definition resolveLimits :: "validation_options \<Rightarrow> js_exn + resolved_limits" where
  "resolveLimits options =
     (case createProtocolConfig (vo_limits options) of Inl x \<Rightarrow> Inl x | Inr configured \<Rightarrow>
     (case resolvePositiveLimit (vo_maxEnvelopeBytes options) (li_maxEnvelopeBytes configured)
             ''maxEnvelopeBytes'' (min MAX_ENVELOPE_BYTES (li_maxEnvelopeBytes configured)) of
        Inl x \<Rightarrow> Inl x | Inr envelopeBytes \<Rightarrow>
     (case resolvePositiveLimit (vo_maxSchemaBytes options) (li_maxSchemaBytes configured)
             ''maxSchemaBytes'' (min MAX_SCHEMA_BYTES (li_maxSchemaBytes configured)) of
        Inl x \<Rightarrow> Inl x | Inr schemaBytes \<Rightarrow>
     (case depth_limit options of Inl x \<Rightarrow> Inl x | Inr depth \<Rightarrow>
     (case node_limit options of Inl x \<Rightarrow> Inl x | Inr nodes \<Rightarrow>
        Inr \<lparr>rl_maxEnvelopeBytes = envelopeBytes, rl_maxSchemaBytes = schemaBytes, rl_maxDepth = depth,
             rl_maxNodes = nodes, rl_maxRequestTtlMs = li_maxRequestTtlMs configured,
             rl_maxControlTtlMs = li_maxControlTtlMs configured\<rparr>)))))"

text \<open>RFC 3339 in UTC: the date and the time of day, an optional fraction, and \<open>Z\<close>.\<close>

definition UTC_CLASSES :: "(nat \<Rightarrow> bool) list" where
  "UTC_CLASSES = replicate 4 is_digit @ [is_char 45] @ replicate 2 is_digit @ [is_char 45] @
     replicate 2 is_digit @ [\<lambda>c. c = 84 \<or> c = 116] @ replicate 2 is_digit @ [is_char 58] @
     replicate 2 is_digit @ [is_char 58] @ replicate 2 is_digit"

definition is_utc_tail :: "jstr \<Rightarrow> bool" where
  "is_utc_tail s \<longleftrightarrow> s = [90] \<or>
     (case s of c # rest \<Rightarrow> c = 46 \<and> length rest \<ge> 2 \<and> last rest = 90 \<and> list_all is_digit (butlast rest)
      | [] \<Rightarrow> False)"

definition RFC3339_UTC_PATTERN :: "jstr \<Rightarrow> bool" where
  "RFC3339_UTC_PATTERN s \<longleftrightarrow> matches_classes UTC_CLASSES (take 19 s) \<and> is_utc_tail (drop 19 s)"

text \<open>The replacement of the milliseconds of an ISO text.\<close>

definition drop_milliseconds :: "jstr \<Rightarrow> jstr" where
  "drop_milliseconds t =
     (let n = length t - 5
      in if length t \<ge> 5 \<and> matches_classes [is_char 46, is_digit, is_digit, is_digit, is_char 90] (drop n t)
         then take n t @ [90] else t)"

definition parseUtcTimestamp :: "wire_env \<Rightarrow> jsval \<Rightarrow> rat option" where
  "parseUtcTimestamp env v =
     (case v of
        Text s \<Rightarrow>
          if \<not> RFC3339_UTC_PATTERN s then None
          else (case date_parse (we_dates env) s of
              Fin milliseconds \<Rightarrow>
                if \<bar>milliseconds\<bar> > max_date_ms then None
                else (let normalizedInput = take 10 s @ 84 # take 8 (drop 11 s) @ [90]
                   in if normalizedInput = drop_milliseconds (date_iso (we_dates env) milliseconds)
                      then Some milliseconds else None)
            | _ \<Rightarrow> None)
      | _ \<Rightarrow> None)"

definition resolveNow :: "wire_env \<Rightarrow> now_input option \<Rightarrow> js_exn + rat" where
  "resolveNow env v =
     (case v of
        None \<Rightarrow> Inr (we_now env)
      | Some (Now_number n) \<Rightarrow>
          if \<not> is_safe_integer n then Inl (RangeErrorExn ''now must be a finite safe integer'') else Inr (fin_val n)
      | Some (Now_date n) \<Rightarrow>
          if \<not> is_safe_integer n then Inl (RangeErrorExn ''now must be a valid Date'') else Inr (fin_val n)
      | Some (Now_text t) \<Rightarrow>
          (case parseUtcTimestamp env (Text t) of
             None \<Rightarrow> Inl (RangeErrorExn ''now must be a valid RFC 3339 UTC timestamp'')
           | Some milliseconds \<Rightarrow> Inr milliseconds))"

section \<open>JSON values, contents and metadata\<close>

text \<open>A limit counts whole bytes and nodes, so its integral part decides.\<close>

definition whole :: "rat \<Rightarrow> nat" where
  "whole q = nat \<lfloor>q\<rfloor>"

definition measure_in :: "wire_env \<Rightarrow> rat \<Rightarrow> rat \<Rightarrow> rat \<Rightarrow> jsval \<Rightarrow> measure_result" where
  "measure_in env maxBytes maxDepth maxNodes v =
     fst (measure_json \<lparr>mc_maxBytes = whole maxBytes, mc_maxDepth = whole maxDepth,
       mc_maxNodes = whole maxNodes, mc_numtext = we_numtext env\<rparr> v (js ''$'') 0 0)"

definition measureJsonBytes :: "wire_env \<Rightarrow> validation_options \<Rightarrow> jsval \<Rightarrow> rat \<Rightarrow> js_exn + measure_result" where
  "measureJsonBytes env options v maxBytes =
     (case depth_limit options of Inl x \<Rightarrow> Inl x | Inr depth \<Rightarrow>
     (case node_limit options of Inl x \<Rightarrow> Inl x | Inr nodes \<Rightarrow>
        Inr (measure_in env maxBytes depth nodes v)))"

definition validateJsonValueInternal ::
  "wire_env \<Rightarrow> validation_options \<Rightarrow> jsval \<Rightarrow> jstr \<Rightarrow> unit checked" where
  "validateJsonValueInternal env options v path =
     bindC (no_throw (measureJsonBytes env options v max_safe_integer))
       (\<lambda>measured. case measured of
          Unmeasurable where_found reason \<Rightarrow>
            refuse \<lparr>ii_code = VC_malformed, ii_path = where_found, ii_reason = reason, ii_keyword = None\<rparr>
        | Too_large _ \<Rightarrow> refuse (issue VC_oversized path ''JSON value exceeds the validation complexity bound'')
        | Measured _ \<Rightarrow> Inr ())"

definition isJsonValue :: "wire_env \<Rightarrow> validation_options \<Rightarrow> jsval \<Rightarrow> js_exn + bool" where
  "isJsonValue env options v =
     (case validateJsonValueInternal env options v (js ''$'') of
        Inl (Throws x) \<Rightarrow> Inl x
      | Inl (Issue _) \<Rightarrow> Inr False
      | Inr _ \<Rightarrow> Inr True)"

text \<open>Another issue instead of the one a check found.\<close>

definition reissue :: "(internal_issue \<Rightarrow> internal_issue) \<Rightarrow> 'a checked \<Rightarrow> 'a checked" where
  "reissue f m = (case m of Inl (Issue i) \<Rightarrow> refuse (f i) | _ \<Rightarrow> m)"

lemma reissue_Inr [simp]: "reissue f m = Inr a \<longleftrightarrow> m = Inr a"
  by (auto simp: reissue_def split: sum.split stop.split)

definition validateTypedContentInternal ::
  "wire_env \<Rightarrow> validation_options \<Rightarrow> jsval \<Rightarrow> jstr \<Rightarrow> unit checked" where
  "validateTypedContentInternal env options v path =
     (case v of
        Object c \<Rightarrow>
          (case own c ''type'' of
             Some (Text kind) \<Rightarrow>
               if kind = js ''text''
               then require (own_is c ''text'' is_text)
                 (issue VC_invalid_content (dot path ''text'') ''text content requires a string text value'')
               else if kind = js ''json''
               then (case own c ''value'' of
                   None \<Rightarrow> refuse (issue VC_invalid_content (dot path ''value'') ''JSON content requires a value'')
                 | Some inner \<Rightarrow>
                     reissue (\<lambda>i. if ii_code i = VC_oversized then i\<lparr>ii_path := dot path ''value''\<rparr>
                         else issue VC_invalid_content (dot path ''value'') ''value is not valid JSON'')
                       (validateJsonValueInternal env options inner (dot path ''value'')))
               else refuse (issue VC_invalid_content (dot path ''type'') ''unsupported content type'')
           | _ \<Rightarrow> refuse (issue VC_malformed (dot path ''type'') ''content type is required''))
      | _ \<Rightarrow> refuse (issue VC_malformed path ''content must be an object''))"

definition validateContent :: "wire_env \<Rightarrow> validation_options \<Rightarrow> jsval \<Rightarrow> jsval validated" where
  "validateContent env options v =
     outcome_of (\<lambda>i. validationFailure env (ii_code i) ''typed content is invalid'' (ii_path i) (ii_reason i) None)
       (bindC (validateTypedContentInternal env options v (js ''$'')) (\<lambda>_. Inr v))"

definition validateMetadataInternal ::
  "wire_env \<Rightarrow> validation_options \<Rightarrow> jsval \<Rightarrow> jstr \<Rightarrow> unit checked" where
  "validateMetadataInternal env options v path =
     (if \<not> isPlainObject v then refuse (issue VC_invalid_content path ''metadata must be a JSON object'')
      else reissue (\<lambda>i. if ii_code i = VC_oversized then i\<lparr>ii_path := path\<rparr>
           else issue VC_invalid_content path ''metadata must contain only JSON values'')
         (validateJsonValueInternal env options v path))"

section \<open>Which values pass\<close>

lemma depth_limit_range: "depth_limit options = Inr d \<Longrightarrow> 0 < d \<and> d \<le> 128"
  by (auto simp: depth_limit_def resolvePositiveLimit_def Let_def DEFAULT_VALIDATION_MAX_DEPTH_def
      split: if_splits option.splits) (auto simp: min_def split: if_splits elim: is_safe_integer.elims)

lemma resolveLimits_Inr:
  assumes "resolveLimits options = Inr limits"
  shows "depth_limit options = Inr (rl_maxDepth limits)" "node_limit options = Inr (rl_maxNodes limits)"
    "rl_maxEnvelopeBytes limits \<le> MAX_ENVELOPE_BYTES" "rl_maxSchemaBytes limits \<le> MAX_SCHEMA_BYTES"
    "rl_maxRequestTtlMs limits \<le> MAX_REQUEST_TTL_MS" "rl_maxControlTtlMs limits \<le> MAX_CONTROL_TTL_MS"
proof -
  obtain c eb sb d n where c: "createProtocolConfig (vo_limits options) = Inr c"
    and eb: "resolvePositiveLimit (vo_maxEnvelopeBytes options) (li_maxEnvelopeBytes c) ''maxEnvelopeBytes''
       (min MAX_ENVELOPE_BYTES (li_maxEnvelopeBytes c)) = Inr eb"
    and sb: "resolvePositiveLimit (vo_maxSchemaBytes options) (li_maxSchemaBytes c) ''maxSchemaBytes''
       (min MAX_SCHEMA_BYTES (li_maxSchemaBytes c)) = Inr sb"
    and d: "depth_limit options = Inr d" and n: "node_limit options = Inr n"
    and l: "limits = \<lparr>rl_maxEnvelopeBytes = eb, rl_maxSchemaBytes = sb, rl_maxDepth = d,
             rl_maxNodes = n, rl_maxRequestTtlMs = li_maxRequestTtlMs c, rl_maxControlTtlMs = li_maxControlTtlMs c\<rparr>"
    using assms unfolding resolveLimits_def by (auto split: sum.splits)
  have cap: "resolvePositiveLimit v a f b = Inr r \<Longrightarrow> r \<le> b" for v a f b r
    by (auto simp: resolvePositiveLimit_def Let_def split: if_splits)
  show "depth_limit options = Inr (rl_maxDepth limits)" "node_limit options = Inr (rl_maxNodes limits)"
    using d n l by simp_all
  show "rl_maxEnvelopeBytes limits \<le> MAX_ENVELOPE_BYTES" "rl_maxSchemaBytes limits \<le> MAX_SCHEMA_BYTES"
    using cap [OF eb] cap [OF sb] l by simp_all
  show "rl_maxRequestTtlMs limits \<le> MAX_REQUEST_TTL_MS" "rl_maxControlTtlMs limits \<le> MAX_CONTROL_TTL_MS"
    using createProtocolConfig_ok [OF c] l by (simp_all add: limits_ok_def)
qed

text \<open>A value within the limits of nodes and depth and a number of bytes.\<close>

definition fits :: "wire_env \<Rightarrow> resolved_limits \<Rightarrow> nat \<Rightarrow> jsval \<Rightarrow> bool" where
  "fits env limits bytes v \<longleftrightarrow> is_json v \<and> node_count v \<le> whole (rl_maxNodes limits) \<and>
     json_depth v \<le> whole (rl_maxDepth limits) \<and> utf8_length (stringify (we_numtext env) v) \<le> bytes"

lemma measured_fits:
  assumes "number_texts (we_numtext env)" and "resolveLimits options = Inr limits"
    and "of_nat (whole maxBytes) \<le> max_safe_integer"
  shows "(\<exists>n. measureJsonBytes env options v maxBytes = Inr (Measured n)) \<longleftrightarrow> fits env limits (whole maxBytes) v"
proof -
  define ctx where "ctx = \<lparr>mc_maxBytes = whole maxBytes, mc_maxDepth = whole (rl_maxDepth limits),
       mc_maxNodes = whole (rl_maxNodes limits), mc_numtext = we_numtext env\<rparr>"
  have "fst (measure_json ctx v (js ''$'') 0 0) = Measured n \<longleftrightarrow>
      (\<exists>m. measure_json ctx v (js ''$'') 0 0 = (Measured n, m))" for n
    by (cases "measure_json ctx v (js ''$'') 0 0") auto
  then have "fst (measure_json ctx v (js ''$'') 0 0) = Measured n \<longleftrightarrow>
      fits env limits (whole maxBytes) v \<and> n = text_size ctx v" for n
    using measure_spec(1) [of ctx v "js ''$''" 0 0] assms(1,3)
    by (auto simp: fits_def ctx_def text_size_def)
  then show ?thesis
    using resolveLimits_Inr(1,2) [OF assms(2)]
    by (simp add: measureJsonBytes_def measure_in_def ctx_def)
qed

lemma whole_safe [simp]: "whole max_safe_integer = 9007199254740991"
  by (simp add: whole_def max_safe_integer_def)

lemma whole_le: "q \<le> of_nat n \<Longrightarrow> whole q \<le> n"
  using floor_mono [of q "of_nat n"] by (simp add: whole_def nat_le_iff)

lemma json_value_fits:
  assumes "number_texts (we_numtext env)" and "resolveLimits options = Inr limits"
  shows "validateJsonValueInternal env options v path = Inr u \<longleftrightarrow> fits env limits 9007199254740991 v"
proof -
  have "validateJsonValueInternal env options v path = Inr u \<longleftrightarrow>
     (\<exists>n. measureJsonBytes env options v max_safe_integer = Inr (Measured n))"
  proof (cases "measureJsonBytes env options v max_safe_integer")
    case (Inr measured)
    then show ?thesis by (cases measured) (simp_all add: validateJsonValueInternal_def bindC_Inr)
  qed (simp add: validateJsonValueInternal_def bindC_Inr)
  moreover have "of_nat (whole max_safe_integer) \<le> max_safe_integer"
    by (simp only: whole_safe) (simp add: max_safe_integer_def)
  ultimately show ?thesis using measured_fits [OF assms, of max_safe_integer v] by (simp only: whole_safe)
qed

lemma member_node_count: "m \<in> set members \<Longrightarrow> node_count (snd m) \<le> node_count (Object members)"
  by (induction members) auto

lemma member_depth: "m \<in> set members \<Longrightarrow> json_depth (snd m) \<le> json_depth (Object members)"
  using depth_parts(2) [of 0 members "json_depth (Object members)"] by fastforce

lemma member_bytes:
  assumes "number_texts numtext" and "is_json (Object members)" and "m \<in> set members"
  shows "utf8_length (stringify numtext (snd m)) \<le> utf8_length (stringify numtext (Object members))"
proof -
  define ctx where "ctx = \<lparr>mc_maxBytes = 0, mc_maxDepth = 0, mc_maxNodes = 0, mc_numtext = numtext\<rparr>"
  have "text_size ctx (snd m) \<le> sum_list (map (\<lambda>m. jsonStringByteLength (fst m) + 1 + text_size ctx (snd m)) members)"
    using assms(3) by (induction members) auto
  also have "\<dots> \<le> text_size ctx (Object members)"
    using text_size_object [of ctx members] assms by (simp add: ctx_def)
  finally show ?thesis by (simp add: text_size_def ctx_def)
qed

text \<open>What fits has only members that fit.\<close>

lemma fits_member:
  assumes "number_texts (we_numtext env)" and "fits env limits b (Object members)" and "own members k = Some v"
  shows "fits env limits b v"
proof -
  have m: "(js k, v) \<in> set members" using assms(3) unfolding own_def by (rule map_of_SomeD)
  show ?thesis
    using assms(2) member_node_count [OF m] member_depth [OF m] member_bytes [OF assms(1) _ m] m
    unfolding fits_def by (auto intro: order_trans)
qed

lemma fits_more: "fits env limits b v \<Longrightarrow> b \<le> b' \<Longrightarrow> fits env limits b' v"
  unfolding fits_def by simp

text \<open>Contents and metadata, of values that fit as a whole.\<close>

definition typed_content :: "jsval \<Rightarrow> bool" where
  "typed_content v \<longleftrightarrow>
     (case v of
        Object c \<Rightarrow>
          (own c ''type'' = Some (Text (js ''text'')) \<and> own_is c ''text'' is_text) \<or>
          (own c ''type'' = Some (Text (js ''json'')) \<and> has_own c ''value'')
      | _ \<Rightarrow> False)"

lemma js_inject [simp]: "js a = js b \<longleftrightarrow> a = b"
  using inj_map_eq_map [of "of_char :: char \<Rightarrow> nat" a b] by (simp add: js_def inj_def)

lemma content_of_fitting:
  assumes "number_texts (we_numtext env)" and "resolveLimits options = Inr limits"
    and "fits env limits b v" and "b \<le> 9007199254740991"
  shows "validateTypedContentInternal env options v path = Inr u \<longleftrightarrow> typed_content v"
proof (cases v)
  case (Object c)
  have inner: "validateJsonValueInternal env options w p = Inr x" if "own c ''value'' = Some w" for w p x
    using fits_more [OF fits_member [OF assms(1) _ that]] assms(3,4) unfolding Object
    by (simp add: json_value_fits [OF assms(1,2)])
  show ?thesis
    unfolding Object validateTypedContentInternal_def typed_content_def
    using inner by (auto simp: has_own_def split: option.splits jsval.splits if_splits)
qed (simp_all add: validateTypedContentInternal_def typed_content_def)

lemma metadata_of_fitting:
  assumes "number_texts (we_numtext env)" and "resolveLimits options = Inr limits"
    and "fits env limits b v" and "b \<le> 9007199254740991"
  shows "validateMetadataInternal env options v path = Inr u \<longleftrightarrow> isPlainObject v"
  using json_value_fits [OF assms(1,2), of v path u] fits_more [OF assms(3,4)]
  by (simp add: validateMetadataInternal_def)

end
