(* ===== verification/Schema_Shape.thy ===== *)
theory Schema_Shape
  imports Wire_Values
begin

text \<open>
  Which JSON Schemas the wire boundary accepts (\<open>src/protocol/validation.ts\<close>): the scanner of
  regular expressions, the shape of every subschema, and the references, which must be local
  and resolve.  Schemas are trees, so the cycle checks of the code never fire.
\<close>

section \<open>Regular expressions\<close>

definition MAX_SAFE_REGEX_PATTERN_LENGTH :: nat where "MAX_SAFE_REGEX_PATTERN_LENGTH = 1024"
definition MAX_SAFE_REGEX_REPETITIONS :: nat where "MAX_SAFE_REGEX_REPETITIONS = 256"
definition MAX_SAFE_REGEX_VARIANTS :: nat where "MAX_SAFE_REGEX_VARIANTS = 256"

text \<open>What follows the first \<open>}\<close>, and what follows the \<open>]\<close> that closes a class.\<close>

fun after_brace :: "jstr \<Rightarrow> jstr option" where
  "after_brace [] = None"
| "after_brace (c # cs) = (if c = 125 then Some cs else after_brace cs)"

fun after_bracket :: "jstr \<Rightarrow> jstr option" where
  "after_bracket [] = None"
| "after_bracket [c] = (if c = 93 then Some [] else None)"
| "after_bracket (c # d # cs) =
     (if c = 92 then after_bracket cs else if c = 93 then Some (d # cs) else after_bracket (d # cs))"

definition digits_value :: "jstr \<Rightarrow> nat" where
  "digits_value = foldl (\<lambda>a c. 10 * a + (c - 48)) 0"

text \<open>
  A counted quantifier after its opening brace: the minimum, the text of the maximum when there
  is a comma, and the rest of the pattern.
\<close>

definition read_quantifier :: "jstr \<Rightarrow> (jstr \<times> jstr option \<times> jstr) option" where
  "read_quantifier s =
     (let minimum = takeWhile is_digit s; rest = dropWhile is_digit s
      in if minimum = [] then None
         else case rest of
             c # rest' \<Rightarrow>
               if c = 125 then Some (minimum, None, rest')
               else if c = 44
               then (let maximum = takeWhile is_digit rest'
                  in case dropWhile is_digit rest' of
                      d # rest'' \<Rightarrow> if d = 125 then Some (minimum, Some maximum, rest'') else None
                    | [] \<Rightarrow> None)
               else None
           | [] \<Rightarrow> None)"

lemma after_brace_length: "after_brace s = Some r \<Longrightarrow> length r < length s"
  by (induction s) (auto split: if_splits)

lemma after_bracket_length: "after_bracket s = Some r \<Longrightarrow> length r < length s"
  by (induction s rule: after_bracket.induct) (auto split: if_splits)

lemma read_quantifier_length: "read_quantifier s = Some (a, b, r) \<Longrightarrow> length r < length s"
proof -
  assume "read_quantifier s = Some (a, b, r)"
  moreover have "length (dropWhile is_digit t) \<le> length t" for t by (rule length_dropWhile_le)
  ultimately show ?thesis
    using length_dropWhile_le [of is_digit s]
    by (auto simp: read_quantifier_def Let_def split: if_splits list.splits)
       (metis Suc_le_eq length_Cons length_dropWhile_le less_SucI order.strict_trans)+
qed

text \<open>
  The scan: whether something can be quantified, the number of unbounded quantifiers, and the
  number of variants of the counted ones; \<open>True\<close> when no unsupported construct is found.
\<close>

function (sequential) scan_pattern :: "jstr \<Rightarrow> bool \<Rightarrow> nat \<Rightarrow> nat \<Rightarrow> bool" where
  "scan_pattern [] canQuantify unbounded variants = True"
| "scan_pattern (c # rest) canQuantify unbounded variants =
     (if c = 92
      then (case rest of
          [] \<Rightarrow> True
        | e # rest' \<Rightarrow>
            if (49 \<le> e \<and> e \<le> 57) \<or> e = 107 then False
            else if e = 112 \<or> e = 80 \<or> (e = 117 \<and> take 1 rest' = [123])
            then (case after_brace rest' of
                Some r \<Rightarrow> scan_pattern r True unbounded variants
              | None \<Rightarrow> scan_pattern rest True unbounded variants)
            else scan_pattern rest' True unbounded variants)
      else if c = 91
      then (case after_bracket rest of
          Some r \<Rightarrow> scan_pattern r True unbounded variants
        | None \<Rightarrow> scan_pattern rest True unbounded variants)
      else if c = 40 \<or> c = 41 \<or> c = 124 \<or> c = 63 then False
      else if c = 42 \<or> c = 43
      then (if \<not> canQuantify \<or> Suc unbounded > 1 then False
            else scan_pattern rest False (Suc unbounded) variants)
      else if c = 123 \<and> canQuantify
      then (case read_quantifier rest of
          Some (minimum_text, maximum_text, r) \<Rightarrow>
            (let minimum = digits_value minimum_text;
                 maximum = (case maximum_text of None \<Rightarrow> minimum | Some t \<Rightarrow> digits_value t)
             in if maximum_text = Some [] \<or> \<not> is_safe_integer (Fin (of_nat minimum)) \<or>
                   \<not> is_safe_integer (Fin (of_nat maximum))
                then (if Suc unbounded > 1 then False else scan_pattern r False (Suc unbounded) variants)
                else if minimum > maximum \<or> maximum > MAX_SAFE_REGEX_REPETITIONS \<or>
                   minimum > MAX_SAFE_REGEX_REPETITIONS
                then False
                else (let variants' = variants * (maximum - minimum + 1)
                   in if variants' > MAX_SAFE_REGEX_VARIANTS then False
                      else scan_pattern r False unbounded variants'))
        | None \<Rightarrow> scan_pattern rest True unbounded variants)
      else scan_pattern rest True unbounded variants)"
  by pat_completeness auto
termination
  by (relation "measure (\<lambda>(s, _). length s)")
     (auto dest: after_brace_length after_bracket_length read_quantifier_length)

declare scan_pattern.simps(2) [simp del]

definition validateRegexPattern :: "wire_env \<Rightarrow> jstr \<Rightarrow> jstr \<Rightarrow> string \<Rightarrow> unit checked" where
  "validateRegexPattern env pattern path keyword = checks
     [require (length pattern \<le> MAX_SAFE_REGEX_PATTERN_LENGTH)
        (keyword_issue VC_incompatible path ''regular expression exceeds the safety limit'' keyword),
      require (we_regex_ok env pattern)
        (keyword_issue VC_malformed path ''pattern is not a valid regular expression'' keyword),
      require (scan_pattern pattern False 0 1)
        (keyword_issue VC_incompatible path ''regular expression uses unsupported or unsafe constructs'' keyword)]"

section \<open>Keywords\<close>

definition JSON_SCHEMA_DRAFT_2020_12 :: string where
  "JSON_SCHEMA_DRAFT_2020_12 = ''https://json-schema.org/draft/2020-12/schema''"

definition JSON_SCHEMA_TYPES :: "string list" where
  "JSON_SCHEMA_TYPES = [''null'', ''boolean'', ''object'', ''array'', ''number'', ''integer'', ''string'']"

definition FORMAT_ASSERTION_VOCABULARY :: string where
  "FORMAT_ASSERTION_VOCABULARY = ''https://json-schema.org/draft/2020-12/vocab/format-assertion''"

definition SUPPORTED_REQUIRED_VOCABULARIES :: "string list" where
  "SUPPORTED_REQUIRED_VOCABULARIES =
     [''https://json-schema.org/draft/2020-12/vocab/core'',
      ''https://json-schema.org/draft/2020-12/vocab/applicator'',
      ''https://json-schema.org/draft/2020-12/vocab/validation'',
      ''https://json-schema.org/draft/2020-12/vocab/meta-data'',
      ''https://json-schema.org/draft/2020-12/vocab/format-annotation'',
      ''https://json-schema.org/draft/2020-12/vocab/content'']"

definition SCHEMA_ANCHOR_PATTERN :: "jstr \<Rightarrow> bool" where
  "SCHEMA_ANCHOR_PATTERN s \<longleftrightarrow>
     (case s of
        [] \<Rightarrow> False
      | c # rest \<Rightarrow> (is_lower c \<or> is_upper c) \<and> list_all (\<lambda>c. is_alnum c \<or> c = 46 \<or> c = 95 \<or> c = 45) rest)"

text \<open>The empty reference, or a fragment without white space.\<close>

definition LOCAL_REFERENCE_PATTERN :: "jstr \<Rightarrow> bool" where
  "LOCAL_REFERENCE_PATTERN s \<longleftrightarrow>
     (case s of [] \<Rightarrow> True | c # rest \<Rightarrow> c = 35 \<and> \<not> list_ex is_space rest)"

definition validateSchemaKeywordType ::
  "(jstr \<times> jsval) list \<Rightarrow> string \<Rightarrow> jstr \<Rightarrow> (jsval \<Rightarrow> bool) \<Rightarrow> string \<Rightarrow> unit checked" where
  "validateSchemaKeywordType schema key path expected reason =
     if_own schema key (\<lambda>v. require (expected v) (keyword_issue VC_malformed (dot path key) reason key))"

fun isFiniteNumber :: "jsval \<Rightarrow> bool" where
  "isFiniteNumber (Number n) = is_finite n"
| "isFiniteNumber _ = False"

fun isNonNegativeInteger :: "jsval \<Rightarrow> bool" where
  "isNonNegativeInteger (Number n) = (is_safe_integer n \<and> Fin 0 \<le> n)"
| "isNonNegativeInteger _ = False"

definition isSchemaValue :: "jsval \<Rightarrow> bool" where
  "isSchemaValue v \<longleftrightarrow> is_boolean v \<or> isPlainObject v"

fun number_of :: "jsval \<Rightarrow> jsnum" where
  "number_of (Number n) = n"
| "number_of _ = NaN"

definition is_type_name :: "jsval \<Rightarrow> bool" where
  "is_type_name v \<longleftrightarrow> v \<in> set (map (\<lambda>t. Text (js t)) JSON_SCHEMA_TYPES)"

definition is_type_keyword :: "jsval \<Rightarrow> bool" where
  "is_type_keyword v \<longleftrightarrow> is_type_name v \<or>
     (case v of Array items \<Rightarrow> items \<noteq> [] \<and> distinct items \<and> list_all is_type_name items | _ \<Rightarrow> False)"

definition unique_texts :: "jsval \<Rightarrow> bool" where
  "unique_texts v \<longleftrightarrow> (case v of Array items \<Rightarrow> distinct items \<and> list_all is_text items | _ \<Rightarrow> False)"

definition array_of_schemas :: "jsval \<Rightarrow> bool" where
  "array_of_schemas v \<longleftrightarrow> (case v of Array items \<Rightarrow> list_all isSchemaValue items | _ \<Rightarrow> False)"

text \<open>A reference that is local is recorded with its place.\<close>

definition addSchemaReference :: "jsval \<Rightarrow> jstr \<Rightarrow> string \<Rightarrow> (jstr \<times> jstr) checked" where
  "addSchemaReference v path key =
     (case v of
        Text reference \<Rightarrow>
          if \<not> LOCAL_REFERENCE_PATTERN reference
          then refuse (keyword_issue VC_incompatible (dot path key) ''remote schema references are not supported'' key)
          else Inr (reference, dot path key)
      | _ \<Rightarrow> refuse (keyword_issue VC_malformed (dot path key) ''schema reference must be a string'' key))"

definition own_references :: "(jstr \<times> jsval) list \<Rightarrow> jstr \<Rightarrow> (jstr \<times> jstr) list checked" where
  "own_references schema path =
     (case own schema ''$ref'' of
        None \<Rightarrow> Inr []
      | Some v \<Rightarrow> bindC (addSchemaReference v path ''$ref'') (\<lambda>r. Inr [r]))"

definition schema_version :: "(jstr \<times> jsval) list \<Rightarrow> jstr \<Rightarrow> unit checked" where
  "schema_version schema path = if_own schema ''$schema''
     (\<lambda>v. checks
       [require (is_text v) (keyword_issue VC_malformed (dot path ''$schema'') ''$schema must be a string'' ''$schema''),
        require (v = Text (js JSON_SCHEMA_DRAFT_2020_12)) (keyword_issue VC_incompatible (dot path ''$schema'')
          ''only JSON Schema Draft 2020-12 is supported'' ''$schema'')])"

text \<open>Keywords that are refused wherever they occur.\<close>

definition unsupported :: "(jstr \<times> jsval) list \<Rightarrow> jstr \<Rightarrow> string \<Rightarrow> string \<Rightarrow> unit checked" where
  "unsupported schema path key reason =
     require (\<not> has_own schema key) (keyword_issue VC_incompatible (dot path key) reason key)"

definition schema_anchor :: "(jstr \<times> jsval) list \<Rightarrow> jstr \<Rightarrow> unit checked" where
  "schema_anchor schema path = validateSchemaKeywordType schema ''$anchor'' path
     (\<lambda>v. case v of Text t \<Rightarrow> SCHEMA_ANCHOR_PATTERN t | _ \<Rightarrow> False) ''schema anchor is invalid''"

definition vocabulary_entry :: "jstr \<Rightarrow> jstr \<times> jsval \<Rightarrow> unit checked" where
  "vocabulary_entry path entry =
     (let place = dot path ''$vocabulary'' @ 46 # fst entry
      in checks
       [require (is_boolean (snd entry))
          (keyword_issue VC_malformed place ''vocabulary requirement must be boolean'' ''$vocabulary''),
        require (snd entry = Boolean True \<longrightarrow> fst entry \<in> set (map js SUPPORTED_REQUIRED_VOCABULARIES))
          (keyword_issue VC_incompatible place
            (if fst entry = js FORMAT_ASSERTION_VOCABULARY then ''format assertion vocabulary is not enabled''
             else ''required schema vocabulary is not supported'') ''$vocabulary'')])"

definition schema_vocabulary :: "(jstr \<times> jsval) list \<Rightarrow> jstr \<Rightarrow> unit checked" where
  "schema_vocabulary schema path = if_own schema ''$vocabulary''
     (\<lambda>v. case v of
        Object entries \<Rightarrow> checks (map (vocabulary_entry path) entries)
      | _ \<Rightarrow> refuse (keyword_issue VC_malformed (dot path ''$vocabulary'') ''$vocabulary must be an object''
               ''$vocabulary''))"

definition count_keywords :: "(jstr \<times> jsval) list \<Rightarrow> jstr \<Rightarrow> string list \<Rightarrow> unit checked" where
  "count_keywords schema path keys = checks (map (\<lambda>key.
     validateSchemaKeywordType schema key path isNonNegativeInteger (key @ '' must be a non-negative integer'')) keys)"

definition number_keywords :: "(jstr \<times> jsval) list \<Rightarrow> jstr \<Rightarrow> unit checked" where
  "number_keywords schema path = checks
     (map (\<lambda>key. validateSchemaKeywordType schema key path isFiniteNumber (key @ '' must be a finite number''))
       [''minimum'', ''maximum'', ''exclusiveMinimum'', ''exclusiveMaximum'', ''multipleOf''] @
      [validateSchemaKeywordType schema ''multipleOf'' path
         (\<lambda>v. isFiniteNumber v \<and> \<not> number_of v \<le> Fin 0) ''multipleOf must be greater than zero''])"

definition contains_counts :: "(jstr \<times> jsval) list \<Rightarrow> jstr \<Rightarrow> unit checked" where
  "contains_counts schema path =
     (case (own schema ''minContains'', own schema ''maxContains'') of
        (Some minContains, Some maxContains) \<Rightarrow>
          require (\<not> (isNonNegativeInteger minContains \<and> isNonNegativeInteger maxContains \<and>
              number_of maxContains < number_of minContains))
            (keyword_issue VC_malformed path ''minContains must not exceed maxContains'' ''minContains'')
      | _ \<Rightarrow> Inr ())"

definition required_keywords :: "(jstr \<times> jsval) list \<Rightarrow> jstr \<Rightarrow> unit checked" where
  "required_keywords schema path = checks
     [validateSchemaKeywordType schema ''required'' path unique_texts ''required must be an array of unique strings'',
      if_own schema ''dependentRequired''
        (\<lambda>v. case v of
           Object entries \<Rightarrow> checks (map (\<lambda>entry. require (unique_texts (snd entry))
             (keyword_issue VC_malformed (dot path ''dependentRequired'' @ 46 # fst entry)
               ''dependency must be an array of unique strings'' ''dependentRequired'')) entries)
         | _ \<Rightarrow> refuse (keyword_issue VC_malformed (dot path ''dependentRequired'')
                  ''dependentRequired must be an object'' ''dependentRequired''))]"

definition schema_pattern :: "wire_env \<Rightarrow> (jstr \<times> jsval) list \<Rightarrow> jstr \<Rightarrow> unit checked" where
  "schema_pattern env schema path = if_own schema ''pattern''
     (\<lambda>v. case v of
        Text pattern \<Rightarrow> validateRegexPattern env pattern (dot path ''pattern'') ''pattern''
      | _ \<Rightarrow> refuse (keyword_issue VC_malformed (dot path ''pattern'') ''pattern must be a string'' ''pattern''))"

definition SCHEMA_MAP_KEYWORDS :: "string list" where
  "SCHEMA_MAP_KEYWORDS = [''$defs'', ''definitions'', ''dependentSchemas'', ''patternProperties'', ''properties'']"

definition schema_map :: "wire_env \<Rightarrow> (jstr \<times> jsval) list \<Rightarrow> jstr \<Rightarrow> string \<Rightarrow> unit checked" where
  "schema_map env schema path key = if_own schema key
     (\<lambda>v. case v of
        Object entries \<Rightarrow>
          if key = ''patternProperties''
          then checks (map (\<lambda>entry. validateRegexPattern env (fst entry) (dot path key @ 46 # fst entry) key) entries)
          else Inr ()
      | _ \<Rightarrow> refuse (keyword_issue VC_malformed (dot path key) (key @ '' must be an object of schemas'') key))"

text \<open>Everything that is checked at one subschema before its children, after its reference.\<close>

definition schema_guards :: "wire_env \<Rightarrow> (jstr \<times> jsval) list \<Rightarrow> jstr \<Rightarrow> unit checked" where
  "schema_guards env schema path = checks
     ([unsupported schema path ''$dynamicRef'' ''$dynamicRef is not supported'',
       unsupported schema path ''$recursiveRef'' ''$recursiveRef is not supported'',
       schema_anchor schema path,
       unsupported schema path ''$dynamicAnchor'' ''dynamic anchors are not supported'',
       schema_vocabulary schema path,
       validateSchemaKeywordType schema ''type'' path is_type_keyword
         ''type must be a JSON Schema type name or a non-empty array of unique type names'',
       count_keywords schema path
         [''minLength'', ''maxLength'', ''minItems'', ''maxItems'', ''minProperties'', ''maxProperties''],
       number_keywords schema path,
       count_keywords schema path [''minContains'', ''maxContains''],
       contains_counts schema path,
       required_keywords schema path,
       count_keywords schema path [''minProperties'', ''maxProperties''],
       validateSchemaKeywordType schema ''enum'' path
         (\<lambda>v. case v of Array items \<Rightarrow> items \<noteq> [] | _ \<Rightarrow> False) ''enum must be a non-empty array''] @
      map (\<lambda>key. validateSchemaKeywordType schema key path array_of_schemas (key @ '' must be an array of schemas''))
        [''allOf'', ''anyOf'', ''oneOf''] @
      map (\<lambda>key. validateSchemaKeywordType schema key path is_text (key @ '' must be a string''))
        [''format'', ''pattern'', ''contentEncoding'', ''contentMediaType''] @
      [schema_pattern env schema path,
       validateSchemaKeywordType schema ''uniqueItems'' path is_boolean ''uniqueItems must be boolean'',
       unsupported schema path ''unevaluatedItems'' ''unevaluatedItems is not supported'',
       unsupported schema path ''unevaluatedProperties'' ''unevaluatedProperties is not supported'',
       validateSchemaKeywordType schema ''contains'' path isSchemaValue ''contains must be a schema''] @
      map (schema_map env schema path) SCHEMA_MAP_KEYWORDS @
      [validateSchemaKeywordType schema ''prefixItems'' path is_array ''prefixItems must be an array of schemas''])"

section \<open>Subschemas\<close>

definition SCHEMA_CHILD_KEYWORDS :: "string list" where
  "SCHEMA_CHILD_KEYWORDS =
     [''additionalProperties'', ''contains'', ''else'', ''if'', ''items'', ''not'', ''propertyNames'', ''then'']"

definition COMBINATOR_KEYWORDS :: "string list" where
  "COMBINATOR_KEYWORDS = [''allOf'', ''anyOf'', ''oneOf'']"

text \<open>The children at a keyword, each with the last part of its path.\<close>

definition single_child :: "(jstr \<times> jsval) list \<Rightarrow> string \<Rightarrow> (jstr \<times> jsval) list" where
  "single_child schema key = (case own schema key of None \<Rightarrow> [] | Some v \<Rightarrow> [(js key, v)])"

definition mapped_children :: "(jstr \<times> jsval) list \<Rightarrow> string \<Rightarrow> (jstr \<times> jsval) list" where
  "mapped_children schema key =
     (case own schema key of
        Some (Object entries) \<Rightarrow> map (\<lambda>(name, child). (js key @ 46 # name, child)) entries
      | _ \<Rightarrow> [])"

definition listed_children :: "(nat \<Rightarrow> jstr) \<Rightarrow> (jstr \<times> jsval) list \<Rightarrow> string \<Rightarrow> (jstr \<times> jsval) list" where
  "listed_children part schema key =
     (case own schema key of
        Some (Array items) \<Rightarrow> map (\<lambda>(index, child). (js key @ part index, child)) (enumerate 0 items)
      | _ \<Rightarrow> [])"

definition dotted_index :: "nat \<Rightarrow> jstr" where
  "dotted_index index = 46 # decimal index"

definition bracket_index :: "nat \<Rightarrow> jstr" where
  "bracket_index index = 91 # decimal index @ [93]"

definition schema_children :: "(jstr \<times> jsval) list \<Rightarrow> (jstr \<times> jsval) list" where
  "schema_children schema =
     concat (map (single_child schema) SCHEMA_CHILD_KEYWORDS) @
     concat (map (mapped_children schema) SCHEMA_MAP_KEYWORDS) @
     listed_children dotted_index schema ''prefixItems''"

definition combinator_children :: "(jstr \<times> jsval) list \<Rightarrow> (jstr \<times> jsval) list" where
  "combinator_children schema = concat (map (listed_children bracket_index schema) COMBINATOR_KEYWORDS)"

lemma own_smaller: "own members key = Some v \<Longrightarrow> size v < size (Object members)"
proof -
  assume "own members key = Some v"
  then have "(js key, v) \<in> set members" unfolding own_def by (rule map_of_SomeD)
  then show ?thesis by (induction members) auto
qed

lemma member_smaller: "m \<in> set members \<Longrightarrow> size (snd m) < size (Object members)"
  by (induction members) auto

lemma item_smaller: "v \<in> set items \<Longrightarrow> size v < size (Array items)"
  by (induction items) auto

lemma single_child_own: "(part, v) \<in> set (single_child schema key) \<longleftrightarrow> own schema key = Some v \<and> part = js key"
  by (cases "own schema key") (auto simp: single_child_def)

lemma mapped_children_own: "(part, v) \<in> set (mapped_children schema key) \<longleftrightarrow>
   (\<exists>entries name. own schema key = Some (Object entries) \<and> (name, v) \<in> set entries \<and> part = js key @ 46 # name)"
proof (cases "own schema key")
  case (Some w)
  then show ?thesis by (cases w) (force simp: mapped_children_def)+
qed (simp add: mapped_children_def)

lemma listed_children_own: "(part, v) \<in> set (listed_children f schema key) \<longleftrightarrow>
   (\<exists>items i. own schema key = Some (Array items) \<and> i < length items \<and> v = items ! i \<and> part = js key @ f i)"
proof (cases "own schema key")
  case (Some w)
  then show ?thesis by (cases w) (force simp: listed_children_def in_set_enumerate_eq)+
qed (simp add: listed_children_def)

lemma single_child_smaller: "(part, v) \<in> set (single_child schema key) \<Longrightarrow> size v < size (Object schema)"
  unfolding single_child_own by (blast dest: own_smaller)

lemma mapped_children_smaller: "(part, v) \<in> set (mapped_children schema key) \<Longrightarrow> size v < size (Object schema)"
  unfolding mapped_children_own using own_smaller member_smaller less_trans by fastforce

lemma listed_children_smaller: "(part, v) \<in> set (listed_children f schema key) \<Longrightarrow> size v < size (Object schema)"
  unfolding listed_children_own using own_smaller item_smaller less_trans nth_mem by blast

lemma children_smaller:
  "(part, v) \<in> set (schema_children schema) \<Longrightarrow> size v < size (Object schema)"
  "(part, v) \<in> set (combinator_children schema) \<Longrightarrow> size v < size (Object schema)"
  unfolding schema_children_def combinator_children_def
  using single_child_smaller mapped_children_smaller listed_children_smaller by fastforce+

text \<open>A loop that stops at the first check that stops.\<close>

fun forC :: "'a list \<Rightarrow> ('a \<Rightarrow> 'b checked) \<Rightarrow> 'b list checked" where
  "forC [] f = Inr []"
| "forC (x # xs) f = bindC (f x) (\<lambda>y. bindC (forC xs f) (\<lambda>ys. Inr (y # ys)))"

lemma forC_cong [fundef_cong]: "xs = ys \<Longrightarrow> (\<And>x. x \<in> set ys \<Longrightarrow> f x = g x) \<Longrightarrow> forC xs f = forC ys g"
  by (induction ys arbitrary: xs) (auto intro!: arg_cong2 [where f = bindC])

lemma bindC_cong [fundef_cong]: "m = m' \<Longrightarrow> (\<And>a. m' = Inr a \<Longrightarrow> k a = k' a) \<Longrightarrow> bindC m k = bindC m' k'"
  by (cases m') (auto simp: bindC_def)

lemma forC_Inr: "forC xs f = Inr ys \<longleftrightarrow> list_all2 (\<lambda>x y. f x = Inr y) xs ys"
  by (induction xs arbitrary: ys) (auto simp: bindC_Inr list_all2_Cons1)

text \<open>\<open>validateSchemaShape\<close>: the references of all subschemas, in the order they are found.\<close>

function validateSchemaShape :: "wire_env \<Rightarrow> jsval \<Rightarrow> jstr \<Rightarrow> (jstr \<times> jstr) list checked" where
  "validateSchemaShape env v path =
     (case v of
        Boolean _ \<Rightarrow> Inr []
      | Object schema \<Rightarrow>
          bindC (schema_version schema path)
          (\<lambda>_. bindC (own_references schema path)
          (\<lambda>found. bindC (schema_guards env schema path)
          (\<lambda>_. bindC (forC (schema_children schema)
               (\<lambda>(part, child).
                  if \<not> isSchemaValue child
                  then refuse \<lparr>ii_code = VC_malformed, ii_path = path @ 46 # part,
                    ii_reason = js ''keyword value must be a schema'', ii_keyword = Some part\<rparr>
                  else validateSchemaShape env child (path @ 46 # part)))
          (\<lambda>below. bindC (forC (combinator_children schema)
               (\<lambda>(part, child). validateSchemaShape env child (path @ 46 # part)))
          (\<lambda>combined. Inr (found @ concat below @ concat combined))))))
      | _ \<Rightarrow> refuse (issue VC_malformed path ''schema must be an object or boolean''))"
  by pat_completeness auto
termination
  by (relation "measure (\<lambda>(env, v, path). size v)") (auto dest: children_smaller)

declare validateSchemaShape.simps [simp del]

section \<open>References\<close>

fun unescape_slash :: "jstr \<Rightarrow> jstr" where
  "unescape_slash (c # d # cs) = (if c = 126 \<and> d = 49 then 47 # unescape_slash cs else c # unescape_slash (d # cs))"
| "unescape_slash cs = cs"

fun unescape_tilde :: "jstr \<Rightarrow> jstr" where
  "unescape_tilde (c # d # cs) = (if c = 126 \<and> d = 48 then 126 # unescape_tilde cs else c # unescape_tilde (d # cs))"
| "unescape_tilde cs = cs"

fun split_slash :: "jstr \<Rightarrow> jstr \<Rightarrow> jstr list" where
  "split_slash [] part = [part]"
| "split_slash (c # cs) part = (if c = 47 then part # split_slash cs [] else split_slash cs (part @ [c]))"

definition pointerDecode :: "wire_env \<Rightarrow> jstr \<Rightarrow> jstr list option" where
  "pointerDecode env s =
     (if s = [] \<or> s = [35] then Some []
      else if take 2 s \<noteq> [35, 47] then None
      else (case we_decodeURI env (drop 1 s) of
          None \<Rightarrow> None
        | Some fragment \<Rightarrow>
            Some (map (\<lambda>token. unescape_tilde (unescape_slash token)) (split_slash (drop 1 fragment) []))))"

definition is_array_index :: "jstr \<Rightarrow> bool" where
  "is_array_index token \<longleftrightarrow> token = [48] \<or>
     (case token of [] \<Rightarrow> False | c # rest \<Rightarrow> 49 \<le> c \<and> c \<le> 57 \<and> list_all is_digit rest)"

text \<open>One step of a pointer; an index past the end of an array reads \<open>undefined\<close>.\<close>

definition pointer_step :: "jsval \<Rightarrow> jstr \<Rightarrow> jsval option" where
  "pointer_step current token =
     (case current of
        Object members \<Rightarrow> map_of members token
      | Array items \<Rightarrow>
          if is_array_index token
          then Some (if digits_value token < length items then items ! digits_value token else Undefined)
          else None
      | _ \<Rightarrow> None)"

fun follow_pointer :: "jsval \<Rightarrow> jstr list \<Rightarrow> jsval option" where
  "follow_pointer current [] = Some current"
| "follow_pointer current (token # tokens) =
     (case pointer_step current token of None \<Rightarrow> None | Some next \<Rightarrow> follow_pointer next tokens)"

definition INDEX_CHILD_KEYWORDS :: "string list" where
  "INDEX_CHILD_KEYWORDS = SCHEMA_CHILD_KEYWORDS @ [''unevaluatedItems'', ''unevaluatedProperties'']"

definition index_children :: "(jstr \<times> jsval) list \<Rightarrow> (jstr \<times> jsval) list" where
  "index_children schema =
     concat (map (mapped_children schema) SCHEMA_MAP_KEYWORDS) @
     concat (map (single_child schema) INDEX_CHILD_KEYWORDS) @
     listed_children dotted_index schema ''prefixItems'' @
     concat (map (listed_children bracket_index schema) COMBINATOR_KEYWORDS)"

lemma index_children_smaller:
  "(part, v) \<in> set (index_children schema) \<Longrightarrow> size v < size (Object schema)"
  unfolding index_children_def
  using single_child_smaller mapped_children_smaller listed_children_smaller by fastforce

definition named_anchor :: "(jstr \<times> jsval) list \<Rightarrow> string \<Rightarrow> (jstr \<times> jsval) list" where
  "named_anchor schema key =
     (case own schema key of Some (Text name) \<Rightarrow> [(name, Object schema)] | _ \<Rightarrow> [])"

text \<open>The anchors in the order they are set; a later one replaces an earlier one of its name.\<close>

function collect_anchors :: "jsval \<Rightarrow> (jstr \<times> jsval) list" where
  "collect_anchors v =
     (case v of
        Object schema \<Rightarrow>
          named_anchor schema ''$anchor'' @ named_anchor schema ''$dynamicAnchor'' @
          concat (map (\<lambda>(part, child). if isSchemaValue child then collect_anchors child else [])
            (index_children schema))
      | _ \<Rightarrow> [])"
  by pat_completeness auto
termination
  by (relation "measure size") (auto dest: index_children_smaller)

declare collect_anchors.simps [simp del]

record schema_index =
  ix_root :: jsval
  ix_anchors :: "(jstr \<times> jsval) list"

definition collectSchemaIndex :: "jsval \<Rightarrow> schema_index" where
  "collectSchemaIndex schema = \<lparr>ix_root = schema, ix_anchors = collect_anchors schema\<rparr>"

definition resolveSchemaReference :: "wire_env \<Rightarrow> schema_index \<Rightarrow> jstr \<Rightarrow> jsval option" where
  "resolveSchemaReference env index reference =
     (if reference = [] \<or> take 1 reference = [35]
      then (case pointerDecode env reference of
          Some pointer \<Rightarrow>
            (case follow_pointer (ix_root index) pointer of
               None \<Rightarrow> None
             | Some v \<Rightarrow> if isSchemaValue v then Some v else None)
        | None \<Rightarrow>
            if length reference > 1 then map_of (rev (ix_anchors index)) (drop 1 reference) else None)
      else None)"

definition validateSchemaReferences :: "wire_env \<Rightarrow> schema_index \<Rightarrow> (jstr \<times> jstr) list \<Rightarrow> unit checked" where
  "validateSchemaReferences env index references = checks (map (\<lambda>(reference, path).
     require (resolveSchemaReference env index reference \<noteq> None)
       (keyword_issue VC_malformed path ''schema reference does not resolve locally'' ''$ref'')) references)"

section \<open>validateJsonSchema\<close>

definition validateJsonSchema :: "wire_env \<Rightarrow> validation_options \<Rightarrow> jsval \<Rightarrow> jsval validated" where
  "validateJsonSchema env options schema =
     (case resolveLimits options of Inl x \<Rightarrow> Inl x | Inr limits \<Rightarrow>
     (case measureJsonBytes env options schema (rl_maxSchemaBytes limits) of
        Inl x \<Rightarrow> Inl x
      | Inr (Too_large _) \<Rightarrow> validationFailure env VC_oversized ''response schema exceeds the size limit''
          (js ''$'') (js ''schema exceeds maxSchemaBytes'') None
      | Inr (Unmeasurable path reason) \<Rightarrow>
          validationFailure env VC_malformed ''response schema is malformed'' path reason None
      | Inr (Measured _) \<Rightarrow>
          if \<not> isSchemaValue schema
          then validationFailure env VC_malformed ''response schema is malformed'' (js ''$'')
            (js ''schema must be an object or boolean'') None
          else (case outcome_of (internalIssueFailure env)
                 (bindC (validateSchemaShape env schema (js ''$''))
                   (validateSchemaReferences env (collectSchemaIndex schema))) of
              Inl x \<Rightarrow> Inl x
            | Inr (Inl e) \<Rightarrow> Inr (Inl e)
            | Inr (Inr _) \<Rightarrow>
                if we_compile env schema = None
                then validationFailure env VC_malformed
                  ''response schema is not supported by Draft 2020-12 validation'' (js ''$'')
                  (js ''schema compilation failed'') None
                else Inr (Inr schema))))"

section \<open>What every subschema of an accepted schema satisfies\<close>

inductive subschema :: "jsval \<Rightarrow> jsval \<Rightarrow> bool" for schema where
  whole_schema: "subschema schema schema"
| child_schema: "subschema schema (Object members) \<Longrightarrow>
    (part, v) \<in> set (schema_children members) \<union> set (combinator_children members) \<Longrightarrow> subschema schema v"

definition safe_pattern :: "wire_env \<Rightarrow> jstr \<Rightarrow> bool" where
  "safe_pattern env p \<longleftrightarrow> length p \<le> MAX_SAFE_REGEX_PATTERN_LENGTH \<and> we_regex_ok env p \<and> scan_pattern p False 0 1"

definition node_ok :: "wire_env \<Rightarrow> schema_index \<Rightarrow> jsval \<Rightarrow> bool" where
  "node_ok env index s \<longleftrightarrow>
     (case s of
        Boolean _ \<Rightarrow> True
      | Object ms \<Rightarrow>
          (\<forall>v. own ms ''$schema'' = Some v \<longrightarrow> v = Text (js JSON_SCHEMA_DRAFT_2020_12)) \<and>
          (\<forall>v. own ms ''$ref'' = Some v \<longrightarrow>
             (\<exists>t. v = Text t \<and> LOCAL_REFERENCE_PATTERN t \<and> resolveSchemaReference env index t \<noteq> None)) \<and>
          (\<forall>k \<in> {''$dynamicRef'', ''$recursiveRef'', ''$dynamicAnchor'', ''unevaluatedItems'', ''unevaluatedProperties''}.
             \<not> has_own ms k) \<and>
          (\<forall>v. own ms ''pattern'' = Some v \<longrightarrow> (\<exists>t. v = Text t \<and> safe_pattern env t)) \<and>
          (\<forall>v. own ms ''patternProperties'' = Some v \<longrightarrow>
             (\<exists>entries. v = Object entries \<and> (\<forall>e \<in> set entries. safe_pattern env (fst e))))
      | _ \<Rightarrow> False)"

lemma validateRegexPattern_Inr: "validateRegexPattern env p path k = Inr u \<longleftrightarrow> safe_pattern env p"
  by (auto simp: validateRegexPattern_def safe_pattern_def checks_Inr)

lemma shape_object:
  assumes "validateSchemaShape env (Object ms) path = Inr refs"
  obtains found below combined where
    "schema_version ms path = Inr ()" "own_references ms path = Inr found" "schema_guards env ms path = Inr ()"
    "list_all2 (\<lambda>(part, child) r. isSchemaValue child \<and> validateSchemaShape env child (path @ 46 # part) = Inr r)
       (schema_children ms) below"
    "list_all2 (\<lambda>(part, child) r. validateSchemaShape env child (path @ 46 # part) = Inr r)
       (combinator_children ms) combined"
    "refs = found @ concat below @ concat combined"
proof -
  obtain found below combined where
    *: "schema_version ms path = Inr ()" "own_references ms path = Inr found" "schema_guards env ms path = Inr ()"
    and b: "forC (schema_children ms)
               (\<lambda>(part, child).
                  if \<not> isSchemaValue child
                  then refuse \<lparr>ii_code = VC_malformed, ii_path = path @ 46 # part,
                    ii_reason = js ''keyword value must be a schema'', ii_keyword = Some part\<rparr>
                  else validateSchemaShape env child (path @ 46 # part)) = Inr below"
    and c: "forC (combinator_children ms)
       (\<lambda>(part, child). validateSchemaShape env child (path @ 46 # part)) = Inr combined"
    and r: "refs = found @ concat below @ concat combined"
    using assms by (subst (asm) validateSchemaShape.simps) (auto simp: bindC_Inr)
  have "list_all2 (\<lambda>(part, child) r. isSchemaValue child \<and> validateSchemaShape env child (path @ 46 # part) = Inr r)
       (schema_children ms) below"
    using b unfolding forC_Inr by (rule list_all2_mono) (auto split: if_splits)
  moreover have "list_all2 (\<lambda>(part, child) r. validateSchemaShape env child (path @ 46 # part) = Inr r)
       (combinator_children ms) combined"
    using c unfolding forC_Inr by (rule list_all2_mono) auto
  ultimately show thesis using that * r by blast
qed

lemma list_all2_member: "list_all2 P xs ys \<Longrightarrow> x \<in> set xs \<Longrightarrow> \<exists>y \<in> set ys. P x y"
  by (induction rule: list_all2_induct) auto

lemma shape_of_subschema:
  assumes "subschema schema t" and "validateSchemaShape env schema path = Inr refs"
  shows "\<exists>p r. validateSchemaShape env t p = Inr r \<and> set r \<subseteq> set refs"
  using assms
proof (induction rule: subschema.induct)
  case whole_schema
  then show ?case by blast
next
  case (child_schema ms part v)
  then obtain p r where shape: "validateSchemaShape env (Object ms) p = Inr r" and sub: "set r \<subseteq> set refs"
    by blast
  from shape obtain found below combined where
    b: "list_all2 (\<lambda>(part, child) r. isSchemaValue child \<and> validateSchemaShape env child (p @ 46 # part) = Inr r)
       (schema_children ms) below"
    and c: "list_all2 (\<lambda>(part, child) r. validateSchemaShape env child (p @ 46 # part) = Inr r)
       (combinator_children ms) combined"
    and r: "r = found @ concat below @ concat combined"
    by (rule shape_object)
  have "\<exists>q \<in> set below \<union> set combined. validateSchemaShape env v (p @ 46 # part) = Inr q"
    using child_schema(2) list_all2_member [OF b, of "(part, v)"] list_all2_member [OF c, of "(part, v)"]
    by auto
  then obtain q where "q \<in> set below \<union> set combined" and v: "validateSchemaShape env v (p @ 46 # part) = Inr q"
    by blast
  then have "set q \<subseteq> set refs" using r sub by auto
  then show ?case using v by blast
qed

lemma shape_node:
  assumes "validateSchemaShape env t path = Inr refs"
    and "\<forall>(r, p) \<in> set refs. resolveSchemaReference env index r \<noteq> None"
  shows "node_ok env index t"
proof (cases t)
  case (Object ms)
  from assms(1) obtain found below combined where
    v: "schema_version ms path = Inr ()" and f: "own_references ms path = Inr found"
    and g: "schema_guards env ms path = Inr ()" and r: "refs = found @ concat below @ concat combined"
    unfolding Object by (rule shape_object)
  have guards: "unsupported ms path ''$dynamicRef'' ''$dynamicRef is not supported'' = Inr ()"
    "unsupported ms path ''$recursiveRef'' ''$recursiveRef is not supported'' = Inr ()"
    "unsupported ms path ''$dynamicAnchor'' ''dynamic anchors are not supported'' = Inr ()"
    "unsupported ms path ''unevaluatedItems'' ''unevaluatedItems is not supported'' = Inr ()"
    "unsupported ms path ''unevaluatedProperties'' ''unevaluatedProperties is not supported'' = Inr ()"
    "schema_pattern env ms path = Inr ()" "schema_map env ms path ''patternProperties'' = Inr ()"
    using g unfolding schema_guards_def checks_Inr SCHEMA_MAP_KEYWORDS_def
    by (simp_all only: list.map append.simps list.set ball_simps simp_thms)
  have own_ref: "\<exists>t. w = Text t \<and> LOCAL_REFERENCE_PATTERN t \<and> resolveSchemaReference env index t \<noteq> None"
    if "own ms ''$ref'' = Some w" for w
    using f that assms(2) r
    by (cases w) (auto simp: own_references_def addSchemaReference_def bindC_Inr split: if_splits)
  have pattern: "\<exists>t. w = Text t \<and> safe_pattern env t" if "own ms ''pattern'' = Some w" for w
    using guards(6) that
    by (cases w) (auto simp: schema_pattern_def if_own_def validateRegexPattern_Inr)
  have props: "\<exists>entries. w = Object entries \<and> (\<forall>e \<in> set entries. safe_pattern env (fst e))"
    if "own ms ''patternProperties'' = Some w" for w
    using guards(7) that
    by (cases w) (auto simp: schema_map_def if_own_def checks_Inr validateRegexPattern_Inr)
  have version: "w = Text (js JSON_SCHEMA_DRAFT_2020_12)" if "own ms ''$schema'' = Some w" for w
    using v that by (simp add: schema_version_def if_own_def checks_Inr)
  show ?thesis
    using guards(1-5) own_ref pattern props version unfolding node_ok_def Object by (simp add: unsupported_def)
qed (use assms(1) in \<open>auto simp: validateSchemaShape.simps node_ok_def\<close>)

lemma validateJsonSchema_ok:
  assumes "validateJsonSchema env options schema = Inr (Inr s)"
  obtains limits refs n where "s = schema" "resolveLimits options = Inr limits"
    "measureJsonBytes env options schema (rl_maxSchemaBytes limits) = Inr (Measured n)"
    "validateSchemaShape env schema (js ''$'') = Inr refs"
    "validateSchemaReferences env (collectSchemaIndex schema) refs = Inr ()"
    "we_compile env schema \<noteq> None"
proof -
  obtain limits where l: "resolveLimits options = Inr limits"
    using assms by (cases "resolveLimits options") (auto simp: validateJsonSchema_def)
  obtain n where m: "measureJsonBytes env options schema (rl_maxSchemaBytes limits) = Inr (Measured n)"
    using assms l by (auto simp: validateJsonSchema_def split: sum.splits measure_result.splits)
  have "(case outcome_of (internalIssueFailure env)
                 (bindC (validateSchemaShape env schema (js ''$''))
                   (validateSchemaReferences env (collectSchemaIndex schema))) of
              Inl x \<Rightarrow> Inl x
            | Inr (Inl e) \<Rightarrow> Inr (Inl e)
            | Inr (Inr _) \<Rightarrow>
                if we_compile env schema = None
                then validationFailure env VC_malformed
                  ''response schema is not supported by Draft 2020-12 validation'' (js ''$'')
                  (js ''schema compilation failed'') None
                else Inr (Inr schema)) = Inr (Inr s)"
    using assms l m by (auto simp: validateJsonSchema_def split: if_splits)
  then have "bindC (validateSchemaShape env schema (js ''$''))
                   (validateSchemaReferences env (collectSchemaIndex schema)) = Inr ()"
    and "we_compile env schema \<noteq> None" and "s = schema"
    by (auto simp: outcome_of_def split: sum.splits stop.splits if_splits)
  then show thesis using that l m by (auto simp: bindC_Inr)
qed

lemma accepted_subschema_ok:
  assumes "validateJsonSchema env options schema = Inr (Inr s)" and "subschema schema t"
  shows "node_ok env (collectSchemaIndex schema) t"
proof -
  obtain refs where shape: "validateSchemaShape env schema (js ''$'') = Inr refs"
    and refs: "validateSchemaReferences env (collectSchemaIndex schema) refs = Inr ()"
    using assms(1) by (rule validateJsonSchema_ok)
  obtain p r where t: "validateSchemaShape env t p = Inr r" and sub: "set r \<subseteq> set refs"
    using shape_of_subschema [OF assms(2) shape] by blast
  have "\<forall>(r, p) \<in> set refs. resolveSchemaReference env (collectSchemaIndex schema) r \<noteq> None"
    using refs by (auto simp: validateSchemaReferences_def checks_Inr)
  then show ?thesis using shape_node [OF t] sub by blast
qed

section \<open>A reference may leave the checked part\<close>

text \<open>
  A platform for the examples: every text is a regular expression, every schema compiles, and a
  fragment is decoded to itself.
\<close>

definition sample_wire_env :: wire_env where
  "sample_wire_env =
     \<lparr>we_numtext = sample_numtext, we_dates = \<lparr>date_parse = (\<lambda>_. NaN), date_iso = (\<lambda>_. [])\<rparr>, we_now = 0,
      we_regex_ok = (\<lambda>_. True), we_regex_test = (\<lambda>_ _. True), we_compile = (\<lambda>_. Some (\<lambda>_. True)),
      we_decodeURI = Some, we_parse = (\<lambda>_. None), we_divide = (\<lambda>p q. Fin (p / q)), we_sha256 = (\<lambda>s. s)\<rparr>"

definition evasive_target :: jsval where
  "evasive_target = Object [(js ''pattern'', Text (js ''(a+)+''))]"

definition evasive_schema :: jsval where
  "evasive_schema = Object [(js ''$ref'', Text (js ''#/x'')), (js ''x'', evasive_target)]"

lemmas evaluate_schema = evasive_schema_def evasive_target_def own_def has_own_def if_own_def js_def
  checks.simps bindC_def require_def refuse_def

lemma default_limits: "resolveLimits default_options =
  Inr \<lparr>rl_maxEnvelopeBytes = 1048576, rl_maxSchemaBytes = 65536, rl_maxDepth = 128, rl_maxNodes = 200000,
    rl_maxRequestTtlMs = 3600000, rl_maxControlTtlMs = 30000\<rparr>"
  by (simp add: resolveLimits_def default_options_def no_limit_overrides_def createProtocolConfig_def
      DEFAULT_PROTOCOL_LIMITS_def V1_LIMIT_CEILINGS_def DEFAULT_REQUEST_TTL_MS_def MAX_REQUEST_TTL_MS_def
      MAX_CONTROL_TTL_MS_def MAX_ENVELOPE_BYTES_def MAX_SCHEMA_BYTES_def DEFAULT_QUEUE_LIMIT_def
      override_def check_limit_def resolvePositiveLimit_def depth_limit_def node_limit_def Let_def
      DEFAULT_VALIDATION_MAX_DEPTH_def DEFAULT_VALIDATION_MAX_NODES_def max_safe_integer_def)

lemma default_depth: "depth_limit default_options = Inr 128" "node_limit default_options = Inr 200000"
  by (simp_all add: depth_limit_def node_limit_def default_options_def resolvePositiveLimit_def Let_def
      DEFAULT_VALIDATION_MAX_DEPTH_def DEFAULT_VALIDATION_MAX_NODES_def max_safe_integer_def)

lemma evasive_target_refused:
  "validateSchemaShape env evasive_target path \<noteq> Inr refs"
proof
  assume shape: "validateSchemaShape env evasive_target path = Inr refs"
  then obtain r where "schema_guards env [(js ''pattern'', Text (js ''(a+)+''))] path = Inr ()"
    unfolding evasive_target_def by (rule shape_object)
  then have "schema_pattern env [(js ''pattern'', Text (js ''(a+)+''))] path = Inr ()"
    unfolding schema_guards_def checks_Inr
    by (simp_all only: list.map append.simps list.set ball_simps simp_thms)
  then have "scan_pattern (js ''(a+)+'') False 0 1"
    by (simp add: schema_pattern_def if_own_def own_def validateRegexPattern_Inr safe_pattern_def)
  then show False by (simp add: js_def scan_pattern.simps)
qed

lemma evasive_measured: "measureJsonBytes sample_wire_env default_options evasive_schema 65536 = Inr (Measured 38)"
  by (simp add: measureJsonBytes_def default_depth measure_in_def whole_def evasive_schema_def evasive_target_def
      measure_json.simps js_def jsonStringByteLength_def addMeasuredBytes_def Let_def max_safe_integer_def)

lemma evasive_children:
  "schema_children [(js ''$ref'', Text (js ''#/x'')), (js ''x'', evasive_target)] = []"
  "combinator_children [(js ''$ref'', Text (js ''#/x'')), (js ''x'', evasive_target)] = []"
  by (simp_all add: schema_children_def combinator_children_def single_child_def mapped_children_def
      listed_children_def SCHEMA_CHILD_KEYWORDS_def SCHEMA_MAP_KEYWORDS_def COMBINATOR_KEYWORDS_def own_def js_def)

lemma evasive_guards:
  "schema_guards env [(js ''$ref'', Text (js ''#/x'')), (js ''x'', evasive_target)] path = Inr ()"
  by (simp add: schema_guards_def checks_Inr unsupported_def schema_anchor_def schema_vocabulary_def
      validateSchemaKeywordType_def count_keywords_def number_keywords_def contains_counts_def
      required_keywords_def schema_pattern_def schema_map_def SCHEMA_MAP_KEYWORDS_def if_own_Inr
      has_own_def own_def js_def)

lemma evasive_first:
  "schema_version [(js ''$ref'', Text (js ''#/x'')), (js ''x'', evasive_target)] path = Inr ()"
  "own_references [(js ''$ref'', Text (js ''#/x'')), (js ''x'', evasive_target)] path =
     Inr [(js ''#/x'', dot path ''$ref'')]"
  by (simp_all add: schema_version_def own_references_def bindC_def addSchemaReference_def if_own_def own_def
      js_def LOCAL_REFERENCE_PATTERN_def is_space_def in_range_def)

lemma evasive_shape: "validateSchemaShape env evasive_schema path = Inr [(js ''#/x'', dot path ''$ref'')]"
  unfolding evasive_schema_def
  by (subst validateSchemaShape.simps) (simp add: evasive_first evasive_guards evasive_children bindC_def)

lemma evasive_reference:
  "resolveSchemaReference sample_wire_env (collectSchemaIndex evasive_schema) (js ''#/x'') = Some evasive_target"
  by (simp add: resolveSchemaReference_def collectSchemaIndex_def pointerDecode_def sample_wire_env_def
      pointer_step_def evasive_schema_def evasive_target_def js_def isSchemaValue_def)

text \<open>
  The scanner sees only what is reached through schema keywords; a reference may point into the
  value of any other key.  The schema below is accepted although the subschema its reference
  applies has a pattern with nested quantifiers, which the scanner refuses.
\<close>

lemma accepted_reference_to_refused_schema:
  "validateJsonSchema sample_wire_env default_options evasive_schema = Inr (Inr evasive_schema) \<and>
   resolveSchemaReference sample_wire_env (collectSchemaIndex evasive_schema) (js ''#/x'') = Some evasive_target \<and>
   \<not> safe_pattern sample_wire_env (js ''(a+)+'') \<and>
   (\<forall>path refs. validateSchemaShape sample_wire_env evasive_target path \<noteq> Inr refs)"
proof (intro conjI allI)
  have "validateSchemaReferences sample_wire_env (collectSchemaIndex evasive_schema)
      [(js ''#/x'', dot (js ''$'') ''$ref'')] = Inr ()"
    by (simp add: validateSchemaReferences_def checks_Inr evasive_reference)
  moreover have "we_compile sample_wire_env evasive_schema \<noteq> None" "isSchemaValue evasive_schema"
    by (simp_all add: sample_wire_env_def isSchemaValue_def evasive_schema_def)
  ultimately show "validateJsonSchema sample_wire_env default_options evasive_schema = Inr (Inr evasive_schema)"
    by (simp add: validateJsonSchema_def default_limits evasive_measured evasive_shape bindC_def outcome_of_def)
  show "\<not> safe_pattern sample_wire_env (js ''(a+)+'')"
    by (simp add: safe_pattern_def js_def scan_pattern.simps)
qed (simp_all add: evasive_reference evasive_target_refused)

section \<open>Properties\<close>



end
