(* ===== verification/Envelope.thy ===== *)
theory Envelope
  imports Schema_Shape Task_State Dedupe
begin

text \<open>
  The envelope validator (\<open>validateEnvelope\<close> of \<open>src/protocol/validation.ts\<close>): operation
  discriminants, identifiers, deadlines and payloads of every operation, and the canonical
  request projection whose hash the deduplication store compares.
\<close>

section \<open>Operations\<close>

definition PROTOCOL_VERSION :: string where "PROTOCOL_VERSION = ''1.0''"

datatype operation_name =
    Op_peer_describe | Op_message_request | Op_message_reply | Op_message_notify
  | Op_task_status | Op_task_cancel

primrec operation_text :: "operation_name \<Rightarrow> string" where
  "operation_text Op_peer_describe = ''peer.describe''"
| "operation_text Op_message_request = ''message.request''"
| "operation_text Op_message_reply = ''message.reply''"
| "operation_text Op_message_notify = ''message.notify''"
| "operation_text Op_task_status = ''task.status''"
| "operation_text Op_task_cancel = ''task.cancel''"

definition OPERATION_NAMES :: "operation_name list" where
  "OPERATION_NAMES = [Op_peer_describe, Op_message_request, Op_message_reply, Op_message_notify,
     Op_task_status, Op_task_cancel]"

definition operation_of :: "jstr \<Rightarrow> operation_name option" where
  "operation_of t = find (\<lambda>x. js (operation_text x) = t) OPERATION_NAMES"

primrec error_code_text :: "error_code \<Rightarrow> string" where
  "error_code_text EC_malformed = ''malformed''"
| "error_code_text EC_incompatible = ''incompatible''"
| "error_code_text EC_expired = ''expired''"
| "error_code_text EC_cross_room = ''cross_room''"
| "error_code_text EC_ambiguous = ''ambiguous''"
| "error_code_text EC_busy = ''busy''"
| "error_code_text EC_unauthorized = ''unauthorized''"
| "error_code_text EC_oversized = ''oversized''"
| "error_code_text EC_duplicate = ''duplicate''"
| "error_code_text EC_cancelled = ''cancelled''"
| "error_code_text EC_unreachable = ''unreachable''"
| "error_code_text EC_not_found = ''not_found''"
| "error_code_text EC_not_cancelable = ''not_cancelable''"
| "error_code_text EC_invalid_content = ''invalid_content''"
| "error_code_text EC_invalid_reply = ''invalid_reply''"
| "error_code_text EC_internal = ''internal''"

definition PROTOCOL_ERROR_CODES :: "error_code list" where
  "PROTOCOL_ERROR_CODES = [EC_malformed, EC_incompatible, EC_expired, EC_cross_room, EC_ambiguous, EC_busy,
     EC_unauthorized, EC_oversized, EC_duplicate, EC_cancelled, EC_unreachable, EC_not_found,
     EC_not_cancelable, EC_invalid_content, EC_invalid_reply, EC_internal]"

definition error_code_of :: "jstr \<Rightarrow> error_code option" where
  "error_code_of t = find (\<lambda>x. js (error_code_text x) = t) PROTOCOL_ERROR_CODES"

primrec state_text :: "task_state \<Rightarrow> string" where
  "state_text St_created = ''created''"
| "state_text St_accepted = ''accepted''"
| "state_text St_queued = ''queued''"
| "state_text St_working = ''working''"
| "state_text St_cancelling = ''cancelling''"
| "state_text St_completed = ''completed''"
| "state_text St_failed = ''failed''"
| "state_text St_rejected = ''rejected''"
| "state_text St_cancelled = ''cancelled''"
| "state_text St_expired = ''expired''"

definition terminal_outcome_of :: "jstr \<Rightarrow> task_state option" where
  "terminal_outcome_of t = find (\<lambda>x. js (state_text x) = t) TERMINAL_OUTCOMES"

section \<open>Expected responses and error values\<close>

fun detail_text :: "jsval option \<Rightarrow> string \<Rightarrow> jstr option" where
  "detail_text (Some (Object details)) key =
     (case own details key of Some (Text t) \<Rightarrow> Some t | _ \<Rightarrow> None)"
| "detail_text _ key = None"

definition inner_code :: "error_code \<Rightarrow> validation_code" where
  "inner_code code =
     (case code of
        EC_incompatible \<Rightarrow> VC_incompatible
      | EC_expired \<Rightarrow> VC_expired
      | EC_oversized \<Rightarrow> VC_oversized
      | EC_invalid_content \<Rightarrow> VC_invalid_content
      | EC_invalid_reply \<Rightarrow> VC_invalid_reply
      | _ \<Rightarrow> VC_malformed)"

definition validateExpectedResponseInternal ::
  "wire_env \<Rightarrow> validation_options \<Rightarrow> jsval \<Rightarrow> jstr \<Rightarrow> unit checked" where
  "validateExpectedResponseInternal env options v path =
     (case v of
        Object expected \<Rightarrow>
          if own expected ''contentType'' \<noteq> Some (Text (js ''json''))
          then refuse (keyword_issue VC_incompatible (dot path ''contentType'')
            ''expected responses must use JSON content'' ''contentType'')
          else (case own expected ''schema'' of
              None \<Rightarrow> refuse (keyword_issue VC_malformed (dot path ''schema'')
                ''expected response schema is required'' ''schema'')
            | Some schema \<Rightarrow>
                (case validateJsonSchema env options schema of
                   Inl x \<Rightarrow> Inl (Throws x)
                 | Inr (Inr _) \<Rightarrow> Inr ()
                 | Inr (Inl e) \<Rightarrow> refuse
                     \<lparr>ii_code = inner_code (pe_code e),
                      ii_path = (case detail_text (pe_details e) ''path'' of
                         Some t \<Rightarrow> t | None \<Rightarrow> dot path ''schema''),
                      ii_reason = pe_message e,
                      ii_keyword = detail_text (pe_details e) ''keyword''\<rparr>))
      | _ \<Rightarrow> refuse (issue VC_malformed path ''expected response must be an object''))"

definition validateExpectedResponse :: "wire_env \<Rightarrow> validation_options \<Rightarrow> jsval \<Rightarrow> jsval validated" where
  "validateExpectedResponse env options v =
     outcome_of (\<lambda>i. validationFailure env (ii_code i)
         (if ii_code i = VC_incompatible then ''expected response schema is incompatible''
          else ''expected response schema is invalid'') (ii_path i) (ii_reason i) (ii_keyword i))
       (bindC (validateExpectedResponseInternal env options v (js ''$'')) (\<lambda>_. Inr v))"

text \<open>The parts of an error value after its code.\<close>

definition error_retry :: "(jstr \<times> jsval) list \<Rightarrow> error_code \<Rightarrow> jstr \<Rightarrow> unit checked" where
  "error_retry value code path = checks
     [require (own_is value ''retryable'' is_boolean)
        (keyword_issue VC_malformed (dot path ''retryable'') ''retryable must be boolean'' ''retryable''),
      require (own value ''retryable'' = Some (Boolean (isRetryableErrorCode code)))
        (keyword_issue VC_malformed (dot path ''retryable'') ''retryable does not match the error code'' ''retryable''),
      if_own value ''retryAfterMs''
        (\<lambda>v. require (isFiniteNumber v \<and> \<not> number_of v \<le> Fin 0 \<and> own value ''retryable'' = Some (Boolean True))
          (keyword_issue VC_malformed (dot path ''retryAfterMs'') ''retryAfterMs is invalid for this error''
            ''retryAfterMs''))]"

definition error_details ::
  "wire_env \<Rightarrow> validation_options \<Rightarrow> (jstr \<times> jsval) list \<Rightarrow> jstr \<Rightarrow> unit checked" where
  "error_details env options value path = if_own value ''details''
     (\<lambda>v. checks
       [reissue (\<lambda>i. if ii_code i = VC_oversized then i\<lparr>ii_keyword := Some (js ''details'')\<rparr>
           else keyword_issue VC_malformed (ii_path i) ''error details must be a JSON object'' ''details'')
          (validateJsonValueInternal env options v (dot path ''details'')),
        require (isPlainObject v) (keyword_issue VC_malformed (dot path ''details'')
          ''error details must be a JSON object'' ''details'')])"

definition validateProtocolErrorValue ::
  "wire_env \<Rightarrow> validation_options \<Rightarrow> jsval \<Rightarrow> jstr \<Rightarrow> unit checked" where
  "validateProtocolErrorValue env options v path =
     (case v of
        Object value \<Rightarrow>
          (case (case own value ''code'' of Some (Text t) \<Rightarrow> error_code_of t | _ \<Rightarrow> None) of
             None \<Rightarrow> refuse (keyword_issue VC_malformed (dot path ''code'') ''error code is not recognized'' ''code'')
           | Some code \<Rightarrow> checks
               [require (own_is value ''message'' isSafeHumanReadableMessage)
                  (keyword_issue VC_malformed (dot path ''message'')
                    ''error message must be a concise safe human-readable string'' ''message''),
                error_retry value code path,
                error_details env options value path])
      | _ \<Rightarrow> refuse (issue VC_malformed path ''error must be an object''))"

section \<open>Payloads\<close>

definition payload_path :: jstr where "payload_path = js ''$.payload''"

definition describe_payload :: "(jstr \<times> jsval) list \<Rightarrow> unit checked" where
  "describe_payload payload = if_own payload ''requestedProtocolVersion''
     (\<lambda>v. checks
       [require (is_text v) (issue VC_malformed (dot payload_path ''requestedProtocolVersion'')
          ''requested protocol version must be a string''),
        require (v = Text (js PROTOCOL_VERSION)) (issue VC_incompatible
          (dot payload_path ''requestedProtocolVersion'') ''requested protocol version is unsupported'')])"

definition payload_content ::
  "wire_env \<Rightarrow> validation_options \<Rightarrow> (jstr \<times> jsval) list \<Rightarrow> string \<Rightarrow> unit checked" where
  "payload_content env options payload missing =
     (case own payload ''content'' of
        None \<Rightarrow> refuse (issue VC_invalid_content (dot payload_path ''content'') missing)
      | Some content \<Rightarrow> validateTypedContentInternal env options content (dot payload_path ''content''))"

definition payload_metadata :: "wire_env \<Rightarrow> validation_options \<Rightarrow> (jstr \<times> jsval) list \<Rightarrow> unit checked" where
  "payload_metadata env options payload = if_own payload ''metadata''
     (\<lambda>v. validateMetadataInternal env options v (dot payload_path ''metadata''))"

definition request_payload :: "wire_env \<Rightarrow> validation_options \<Rightarrow> (jstr \<times> jsval) list \<Rightarrow> unit checked" where
  "request_payload env options payload = checks
     [payload_content env options payload ''message.request content is required'',
      if_own payload ''expectedResponse''
        (\<lambda>v. validateExpectedResponseInternal env options v (dot payload_path ''expectedResponse'')),
      payload_metadata env options payload]"

definition notify_payload :: "wire_env \<Rightarrow> validation_options \<Rightarrow> (jstr \<times> jsval) list \<Rightarrow> unit checked" where
  "notify_payload env options payload = checks
     [payload_content env options payload ''message.notify content is required'',
      payload_metadata env options payload]"

definition reply_payload :: "wire_env \<Rightarrow> validation_options \<Rightarrow> (jstr \<times> jsval) list \<Rightarrow> unit checked" where
  "reply_payload env options payload =
     (case (case own payload ''outcome'' of Some (Text t) \<Rightarrow> terminal_outcome_of t | _ \<Rightarrow> None) of
        None \<Rightarrow> refuse (keyword_issue VC_malformed (dot payload_path ''outcome'') ''reply outcome is unsupported'' ''outcome'')
      | Some outcome \<Rightarrow>
          if outcome = St_completed
          then checks
            [payload_content env options payload ''completed replies require content'',
             require (\<not> has_own payload ''error'')
               (issue VC_malformed (dot payload_path ''error'') ''completed replies cannot include an error'')]
          else if has_own payload ''content''
          then refuse (issue VC_malformed (dot payload_path ''content'')
            (state_text outcome @ '' replies cannot include content''))
          else (case own payload ''error'' of
              None \<Rightarrow> require (outcome \<noteq> St_failed \<and> outcome \<noteq> St_rejected)
                (issue VC_malformed (dot payload_path ''error'') (state_text outcome @ '' replies require an error''))
            | Some e \<Rightarrow> validateProtocolErrorValue env options e (dot payload_path ''error'')))"

definition status_payload :: "(jstr \<times> jsval) list \<Rightarrow> unit checked" where
  "status_payload payload = if_own payload ''includeTerminalResponse''
     (\<lambda>v. require (is_boolean v) (issue VC_malformed (dot payload_path ''includeTerminalResponse'')
       ''includeTerminalResponse must be boolean''))"

definition cancel_payload :: "(jstr \<times> jsval) list \<Rightarrow> unit checked" where
  "cancel_payload payload = if_own payload ''reason''
     (\<lambda>v. require (is_text v) (issue VC_malformed (dot payload_path ''reason'')
       ''cancellation reason must be a string''))"

definition validatePayloadInternal ::
  "wire_env \<Rightarrow> validation_options \<Rightarrow> operation_name \<Rightarrow> jsval \<Rightarrow> unit checked" where
  "validatePayloadInternal env options operation v =
     (case v of
        Object payload \<Rightarrow>
          (case operation of
             Op_peer_describe \<Rightarrow> describe_payload payload
           | Op_message_request \<Rightarrow> request_payload env options payload
           | Op_message_notify \<Rightarrow> notify_payload env options payload
           | Op_message_reply \<Rightarrow> reply_payload env options payload
           | Op_task_status \<Rightarrow> status_payload payload
           | Op_task_cancel \<Rightarrow> cancel_payload payload)
      | _ \<Rightarrow> refuse (issue VC_malformed payload_path ''operation payload must be an object''))"

section \<open>Envelopes\<close>

definition MAX_CLOCK_SKEW_MS :: rat where "MAX_CLOCK_SKEW_MS = 300000"

definition REQUIRED_ENVELOPE_FIELDS :: "string list" where
  "REQUIRED_ENVELOPE_FIELDS = [''protocolVersion'', ''operation'', ''operationId'', ''sender'',
     ''recipientRuntimeId'', ''roomId'', ''createdAt'', ''expiresAt'', ''traceId'', ''payload'']"

definition TRACE_ID_PATTERN :: "jstr \<Rightarrow> bool" where
  "TRACE_ID_PATTERN s \<longleftrightarrow> matches_classes (replicate 32 is_hex) s"

fun text_is :: "(jstr \<Rightarrow> bool) \<Rightarrow> jsval \<Rightarrow> bool" where
  "text_is P (Text t) = P t"
| "text_is P _ = False"

definition validateEnvelopeRequiredFields :: "(jstr \<times> jsval) list \<Rightarrow> unit checked" where
  "validateEnvelopeRequiredFields value = checks (map (\<lambda>field.
     require (own value field \<noteq> None \<and> own value field \<noteq> Some Undefined)
       (issue VC_malformed (dot (js ''$'') field) ''required envelope field is missing'')) REQUIRED_ENVELOPE_FIELDS)"

definition request_id_issue :: "string \<Rightarrow> internal_issue" where
  "request_id_issue reason = keyword_issue VC_malformed (js ''$.requestId'') reason ''requestId''"

definition validateEnvelopeOperationIds :: "(jstr \<times> jsval) list \<Rightarrow> operation_name \<Rightarrow> unit checked" where
  "validateEnvelopeOperationIds envelope operation =
     bindC (require (own_is envelope ''operationId'' (text_is isUuidV4))
         (keyword_issue VC_malformed (js ''$.operationId'') ''operationId must be a UUIDv4'' ''operationId''))
       (\<lambda>_. if operation = Op_message_request
          then checks
            [require (own_is envelope ''requestId'' (text_is isUuidV4))
               (request_id_issue ''message.request requires a UUIDv4 requestId''),
             require (own envelope ''requestId'' = own envelope ''operationId'')
               (request_id_issue ''message.request requestId must equal operationId'')]
          else if operation \<in> {Op_message_reply, Op_task_status, Op_task_cancel}
          then checks
            [require (own_is envelope ''requestId'' (text_is isUuidV4))
               (request_id_issue (operation_text operation @ '' requires a UUIDv4 target requestId'')),
             require (own envelope ''requestId'' \<noteq> own envelope ''operationId'')
               (request_id_issue (operation_text operation @ '' requires a new operationId''))]
          else require (\<not> has_own envelope ''requestId'')
            (request_id_issue (operation_text operation @ '' must omit requestId'')))"

text \<open>Validators one after the other, and the failures of the envelope itself.\<close>

definition bindV :: "'a validated \<Rightarrow> ('a \<Rightarrow> 'b validated) \<Rightarrow> 'b validated" where
  "bindV m k = (case m of Inl x \<Rightarrow> Inl x | Inr (Inl e) \<Rightarrow> Inr (Inl e) | Inr (Inr a) \<Rightarrow> k a)"

definition malformed_envelope :: "wire_env \<Rightarrow> string \<Rightarrow> string \<Rightarrow> 'a validated" where
  "malformed_envelope env path reason =
     validationFailure env VC_malformed ''protocol envelope is malformed'' (js path) (js reason) None"

definition demand :: "wire_env \<Rightarrow> bool \<Rightarrow> string \<Rightarrow> string \<Rightarrow> unit validated" where
  "demand env b path reason = (if b then Inr (Inr ()) else malformed_envelope env path reason)"

fun validations :: "unit validated list \<Rightarrow> unit validated" where
  "validations [] = Inr (Inr ())"
| "validations (v # vs) = bindV v (\<lambda>_. validations vs)"

definition envelope_measured :: "wire_env \<Rightarrow> validation_options \<Rightarrow> resolved_limits \<Rightarrow> jsval \<Rightarrow> unit validated" where
  "envelope_measured env options limits v =
     (case measureJsonBytes env options v (rl_maxEnvelopeBytes limits) of
        Inl x \<Rightarrow> Inl x
      | Inr (Too_large _) \<Rightarrow> validationFailure env VC_oversized ''protocol envelope exceeds the size limit''
          (js ''$'') (js ''envelope exceeds maxEnvelopeBytes'') None
      | Inr (Unmeasurable path reason) \<Rightarrow>
          validationFailure env VC_malformed ''protocol envelope is malformed'' path reason None
      | Inr (Measured _) \<Rightarrow> Inr (Inr ()))"

definition envelope_operation :: "wire_env \<Rightarrow> (jstr \<times> jsval) list \<Rightarrow> operation_name validated" where
  "envelope_operation env value =
     bindV (demand env (own_is value ''protocolVersion'' is_text) ''$.protocolVersion'' ''protocolVersion must be a string'')
     (\<lambda>_. if own value ''protocolVersion'' \<noteq> Some (Text (js PROTOCOL_VERSION))
       then validationFailure env VC_incompatible ''protocol version is unsupported'' (js ''$.protocolVersion'')
         (js ''unsupported protocol version'') None
       else (case own value ''operation'' of
           Some (Text name) \<Rightarrow>
             (case operation_of name of
                None \<Rightarrow> validationFailure env VC_incompatible ''operation is unsupported'' (js ''$.operation'')
                  (js ''unsupported operation'') None
              | Some operation \<Rightarrow> Inr (Inr operation))
         | _ \<Rightarrow> malformed_envelope env ''$.operation'' ''operation must be a string''))"

definition envelope_identities ::
  "wire_env \<Rightarrow> (jstr \<times> jsval) list \<Rightarrow> operation_name \<Rightarrow> unit validated" where
  "envelope_identities env value operation =
     (let sender = (case own value ''sender'' of Some (Object s) \<Rightarrow> s | _ \<Rightarrow> [])
      in validations
       [outcome_of (internalIssueFailure env) (validateEnvelopeOperationIds value operation),
        demand env (\<not> has_own value ''parentOperationId'' \<or> own_is value ''parentOperationId'' (text_is isUuidV4))
          ''$.parentOperationId'' ''parentOperationId must be a UUIDv4'',
        demand env (own_is value ''sender'' isPlainObject) ''$.sender'' ''sender must be an object'',
        demand env (own_is sender ''sessionId'' (text_is isSafeIdentifier))
          ''$.sender.sessionId'' ''sessionId must be a non-empty safe string'',
        demand env (own_is sender ''runtimeId'' (text_is isSafeIdentifier))
          ''$.sender.runtimeId'' ''runtimeId must be a non-empty safe string'',
        demand env (own_is value ''recipientRuntimeId'' (text_is isSafeIdentifier))
          ''$.recipientRuntimeId'' ''recipientRuntimeId must be a non-empty safe string'',
        demand env (own_is value ''roomId'' (text_is isValidRoomId))
          ''$.roomId'' ''roomId must be a canonical r1 room ID'',
        demand env (own_is value ''traceId'' (text_is TRACE_ID_PATTERN))
          ''$.traceId'' ''traceId must be 32 lowercase hexadecimal characters''])"

definition is_control_operation :: "operation_name \<Rightarrow> bool" where
  "is_control_operation operation \<longleftrightarrow> operation \<in> {Op_peer_describe, Op_task_status, Op_task_cancel}"

definition envelope_time :: "wire_env \<Rightarrow> (jstr \<times> jsval) list \<Rightarrow> string \<Rightarrow> rat option" where
  "envelope_time env value key =
     (case own value key of None \<Rightarrow> None | Some v \<Rightarrow> parseUtcTimestamp env v)"

definition envelope_deadline ::
  "wire_env \<Rightarrow> validation_options \<Rightarrow> resolved_limits \<Rightarrow> (jstr \<times> jsval) list \<Rightarrow> operation_name \<Rightarrow> unit validated" where
  "envelope_deadline env options limits value operation =
     (case envelope_time env value ''createdAt'' of
        None \<Rightarrow> malformed_envelope env ''$.createdAt'' ''createdAt must be an RFC 3339 UTC timestamp''
      | Some createdAt \<Rightarrow>
         (case envelope_time env value ''expiresAt'' of
            None \<Rightarrow> malformed_envelope env ''$.expiresAt'' ''expiresAt must be an RFC 3339 UTC timestamp''
          | Some expiresAt \<Rightarrow>
              if expiresAt \<le> createdAt
              then malformed_envelope env ''$.expiresAt'' ''expiresAt must be later than createdAt''
              else if expiresAt - createdAt > (if is_control_operation operation
                  then rl_maxControlTtlMs limits else rl_maxRequestTtlMs limits)
              then malformed_envelope env ''$.expiresAt'' ''operation deadline exceeds the configured v1 limit''
              else (case resolveNow env (vo_now options) of
                  Inl x \<Rightarrow> Inl x
                | Inr now \<Rightarrow>
                    if createdAt > now + MAX_CLOCK_SKEW_MS
                    then malformed_envelope env ''$.createdAt'' ''createdAt is too far in the future''
                    else if expiresAt \<le> now
                    then validationFailure env VC_expired ''protocol operation has expired'' (js ''$.expiresAt'')
                      (js ''expiresAt is at or before now'') None
                    else Inr (Inr ()))))"

definition envelope_payload ::
  "wire_env \<Rightarrow> validation_options \<Rightarrow> (jstr \<times> jsval) list \<Rightarrow> operation_name \<Rightarrow> unit validated" where
  "envelope_payload env options value operation =
     outcome_of (\<lambda>i. if ii_code i = VC_invalid_content
         then validationFailure env VC_invalid_content ''operation content is invalid''
           (ii_path i) (ii_reason i) (ii_keyword i)
         else internalIssueFailure env i)
       (validatePayloadInternal env options operation
         (case own value ''payload'' of None \<Rightarrow> Undefined | Some v \<Rightarrow> v))"

text \<open>\<open>validateEnvelope\<close> answers its argument; the model also answers the operation it found.\<close>

definition check_envelope :: "wire_env \<Rightarrow> validation_options \<Rightarrow> jsval \<Rightarrow> operation_name validated" where
  "check_envelope env options v =
     (case resolveLimits options of Inl x \<Rightarrow> Inl x | Inr limits \<Rightarrow>
        bindV (envelope_measured env options limits v)
        (\<lambda>_. case v of
           Object value \<Rightarrow>
             bindV (outcome_of (internalIssueFailure env) (validateEnvelopeRequiredFields value))
             (\<lambda>_. bindV (envelope_operation env value)
             (\<lambda>operation. bindV (validations
                [envelope_identities env value operation,
                 envelope_deadline env options limits value operation,
                 envelope_payload env options value operation])
             (\<lambda>_. Inr (Inr operation))))
         | _ \<Rightarrow> malformed_envelope env ''$'' ''envelope must be an object''))"

definition validateEnvelope :: "wire_env \<Rightarrow> validation_options \<Rightarrow> jsval \<Rightarrow> jsval validated" where
  "validateEnvelope env options v = bindV (check_envelope env options v) (\<lambda>_. Inr (Inr v))"

definition validateSerializedEnvelope :: "wire_env \<Rightarrow> validation_options \<Rightarrow> jsval \<Rightarrow> jsval validated" where
  "validateSerializedEnvelope env options v =
     (case v of
        Text text \<Rightarrow>
          (case resolveLimits options of Inl x \<Rightarrow> Inl x | Inr limits \<Rightarrow>
             if of_nat (utf8_length text) > rl_maxEnvelopeBytes limits
             then validationFailure env VC_oversized ''protocol envelope exceeds the size limit'' (js ''$'')
               (js ''serialized envelope exceeds maxEnvelopeBytes'') None
             else (case we_parse env text of
                 None \<Rightarrow> malformed_envelope env ''$'' ''serialized envelope is not valid JSON''
               | Some decoded \<Rightarrow> validateEnvelope env options decoded))
      | _ \<Rightarrow> malformed_envelope env ''$'' ''serialized envelope must be a string'')"

section \<open>Names\<close>

lemma operation_of_Some: "operation_of t = Some operation \<longleftrightarrow> t = js (operation_text operation)"
proof -
  have known: "operation_of (js (operation_text x)) = Some x" for x
    by (cases x) (simp_all add: operation_of_def OPERATION_NAMES_def)
  then show ?thesis
    by (auto simp: operation_of_def find_Some_iff)
qed

lemma error_code_of_Some: "error_code_of t = Some code \<longleftrightarrow> t = js (error_code_text code)"
proof -
  have known: "error_code_of (js (error_code_text x)) = Some x" for x
    by (cases x) (simp_all add: error_code_of_def PROTOCOL_ERROR_CODES_def)
  then show ?thesis
    by (auto simp: error_code_of_def find_Some_iff)
qed

lemma terminal_outcome_of_Some:
  "terminal_outcome_of t = Some s \<longleftrightarrow> t = js (state_text s) \<and> isTerminalTaskState s"
proof -
  have known: "terminal_outcome_of (js (state_text x)) = (if isTerminalTaskState x then Some x else None)" for x
    by (cases x) (simp_all add: terminal_outcome_of_def TERMINAL_OUTCOMES_def)
  have "terminal_outcome_of t = Some s \<Longrightarrow> t = js (state_text s)"
    by (auto simp: terminal_outcome_of_def find_Some_iff)
  then show ?thesis using known by (auto split: if_splits)
qed

lemma operation_text_inject [simp]: "operation_text x = operation_text y \<longleftrightarrow> x = y"
  by (cases x; cases y) simp_all

lemma operation_of_text [simp]: "operation_of (js (operation_text x)) = Some x"
  by (simp add: operation_of_Some)

lemma error_code_of_text [simp]: "error_code_of (js (error_code_text x)) = Some x"
  by (simp add: error_code_of_Some)

lemma error_code_text_inject [simp]: "error_code_text x = error_code_text y \<longleftrightarrow> x = y"
  by (metis error_code_of_text option.inject)

lemma state_text_inject [simp]: "state_text x = state_text y \<longleftrightarrow> x = y"
  by (cases x; cases y) simp_all

section \<open>The contract of an accepted envelope\<close>

definition error_value_ok :: "jsval \<Rightarrow> bool" where
  "error_value_ok v \<longleftrightarrow>
     (\<exists>m code. v = Object m \<and> own m ''code'' = Some (Text (js (error_code_text code))) \<and>
        own_is m ''message'' isSafeHumanReadableMessage \<and>
        own m ''retryable'' = Some (Boolean (isRetryableErrorCode code)) \<and>
        (\<forall>r. own m ''retryAfterMs'' = Some r \<longrightarrow>
           (\<exists>q. r = Number (Fin q) \<and> 0 < q \<and> isRetryableErrorCode code)) \<and>
        (\<forall>d. own m ''details'' = Some d \<longrightarrow> isPlainObject d))"

definition expected_response_ok :: "wire_env \<Rightarrow> validation_options \<Rightarrow> jsval \<Rightarrow> bool" where
  "expected_response_ok env options v \<longleftrightarrow>
     (\<exists>m schema. v = Object m \<and> own m ''contentType'' = Some (Text (js ''json'')) \<and>
        own m ''schema'' = Some schema \<and> validateJsonSchema env options schema = Inr (Inr schema))"

definition message_ok :: "(jstr \<times> jsval) list \<Rightarrow> bool" where
  "message_ok p \<longleftrightarrow> own_is p ''content'' typed_content \<and>
     (\<forall>m. own p ''metadata'' = Some m \<longrightarrow> isPlainObject m)"

definition reply_ok :: "(jstr \<times> jsval) list \<Rightarrow> bool" where
  "reply_ok p \<longleftrightarrow>
     (\<exists>outcome. own p ''outcome'' = Some (Text (js (state_text outcome))) \<and> isTerminalTaskState outcome \<and>
        (if outcome = St_completed then own_is p ''content'' typed_content \<and> \<not> has_own p ''error''
         else \<not> has_own p ''content'' \<and>
           (case own p ''error'' of
              None \<Rightarrow> outcome = St_cancelled \<or> outcome = St_expired
            | Some e \<Rightarrow> error_value_ok e)))"

definition payload_ok ::
  "wire_env \<Rightarrow> validation_options \<Rightarrow> operation_name \<Rightarrow> (jstr \<times> jsval) list \<Rightarrow> bool" where
  "payload_ok env options operation p \<longleftrightarrow>
     (case operation of
        Op_peer_describe \<Rightarrow> (\<forall>v. own p ''requestedProtocolVersion'' = Some v \<longrightarrow> v = Text (js PROTOCOL_VERSION))
      | Op_message_request \<Rightarrow> message_ok p \<and>
          (\<forall>v. own p ''expectedResponse'' = Some v \<longrightarrow> expected_response_ok env options v)
      | Op_message_notify \<Rightarrow> message_ok p
      | Op_message_reply \<Rightarrow> reply_ok p
      | Op_task_status \<Rightarrow> (\<forall>v. own p ''includeTerminalResponse'' = Some v \<longrightarrow> is_boolean v)
      | Op_task_cancel \<Rightarrow> (\<forall>v. own p ''reason'' = Some v \<longrightarrow> is_text v))"

definition ids_ok :: "operation_name \<Rightarrow> (jstr \<times> jsval) list \<Rightarrow> bool" where
  "ids_ok operation value \<longleftrightarrow>
     (\<exists>i. own value ''operationId'' = Some (Text i) \<and> isUuidV4 i \<and>
        (case operation of
           Op_message_request \<Rightarrow> own value ''requestId'' = Some (Text i)
         | Op_message_notify \<Rightarrow> own value ''requestId'' = None
         | Op_peer_describe \<Rightarrow> own value ''requestId'' = None
         | _ \<Rightarrow> (\<exists>r. own value ''requestId'' = Some (Text r) \<and> isUuidV4 r \<and> r \<noteq> i)))"

definition parties_ok :: "(jstr \<times> jsval) list \<Rightarrow> bool" where
  "parties_ok value \<longleftrightarrow>
     (\<exists>sender. own value ''sender'' = Some (Object sender) \<and>
        own_is sender ''sessionId'' (text_is isSafeIdentifier) \<and>
        own_is sender ''runtimeId'' (text_is isSafeIdentifier)) \<and>
     own_is value ''recipientRuntimeId'' (text_is isSafeIdentifier) \<and>
     own_is value ''roomId'' (text_is isValidRoomId) \<and>
     own_is value ''traceId'' (text_is TRACE_ID_PATTERN) \<and>
     (\<forall>v. own value ''parentOperationId'' = Some v \<longrightarrow> text_is isUuidV4 v)"

definition deadline_ok ::
  "wire_env \<Rightarrow> resolved_limits \<Rightarrow> rat \<Rightarrow> operation_name \<Rightarrow> (jstr \<times> jsval) list \<Rightarrow> bool" where
  "deadline_ok env limits now operation value \<longleftrightarrow>
     (\<exists>createdAt expiresAt. envelope_time env value ''createdAt'' = Some createdAt \<and>
        envelope_time env value ''expiresAt'' = Some expiresAt \<and>
        createdAt < expiresAt \<and> now < expiresAt \<and> createdAt \<le> now + MAX_CLOCK_SKEW_MS \<and>
        expiresAt - createdAt \<le> (if is_control_operation operation
          then rl_maxControlTtlMs limits else rl_maxRequestTtlMs limits))"

definition envelope_ok ::
  "wire_env \<Rightarrow> validation_options \<Rightarrow> resolved_limits \<Rightarrow> rat \<Rightarrow> operation_name \<Rightarrow> jsval \<Rightarrow> bool" where
  "envelope_ok env options limits now operation v \<longleftrightarrow>
     fits env limits (whole (rl_maxEnvelopeBytes limits)) v \<and>
     (\<exists>value p. v = Object value \<and>
        own value ''protocolVersion'' = Some (Text (js PROTOCOL_VERSION)) \<and>
        own value ''operation'' = Some (Text (js (operation_text operation))) \<and>
        ids_ok operation value \<and> parties_ok value \<and> deadline_ok env limits now operation value \<and>
        own value ''payload'' = Some (Object p) \<and> payload_ok env options operation p)"

section \<open>The validator decides the contract\<close>

lemma outcome_of_ok:
  "(\<And>i. f i \<noteq> Inr (Inr a)) \<Longrightarrow> outcome_of f m = Inr (Inr a) \<longleftrightarrow> m = Inr a"
  by (auto simp: outcome_of_def split: sum.splits stop.splits)

lemma bindV_ok: "bindV m k = Inr (Inr b) \<longleftrightarrow> (\<exists>a. m = Inr (Inr a) \<and> k a = Inr (Inr b))"
  by (auto simp: bindV_def split: sum.splits)

lemma validations_ok: "validations vs = Inr (Inr u) \<longleftrightarrow> (\<forall>v \<in> set vs. v = Inr (Inr ()))"
  by (induction vs) (auto simp: bindV_ok)

lemma demand_ok [simp]: "demand env b path reason = Inr (Inr u) \<longleftrightarrow> b"
  by (simp add: demand_def malformed_envelope_def)

lemma malformed_not_ok [simp]: "malformed_envelope env path reason \<noteq> Inr (Inr a)"
  by (simp add: malformed_envelope_def)

declare validations.simps [simp del]

lemma own_is_iff: "own_is m k P \<longleftrightarrow> (\<exists>v. own m k = Some v \<and> P v)"
  by (simp add: own_is_def split: option.split)

lemma text_is_iff: "text_is P v \<longleftrightarrow> (\<exists>t. v = Text t \<and> P t)"
  by (cases v) auto

lemma is_text_iff: "is_text v \<longleftrightarrow> (\<exists>t. v = Text t)"
  by (cases v) auto

lemma ids_checked: "validateEnvelopeOperationIds value operation = Inr u \<longleftrightarrow> ids_ok operation value"
  unfolding validateEnvelopeOperationIds_def ids_ok_def
  by (cases operation) (auto simp: bindC_Inr checks_Inr own_is_iff text_is_iff has_own_def)

lemma parties_checked:
  "envelope_identities env value operation = Inr (Inr u) \<longleftrightarrow> ids_ok operation value \<and> parties_ok value"
proof -
  have "own_is value ''sender'' isPlainObject \<longleftrightarrow> (\<exists>s. own value ''sender'' = Some (Object s))"
    unfolding own_is_iff by (metis isPlainObject.elims(2) isPlainObject.simps(1))
  then show ?thesis
    unfolding envelope_identities_def Let_def validations_ok parties_ok_def
    by (auto simp: outcome_of_ok ids_checked own_is_iff has_own_def split: option.splits)
qed

lemma operation_checked: "envelope_operation env value = Inr (Inr operation) \<longleftrightarrow>
   own value ''protocolVersion'' = Some (Text (js PROTOCOL_VERSION)) \<and>
   own value ''operation'' = Some (Text (js (operation_text operation)))"
  unfolding envelope_operation_def
  by (auto simp: bindV_ok own_is_iff is_text_iff operation_of_Some split: option.splits jsval.splits)

lemma deadline_checked:
  assumes "resolveNow env (vo_now options) = Inr now"
  shows "envelope_deadline env options limits value operation = Inr (Inr u) \<longleftrightarrow>
    deadline_ok env limits now operation value"
  unfolding envelope_deadline_def deadline_ok_def assms
  by (auto split: option.splits)

lemma error_value_checked:
  assumes "number_texts (we_numtext env)" and "resolveLimits options = Inr limits"
    and "fits env limits b v" and "b \<le> 9007199254740991"
  shows "validateProtocolErrorValue env options v path = Inr u \<longleftrightarrow> error_value_ok v"
proof (cases v)
  case (Object m)
  have details: "error_details env options m path = Inr () \<longleftrightarrow> (\<forall>d. own m ''details'' = Some d \<longrightarrow> isPlainObject d)"
    using fits_more [OF fits_member [OF assms(1)] assms(4)] assms(3) unfolding Object
    by (auto simp: error_details_def if_own_Inr checks_Inr json_value_fits [OF assms(1,2)])
  have number: "isFiniteNumber r \<Longrightarrow> \<not> number_of r \<le> Fin 0 \<Longrightarrow> \<exists>q. r = Number (Fin q) \<and> 0 < q" for r
    by (cases r) (auto simp: is_finite_iff not_le)
  have retry: "error_retry m code path = Inr () \<longleftrightarrow> own m ''retryable'' = Some (Boolean (isRetryableErrorCode code)) \<and>
     (\<forall>r. own m ''retryAfterMs'' = Some r \<longrightarrow> (\<exists>q. r = Number (Fin q) \<and> 0 < q \<and> isRetryableErrorCode code))" for code
    by (auto simp: error_retry_def checks_Inr if_own_Inr own_is_iff dest: number)
  show ?thesis
    unfolding Object validateProtocolErrorValue_def error_value_ok_def
    by (auto simp: checks_Inr retry details error_code_of_Some split: option.splits jsval.splits)
qed (simp_all add: validateProtocolErrorValue_def error_value_ok_def)

lemma expected_response_checked:
  "validateExpectedResponseInternal env options v path = Inr u \<longleftrightarrow> expected_response_ok env options v"
proof (cases v)
  case (Object m)
  have "s = w" if "validateJsonSchema env options w = Inr (Inr s)" for s w
    using that by (rule validateJsonSchema_ok)
  then show ?thesis
    unfolding Object validateExpectedResponseInternal_def expected_response_ok_def
    by (auto split: option.splits sum.splits)
qed (simp_all add: validateExpectedResponseInternal_def expected_response_ok_def)

lemma payload_checked:
  assumes num: "number_texts (we_numtext env)" and lim: "resolveLimits options = Inr limits"
    and fit: "fits env limits b (Object p)" and b: "b \<le> 9007199254740991"
  shows "validatePayloadInternal env options operation (Object p) = Inr u \<longleftrightarrow> payload_ok env options operation p"
proof -
  note member = fits_member [OF num fit]
  have content: "payload_content env options p missing = Inr () \<longleftrightarrow> own_is p ''content'' typed_content" for missing
    using content_of_fitting [OF num lim member b]
    by (auto simp: payload_content_def own_is_def split: option.split)
  have metadata: "payload_metadata env options p = Inr () \<longleftrightarrow> (\<forall>m. own p ''metadata'' = Some m \<longrightarrow> isPlainObject m)"
    using metadata_of_fitting [OF num lim member b] by (auto simp: payload_metadata_def if_own_Inr)
  have error: "validateProtocolErrorValue env options e path = Inr () \<longleftrightarrow> error_value_ok e"
    if "own p ''error'' = Some e" for e path
    using error_value_checked [OF num lim member [OF that] b] .
  have terminal: "isTerminalTaskState outcome \<Longrightarrow> outcome \<noteq> St_completed \<Longrightarrow>
      outcome \<noteq> St_failed \<and> outcome \<noteq> St_rejected \<longleftrightarrow> outcome = St_cancelled \<or> outcome = St_expired" for outcome
    by (cases outcome) auto
  have reply: "reply_payload env options p = Inr () \<longleftrightarrow> reply_ok p"
  proof -
    have "reply_payload env options p = Inr () \<longleftrightarrow>
      (\<exists>outcome. own p ''outcome'' = Some (Text (js (state_text outcome))) \<and> isTerminalTaskState outcome \<and>
        (if outcome = St_completed then own_is p ''content'' typed_content \<and> \<not> has_own p ''error''
         else \<not> has_own p ''content'' \<and>
           (case own p ''error'' of
              None \<Rightarrow> outcome \<noteq> St_failed \<and> outcome \<noteq> St_rejected
            | Some e \<Rightarrow> error_value_ok e)))"
    proof (cases "case own p ''outcome'' of Some (Text t) \<Rightarrow> terminal_outcome_of t | _ \<Rightarrow> None")
      case None
      have "terminal_outcome_of (js (state_text outcome)) = Some outcome" if "isTerminalTaskState outcome" for outcome
        using that by (simp add: terminal_outcome_of_Some)
      with None have "\<not> (\<exists>outcome. own p ''outcome'' = Some (Text (js (state_text outcome))) \<and> isTerminalTaskState outcome)"
        by auto
      moreover have "reply_payload env options p \<noteq> Inr ()" unfolding reply_payload_def None by simp
      ultimately show ?thesis by blast
    next
      case (Some outcome)
      then have found: "own p ''outcome'' = Some (Text (js (state_text outcome)))" "isTerminalTaskState outcome"
        by (auto simp: terminal_outcome_of_Some split: option.splits jsval.splits)
      have "reply_payload env options p = Inr () \<longleftrightarrow>
         (if outcome = St_completed then own_is p ''content'' typed_content \<and> \<not> has_own p ''error''
         else \<not> has_own p ''content'' \<and>
           (case own p ''error'' of
              None \<Rightarrow> outcome \<noteq> St_failed \<and> outcome \<noteq> St_rejected
            | Some e \<Rightarrow> error_value_ok e))"
        unfolding reply_payload_def Some
        by (auto simp: checks_Inr content error split: option.splits)
      then show ?thesis using found by auto
    qed
    also have "\<dots> \<longleftrightarrow> reply_ok p"
      unfolding reply_ok_def using terminal by (auto split: option.splits)
    finally show ?thesis .
  qed
  have describe: "describe_payload p = Inr () \<longleftrightarrow>
      (\<forall>v. own p ''requestedProtocolVersion'' = Some v \<longrightarrow> v = Text (js PROTOCOL_VERSION))"
    by (simp add: describe_payload_def if_own_Inr checks_Inr) (metis is_text.simps(1))
  have request: "request_payload env options p = Inr () \<longleftrightarrow> message_ok p \<and>
      (\<forall>v. own p ''expectedResponse'' = Some v \<longrightarrow> expected_response_ok env options v)"
    unfolding request_payload_def message_ok_def
    by (simp add: checks_Inr content metadata if_own_Inr expected_response_checked) blast
  have notify: "notify_payload env options p = Inr () \<longleftrightarrow> message_ok p"
    unfolding notify_payload_def message_ok_def by (simp add: checks_Inr content metadata)
  have rest: "status_payload p = Inr () \<longleftrightarrow> (\<forall>v. own p ''includeTerminalResponse'' = Some v \<longrightarrow> is_boolean v)"
    "cancel_payload p = Inr () \<longleftrightarrow> (\<forall>v. own p ''reason'' = Some v \<longrightarrow> is_text v)"
    by (simp_all add: status_payload_def cancel_payload_def if_own_Inr)
  show ?thesis
    unfolding validatePayloadInternal_def payload_ok_def
    by (cases operation) (simp_all add: describe request notify reply rest)
qed

lemma required_of_ok:
  assumes "fits env limits b (Object value)" and "parties_ok value" and "ids_ok operation value"
    and "deadline_ok env limits now operation value"
    and "own value ''protocolVersion'' = Some v" and "own value ''operation'' = Some x" and "own value ''payload'' = Some p"
  shows "validateEnvelopeRequiredFields value = Inr ()"
proof -
  have json: "w \<noteq> Undefined" if "own value k = Some w" for k w
    using assms(1) map_of_SomeD [of "value" "js k" w] that unfolding fits_def own_def by force
  have "own value k \<noteq> None" if "k \<in> set REQUIRED_ENVELOPE_FIELDS" for k
    using assms(2-) that
    unfolding parties_ok_def ids_ok_def deadline_ok_def own_is_iff envelope_time_def REQUIRED_ENVELOPE_FIELDS_def
    by (auto split: option.splits)
  then show ?thesis using json
    unfolding validateEnvelopeRequiredFields_def checks_Inr by fastforce
qed

lemma envelope_checked:
  assumes num: "number_texts (we_numtext env)" and lim: "resolveLimits options = Inr limits"
    and now: "resolveNow env (vo_now options) = Inr now"
  shows "check_envelope env options v = Inr (Inr operation) \<longleftrightarrow> envelope_ok env options limits now operation v"
proof -
  have bytes: "whole (rl_maxEnvelopeBytes limits) \<le> 1048576"
    using resolveLimits_Inr(3) [OF lim] whole_le [of _ 1048576] by (simp add: MAX_ENVELOPE_BYTES_def)
  then have "of_nat (whole (rl_maxEnvelopeBytes limits)) \<le> (1048576 :: rat)"
    using of_nat_mono by fastforce
  then have safe: "of_nat (whole (rl_maxEnvelopeBytes limits)) \<le> max_safe_integer"
    by (simp add: max_safe_integer_def)
  have measured: "envelope_measured env options limits v = Inr (Inr u) \<longleftrightarrow>
      fits env limits (whole (rl_maxEnvelopeBytes limits)) v" for u
    unfolding measured_fits [OF num lim safe, symmetric] envelope_measured_def
    by (auto split: sum.splits measure_result.splits)
  show ?thesis
  proof (cases v)
    case (Object m)
    show ?thesis
    proof (cases "fits env limits (whole (rl_maxEnvelopeBytes limits)) (Object m)")
      case fit: True
      have payload: "envelope_payload env options m operation = Inr (Inr u) \<longleftrightarrow>
          (\<exists>p. own m ''payload'' = Some (Object p) \<and> payload_ok env options operation p)" for u
      proof (cases "\<exists>p. own m ''payload'' = Some (Object p)")
        case True
        then obtain p where p: "own m ''payload'' = Some (Object p)" by blast
        then show ?thesis
          using payload_checked [OF num lim fits_member [OF num fit p]] bytes
          by (simp add: envelope_payload_def outcome_of_ok)
      next
        case False
        then show ?thesis
          by (auto simp: envelope_payload_def outcome_of_ok validatePayloadInternal_def
              split: option.splits jsval.splits)
      qed
      show ?thesis
        using fit required_of_ok [OF fit]
        unfolding check_envelope_def lim Object envelope_ok_def
        by (auto simp: bindV_ok measured [unfolded Object] validations_ok outcome_of_ok parties_checked
            deadline_checked [OF now] payload operation_checked)
    next
      case False
      then show ?thesis
        using measured unfolding check_envelope_def lim Object envelope_ok_def by (simp add: bindV_ok)
    qed
  qed (auto simp: check_envelope_def lim bindV_ok envelope_ok_def)
qed

text \<open>With usable options a validator answers, and never throws.\<close>

definition answers :: "'a validated \<Rightarrow> bool" where
  "answers m \<longleftrightarrow> (\<exists>r. m = Inr r)"

lemma answers_failure [simp]: "answers (validationFailure env code message path reason keyword)"
  using validationFailure_error unfolding answers_def by blast

lemma answers_bindV: "answers m \<Longrightarrow> (\<And>a. answers (k a)) \<Longrightarrow> answers (bindV m k)"
  unfolding answers_def bindV_def by (auto split: sum.splits)

definition calm :: "'a checked \<Rightarrow> bool" where
  "calm m \<longleftrightarrow> (\<forall>x. m \<noteq> Inl (Throws x))"

lemma calm_simps [simp]:
  "calm (Inr a)" "calm (refuse i)" "calm (require b i)" "calm (reissue f m) \<longleftrightarrow> calm m"
  by (auto simp: calm_def refuse_def require_def reissue_def split: sum.splits stop.splits)

lemma calm_bindC: "calm m \<Longrightarrow> (\<And>a. calm (k a)) \<Longrightarrow> calm (bindC m k)"
  unfolding calm_def bindC_def by (auto split: sum.splits)

lemma calm_checks: "(\<And>c. c \<in> set cs \<Longrightarrow> calm c) \<Longrightarrow> calm (checks cs)"
  by (induction cs) (auto simp: checks.simps intro: calm_bindC)

lemma calm_if_own: "(\<And>v. calm (f v)) \<Longrightarrow> calm (if_own m k f)"
  by (simp add: if_own_def split: option.split)

lemma answers_outcome: "calm m \<Longrightarrow> (\<And>i. answers (f i)) \<Longrightarrow> answers (outcome_of f m)"
  unfolding calm_def answers_def outcome_of_def by (auto split: sum.splits stop.splits)

lemma answers_issue [simp]: "answers (internalIssueFailure env i)"
  by (simp add: internalIssueFailure_def)

lemma answers_malformed [simp]: "answers (malformed_envelope env path reason)" "answers (demand env b path reason)"
  by (simp_all add: malformed_envelope_def demand_def) (simp add: answers_def)

lemma answers_validations: "(\<And>v. v \<in> set vs \<Longrightarrow> answers v) \<Longrightarrow> answers (validations vs)"
proof (induction vs)
  case Nil
  then show ?case by (simp add: validations.simps answers_def)
next
  case (Cons v vs)
  then show ?case by (simp add: validations.simps answers_bindV)
qed

lemma measure_answers:
  "resolveLimits options = Inr limits \<Longrightarrow> \<exists>m. measureJsonBytes env options v maxBytes = Inr m"
  using resolveLimits_Inr(1,2) by (simp add: measureJsonBytes_def)

lemma calm_json: "resolveLimits options = Inr limits \<Longrightarrow> calm (validateJsonValueInternal env options v path)"
  using measure_answers [of options limits env v max_safe_integer]
  by (auto simp: validateJsonValueInternal_def no_throw_def bindC_def split: measure_result.split)

lemma calm_content: "resolveLimits options = Inr limits \<Longrightarrow> calm (validateTypedContentInternal env options v path)"
  by (simp add: validateTypedContentInternal_def calm_json split: option.split jsval.split)

lemma calm_metadata: "resolveLimits options = Inr limits \<Longrightarrow> calm (validateMetadataInternal env options v path)"
  by (simp add: validateMetadataInternal_def calm_json)

lemma calm_number_keyword: "calm (validateSchemaKeywordType schema key path P reason)"
  by (simp add: validateSchemaKeywordType_def calm_if_own)

lemma calm_regex: "calm (validateRegexPattern env p path k)"
  unfolding validateRegexPattern_def by (rule calm_checks) auto

lemma calm_guards: "calm (schema_guards env schema path)"
proof -
  have "calm (schema_vocabulary schema path)"
    by (auto simp: schema_vocabulary_def vocabulary_entry_def Let_def intro!: calm_if_own calm_checks
        split: jsval.split)
  moreover have "calm (count_keywords schema path keys)" for keys
    unfolding count_keywords_def by (rule calm_checks) (auto simp: calm_number_keyword)
  moreover have "calm (number_keywords schema path)"
    unfolding number_keywords_def by (rule calm_checks) (auto simp: calm_number_keyword)
  moreover have "calm (contains_counts schema path)"
    by (simp add: contains_counts_def split: option.split)
  moreover have "calm (required_keywords schema path)"
    unfolding required_keywords_def
    by (rule calm_checks) (auto simp: calm_number_keyword intro!: calm_if_own calm_checks split: jsval.split)
  moreover have "calm (schema_pattern env schema path)"
    by (auto simp: schema_pattern_def calm_regex intro!: calm_if_own split: jsval.split)
  moreover have "calm (schema_map env schema path key)" for key
    by (auto simp: schema_map_def calm_regex intro!: calm_if_own calm_checks split: jsval.split)
  moreover have "calm (schema_anchor schema path)" "calm (unsupported schema path key reason)" for key reason
    by (simp_all add: schema_anchor_def calm_number_keyword unsupported_def)
  ultimately show ?thesis
    unfolding schema_guards_def
    by (intro calm_checks)
       (simp only: set_append list.set list.map set_map Un_iff insert_iff image_iff empty_iff bex_simps, elim disjE exE bexE; simp add: calm_number_keyword)
qed

lemma calm_forC: "(\<And>x. x \<in> set xs \<Longrightarrow> calm (f x)) \<Longrightarrow> calm (forC xs f)"
  by (induction xs) (auto intro!: calm_bindC)

lemma calm_shape: "calm (validateSchemaShape env v path)"
proof (induction v arbitrary: path rule: measure_induct_rule [of size])
  case (less v)
  show ?case
  proof (cases v)
    case (Object schema)
    have version: "calm (schema_version schema path)"
      unfolding schema_version_def by (intro calm_if_own calm_checks) auto
    have found: "calm (own_references schema path)"
      by (auto simp: own_references_def addSchemaReference_def intro!: calm_bindC split: option.split jsval.split)
    have child: "(part, child) \<in> set (schema_children schema) \<Longrightarrow> calm (validateSchemaShape env child p)"
      "(part, child) \<in> set (combinator_children schema) \<Longrightarrow> calm (validateSchemaShape env child p)" for part child p
      using less children_smaller unfolding Object by blast+
    then show ?thesis
      unfolding Object
      by (subst validateSchemaShape.simps)
         (auto intro!: calm_bindC calm_forC dest: child simp: version found calm_guards)
  qed (simp_all add: validateSchemaShape.simps)
qed

lemma schema_answers: "resolveLimits options = Inr limits \<Longrightarrow> answers (validateJsonSchema env options schema)"
proof -
  assume lim: "resolveLimits options = Inr limits"
  have "calm (bindC (validateSchemaShape env schema (js ''$''))
      (validateSchemaReferences env (collectSchemaIndex schema)))"
    by (intro calm_bindC calm_shape) (auto simp: validateSchemaReferences_def intro!: calm_checks)
  then have "answers (outcome_of (internalIssueFailure env) (bindC (validateSchemaShape env schema (js ''$''))
      (validateSchemaReferences env (collectSchemaIndex schema))))"
    by (rule answers_outcome) simp
  then obtain r where r: "outcome_of (internalIssueFailure env) (bindC (validateSchemaShape env schema (js ''$''))
      (validateSchemaReferences env (collectSchemaIndex schema))) = Inr r"
    unfolding answers_def by blast
  obtain m where m: "measureJsonBytes env options schema (rl_maxSchemaBytes limits) = Inr m"
    using measure_answers [OF lim] by blast
  have ok: "answers (Inr r)" for r :: "protocol_error + jsval" by (simp add: answers_def)
  show ?thesis
    by (simp add: validateJsonSchema_def lim m r ok split: measure_result.split sum.split)
qed

lemma calm_expected:
  assumes "resolveLimits options = Inr limits"
  shows "calm (validateExpectedResponseInternal env options v path)"
proof -
  have "\<exists>r. validateJsonSchema env options schema = Inr r" for schema
    using schema_answers [OF assms] by (simp add: answers_def)
  then have "calm (case validateJsonSchema env options schema of
      Inl x \<Rightarrow> Inl (Throws x) | Inr (Inr _) \<Rightarrow> Inr ()
    | Inr (Inl e) \<Rightarrow> refuse (f e))" for schema f
    by (metis (no_types, lifting) calm_simps(1,2) old.sum.exhaust old.sum.simps(5,6))
  then show ?thesis
    by (simp add: validateExpectedResponseInternal_def split: option.split jsval.split)
qed

lemma calm_error_value:
  assumes "resolveLimits options = Inr limits"
  shows "calm (validateProtocolErrorValue env options v path)"
proof -
  have "calm (error_retry m code path)" for m code
    by (auto simp: error_retry_def intro!: calm_checks calm_if_own)
  moreover have "calm (error_details env options m path)" for m
    by (auto simp: error_details_def calm_json [OF assms] intro!: calm_checks calm_if_own)
  ultimately show ?thesis
    by (auto simp: validateProtocolErrorValue_def intro!: calm_checks split: jsval.split option.split)
qed

lemma calm_payload:
  assumes lim: "resolveLimits options = Inr limits"
  shows "calm (validatePayloadInternal env options operation v)"
proof -
  have content: "calm (payload_content env options p missing)" for p missing
    by (simp add: payload_content_def calm_content [OF lim] split: option.split)
  have metadata: "calm (payload_metadata env options p)" for p
    by (auto simp: payload_metadata_def calm_metadata [OF lim] intro: calm_if_own)
  have describe: "calm (describe_payload p)" for p
    by (auto simp: describe_payload_def intro!: calm_if_own calm_checks)
  have request: "calm (request_payload env options p)" for p
    by (auto simp: request_payload_def content metadata calm_expected [OF lim] intro!: calm_if_own calm_checks)
  have notify: "calm (notify_payload env options p)" for p
    by (auto simp: notify_payload_def content metadata intro!: calm_checks)
  have reply: "calm (reply_payload env options p)" for p
    by (auto simp: reply_payload_def content calm_error_value [OF lim] intro!: calm_checks
        split: option.split)
  have rest: "calm (status_payload p)" "calm (cancel_payload p)" for p
    by (auto simp: status_payload_def cancel_payload_def intro!: calm_if_own)
  show ?thesis
    by (simp add: validatePayloadInternal_def describe request notify reply rest
        split: jsval.split operation_name.split)
qed

lemma calm_ids: "calm (validateEnvelopeOperationIds value operation)"
  by (auto simp: validateEnvelopeOperationIds_def intro!: calm_bindC calm_checks)

lemma envelope_answers:
  assumes lim: "resolveLimits options = Inr limits" and now: "resolveNow env (vo_now options) = Inr now"
  shows "answers (check_envelope env options v)"
proof -
  have measured: "answers (envelope_measured env options limits w)" for w
    using measure_answers [OF lim, of env w "rl_maxEnvelopeBytes limits"]
    by (auto simp: envelope_measured_def answers_def [of "Inr r" for r] split: measure_result.split)
  have operation: "answers (envelope_operation env m)" for m
    by (auto simp: envelope_operation_def answers_def [of "Inr r" for r] intro!: answers_bindV split: option.split jsval.split)
  have identities: "answers (envelope_identities env m operation)" for m operation
    by (auto simp: envelope_identities_def Let_def calm_ids intro!: answers_validations answers_outcome)
  have deadline: "answers (envelope_deadline env options limits m operation)" for m operation
    by (simp add: envelope_deadline_def now answers_def [of "Inr r" for r] split: option.split)
  have payload: "answers (envelope_payload env options m operation)" for m operation
    unfolding envelope_payload_def by (rule answers_outcome) (simp_all add: calm_payload [OF lim])
  have required: "answers (outcome_of (internalIssueFailure env) (validateEnvelopeRequiredFields m))" for m
    unfolding validateEnvelopeRequiredFields_def by (intro answers_outcome calm_checks) auto
  show ?thesis
    unfolding check_envelope_def lim
    by (auto simp: answers_def [of "Inr r" for r] measured operation identities deadline payload required
        intro!: answers_bindV answers_validations split: jsval.split)
qed

section \<open>Properties\<close>

text \<open>C5: With usable options the validator never throws, whatever value it is given, and it
  accepts exactly the envelopes that satisfy the contract: within the size limits, of the
  supported version, with the identifiers, parties, deadline and payload of their operation.\<close>

theorem envelope_validator_decides_contract:
  assumes "number_texts (we_numtext env)" and "resolveLimits options = Inr limits"
    and "resolveNow env (vo_now options) = Inr now"
  shows "(\<exists>r. validateEnvelope env options v = Inr r) \<and>
    (\<forall>w. validateEnvelope env options v = Inr (Inr w) \<longleftrightarrow>
       w = v \<and> (\<exists>operation. envelope_ok env options limits now operation v))"
proof
  have "answers (validateEnvelope env options v)"
    unfolding validateEnvelope_def
    by (rule answers_bindV [OF envelope_answers [OF assms(2,3)]]) (simp add: answers_def)
  then show "\<exists>r. validateEnvelope env options v = Inr r" by (simp add: answers_def)
  show "\<forall>w. validateEnvelope env options v = Inr (Inr w) \<longleftrightarrow>
       w = v \<and> (\<exists>operation. envelope_ok env options limits now operation v)"
    by (auto simp: validateEnvelope_def bindV_ok envelope_checked [OF assms])
qed

text \<open>Dates that know two texts, and a notification that lives for one second.\<close>

definition sample_created :: jstr where "sample_created = js ''1970-01-01T00:00:00''"
definition sample_expires :: jstr where "sample_expires = js ''1970-01-01T00:00:01''"

definition dated_env :: wire_env where
  "dated_env = sample_wire_env\<lparr>we_dates :=
     \<lparr>date_parse = (\<lambda>t. if t = sample_created @ [90] then Fin 0 else if t = sample_expires @ [90] then Fin 1000 else NaN),
      date_iso = (\<lambda>q. (if q = 0 then sample_created else sample_expires) @ js ''.000Z'')\<rparr>\<rparr>"

definition sample_id :: jstr where "sample_id = js ''00000000-0000-4000-8000-000000000000''"

definition sample_members :: "(jstr \<times> jsval) list" where
  "sample_members =
     [text_member ''protocolVersion'' (js ''1.0''),
      text_member ''operation'' (js ''message.notify''),
      text_member ''operationId'' sample_id,
      (js ''sender'', Object [text_member ''sessionId'' (js ''s''), text_member ''runtimeId'' (js ''r'')]),
      text_member ''recipientRuntimeId'' (js ''q''),
      text_member ''roomId'' (js ''r1-00000000000000000000000000000000''),
      text_member ''createdAt'' (sample_created @ [90]),
      text_member ''expiresAt'' (sample_expires @ [90]),
      text_member ''traceId'' (js ''00000000000000000000000000000000''),
      (js ''payload'', Object [(js ''content'', Object [text_member ''type'' (js ''text''), text_member ''text'' (js ''x'')])])]"

definition sample_limits :: resolved_limits where
  "sample_limits = \<lparr>rl_maxEnvelopeBytes = 1048576, rl_maxSchemaBytes = 65536, rl_maxDepth = 128, rl_maxNodes = 200000,
    rl_maxRequestTtlMs = 3600000, rl_maxControlTtlMs = 30000\<rparr>"

lemma sample_time:
  "parseUtcTimestamp dated_env (Text (sample_created @ [90])) = Some 0"
  "parseUtcTimestamp dated_env (Text (sample_expires @ [90])) = Some 1000"
  by (simp_all add: parseUtcTimestamp_def dated_env_def sample_created_def sample_expires_def js_def
      RFC3339_UTC_PATTERN_def matches_classes_def UTC_CLASSES_def is_utc_tail_def is_char_def is_digit_def
      in_range_def max_date_ms_def drop_milliseconds_def Let_def numeral_eq_Suc)

lemma sample_own:
  "own sample_members ''protocolVersion'' = Some (Text (js ''1.0''))"
  "own sample_members ''operation'' = Some (Text (js ''message.notify''))"
  "own sample_members ''operationId'' = Some (Text sample_id)"
  "own sample_members ''requestId'' = None"
  "own sample_members ''parentOperationId'' = None"
  "own sample_members ''sender'' = Some (Object [text_member ''sessionId'' (js ''s''), text_member ''runtimeId'' (js ''r'')])"
  "own sample_members ''recipientRuntimeId'' = Some (Text (js ''q''))"
  "own sample_members ''roomId'' = Some (Text (js ''r1-00000000000000000000000000000000''))"
  "own sample_members ''createdAt'' = Some (Text (sample_created @ [90]))"
  "own sample_members ''expiresAt'' = Some (Text (sample_expires @ [90]))"
  "own sample_members ''traceId'' = Some (Text (js ''00000000000000000000000000000000''))"
  "own sample_members ''payload'' = Some (Object [(js ''content'',
     Object [text_member ''type'' (js ''text''), text_member ''text'' (js ''x'')])])"
  by (simp_all add: own_def sample_members_def text_member_def)

lemma text_size_text: "text_size ctx (Text t) = jsonStringByteLength t"
  by (simp add: text_size_def utf8_json_quote)

lemma sample_size:
  "text_size \<lparr>mc_maxBytes = 0, mc_maxDepth = 0, mc_maxNodes = 0, mc_numtext = sample_numtext\<rparr> (Object sample_members) \<le> 1000"
  by (simp add: text_size_object text_size_text sample_number_texts sample_members_def text_member_def sample_id_def
      sample_created_def sample_expires_def js_def jsonStringByteLength_def)

lemma object_depth: "json_depth (Object ms) \<le> Suc b \<longleftrightarrow> (\<forall>m \<in> set ms. json_depth (snd m) \<le> b)"
  using depth_parts(2) [of 0 ms "Suc b"] by simp

lemma sample_depth: "json_depth (Object sample_members) \<le> 128"
proof -
  have "json_depth (Object sample_members) \<le> Suc (Suc (Suc 0))"
    by (simp add: object_depth sample_members_def text_member_def del: json_depth.simps(7))
  then show ?thesis by simp
qed

lemma sample_fits: "fits dated_env sample_limits (whole 1048576) (Object sample_members)"
proof -
  have "is_json (Object sample_members)" "node_count (Object sample_members) \<le> 200000"
    by (simp_all add: sample_members_def text_member_def)
  then show ?thesis
    using sample_size sample_depth
    by (simp add: fits_def text_size_def sample_limits_def whole_def dated_env_def sample_wire_env_def)
qed

lemma sample_envelope_ok:
  "envelope_ok dated_env default_options sample_limits 0 Op_message_notify (Object sample_members)"
proof -
  have "isSafeIdentifier (js ''s'')" "isSafeIdentifier (js ''r'')" "isSafeIdentifier (js ''q'')"
    by (simp_all add: isSafeIdentifier_def js_def is_alnum_def is_digit_def is_lower_def in_range_def)
  moreover have "isValidRoomId (js ''r1-00000000000000000000000000000000'')"
    by (simp add: isValidRoomId_def ROOM_ID_PREFIX_def ROOM_ID_HEX_LENGTH_def js_def is_hex_def is_digit_def
        in_range_def)
  moreover have "TRACE_ID_PATTERN (js ''00000000000000000000000000000000'')"
    by (simp add: TRACE_ID_PATTERN_def js_def matches_classes_def is_hex_def is_digit_def in_range_def numeral_eq_Suc)
  moreover have "own [text_member ''sessionId'' (js ''s''), text_member ''runtimeId'' (js ''r'')] ''sessionId'' = Some (Text (js ''s''))"
    "own [text_member ''sessionId'' (js ''s''), text_member ''runtimeId'' (js ''r'')] ''runtimeId'' = Some (Text (js ''r''))"
    by (simp_all add: own_def text_member_def)
  ultimately have "parties_ok sample_members"
    by (simp add: parties_ok_def sample_own own_is_def)
  moreover have "ids_ok Op_message_notify sample_members"
    by (simp add: ids_ok_def sample_own sample_id_def isUuidV4_def matches_classes_def UUID_CLASSES_def js_def
        is_char_def is_hex_def is_digit_def in_range_def hyphen_def numeral_eq_Suc)
  moreover have "deadline_ok dated_env sample_limits 0 Op_message_notify sample_members"
    by (simp add: deadline_ok_def envelope_time_def sample_own sample_time sample_limits_def MAX_CLOCK_SKEW_MS_def
        is_control_operation_def)
  moreover have "message_ok [(js ''content'', Object [text_member ''type'' (js ''text''), text_member ''text'' (js ''x'')])]"
    by (simp add: message_ok_def own_is_def typed_content_def text_member_def own_def)
  moreover have "rl_maxEnvelopeBytes sample_limits = 1048576" by (simp add: sample_limits_def)
  ultimately show ?thesis
    using sample_fits by (simp add: envelope_ok_def sample_own payload_ok_def PROTOCOL_VERSION_def)
qed

theorem envelope_validator_decides_contract_witness:
  "validateEnvelope dated_env default_options (Object sample_members) = Inr (Inr (Object sample_members))"
proof -
  have "number_texts (we_numtext dated_env)" "resolveLimits default_options = Inr sample_limits"
    "resolveNow dated_env (vo_now default_options) = Inr 0"
    by (simp_all add: dated_env_def sample_wire_env_def sample_number_texts default_limits sample_limits_def)
       (simp add: default_options_def resolveNow_def)
  from envelope_validator_decides_contract [OF this, of "Object sample_members"] sample_envelope_ok
  show ?thesis by blast
qed

end
