(* ===== verification/Schema_Eval.thy ===== *)
theory Schema_Eval
  imports Envelope
begin

text \<open>
  The evaluation of a JSON value against an accepted schema (\<open>src/protocol/validation.ts\<close>:
  \<open>matchesSchema\<close>, \<open>validateJsonValueAgainstSchema\<close>, \<open>validateReplyContent\<close>).  The evaluation
  budget is the state of the execution monad; a verdict that is not \<open>valid\<close> leaves the
  evaluation as a \<open>Mismatch\<close>.  The cache of regular expressions only saves compilations and is
  left out.  The depth of the code counts up to a limit and the model counts the remaining depth
  down, so the recursion is structural.
\<close>

section \<open>The evaluation budget\<close>

record budget =
  eb_maxOperations :: nat
  eb_operations :: nat
  eb_exhausted :: bool

datatype eval_stop = Raised js_exn | Mismatch jstr jstr

type_synonym 'a evaluation = "(budget, eval_stop, 'a) exec"

definition createEvaluationBudget :: "nat \<Rightarrow> budget" where
  "createEvaluationBudget maxOperations =
     \<lparr>eb_maxOperations = maxOperations, eb_operations = 0, eb_exhausted = False\<rparr>"

definition consumeEvaluationBudget :: "nat \<Rightarrow> bool evaluation" where
  "consumeEvaluationBudget cost = (\<lambda>b.
     if eb_exhausted b then (Inr False, b)
     else (let spent = b\<lparr>eb_operations := eb_operations b + cost\<rparr>
       in if eb_operations spent > eb_maxOperations b then (Inr False, spent\<lparr>eb_exhausted := True\<rparr>)
          else (Inr True, spent)))"

definition mismatch :: "jstr \<Rightarrow> string \<Rightarrow> 'a evaluation" where
  "mismatch path reason = throw (Mismatch path (js reason))"

definition budgetFailure :: "jstr \<Rightarrow> 'a evaluation" where
  "budgetFailure path = mismatch path ''schema evaluation budget exceeded''"

definition fail_if_exhausted :: "jstr \<Rightarrow> unit evaluation" where
  "fail_if_exhausted path = bindE (getE eb_exhausted) (\<lambda>x. if x then budgetFailure path else ret ())"

definition forbid :: "bool \<Rightarrow> jstr \<Rightarrow> string \<Rightarrow> unit evaluation" where
  "forbid b path reason = (if b then mismatch path reason else ret ())"

text \<open>A loop that stops at the first verdict that is not valid, and a verdict as a value.\<close>

primrec for_all :: "'a list \<Rightarrow> ('a \<Rightarrow> unit evaluation) \<Rightarrow> unit evaluation" where
  "for_all [] f = ret ()"
| "for_all (x # xs) f = thenE (f x) (for_all xs f)"

definition is_valid :: "unit evaluation \<Rightarrow> bool evaluation" where
  "is_valid m = catchE (thenE m (ret True))
     (\<lambda>stop. case stop of Mismatch _ _ \<Rightarrow> ret False | Raised x \<Rightarrow> throw (Raised x))"

text \<open>Alternatives, as \<open>anyOf\<close> tries them and as \<open>contains\<close> and \<open>oneOf\<close> count them.\<close>

primrec any_valid :: "jstr \<Rightarrow> unit evaluation list \<Rightarrow> bool evaluation" where
  "any_valid path [] = ret False"
| "any_valid path (m # ms) = bindE (is_valid m)
     (\<lambda>ok. if ok then ret True else thenE (fail_if_exhausted path) (any_valid path ms))"

primrec count_valid :: "jstr \<Rightarrow> unit evaluation list \<Rightarrow> nat \<Rightarrow> nat evaluation" where
  "count_valid path [] n = ret n"
| "count_valid path (m # ms) n = bindE (is_valid m)
     (\<lambda>ok. thenE (fail_if_exhausted path) (count_valid path ms (if ok then Suc n else n)))"

section \<open>Comparison and canonical text within the budget\<close>

record schema_context =
  sx_env :: wire_env
  sx_index :: schema_index
  sx_maxDepth :: nat

definition schemaRegex :: "schema_context \<Rightarrow> jstr \<Rightarrow> (jstr \<Rightarrow> bool) option" where
  "schemaRegex ctx pattern =
     (if we_regex_ok (sx_env ctx) pattern then Some (we_regex_test (sx_env ctx) pattern) else None)"

text \<open>Whether the text matched, and whether the budget was exhausted instead.\<close>

definition testSchemaRegex :: "schema_context \<Rightarrow> jstr \<Rightarrow> jstr \<Rightarrow> (bool \<times> bool) evaluation" where
  "testSchemaRegex ctx pattern s =
     bindE (consumeEvaluationBudget (min 9007199254740991 (length pattern + length s + 1)))
       (\<lambda>ok. if \<not> ok then ret (False, True)
          else (case schemaRegex ctx pattern of
              None \<Rightarrow> bindE (getE eb_exhausted) (\<lambda>x. ret (False, x))
            | Some test \<Rightarrow> ret (test s, False)))"

lemma size_sorted_members:
  "size_list (size \<circ> snd) (sort_key f ms) \<le> size_list (size_prod (\<lambda>_. 0) size) (ms :: (jstr \<times> jsval) list)"
proof -
  have "size_list (size \<circ> snd) xs \<le> size_list (size_prod (\<lambda>_. 0) size) xs" for xs :: "(jstr \<times> jsval) list"
    by (induction xs) auto
  then show ?thesis by (metis size_list_sort_key)
qed

function deepEqualJson :: "jsval \<Rightarrow> jsval \<Rightarrow> bool evaluation"
  and deepEqualItems :: "jsval list \<Rightarrow> jsval list \<Rightarrow> bool evaluation" where
  "deepEqualJson left right = bindE (consumeEvaluationBudget 1)
     (\<lambda>ok. if \<not> ok then ret False
        else (case left of
            Number a \<Rightarrow> (case right of Number b \<Rightarrow> ret (a = b \<and> a \<noteq> NaN) | _ \<Rightarrow> ret False)
          | Array xs \<Rightarrow>
              (case right of
                 Array ys \<Rightarrow> if length xs \<noteq> length ys then ret False else deepEqualItems xs ys
               | _ \<Rightarrow> ret False)
          | Object ms \<Rightarrow>
              (case right of
                 Object ns \<Rightarrow>
                   if map fst (sort_key fst ms) \<noteq> map fst (sort_key fst ns) then ret False
                   else deepEqualItems (map snd (sort_key fst ms)) (map snd (sort_key fst ns))
               | _ \<Rightarrow> ret False)
          | _ \<Rightarrow> ret (left = right)))"
| "deepEqualItems (x # xs) (y # ys) = bindE (deepEqualJson x y)
     (\<lambda>eq. if eq then deepEqualItems xs ys else ret False)"
| "deepEqualItems [] ys = ret True"
| "deepEqualItems (x # xs) [] = ret True"
  by pat_completeness auto
termination
  by (relation "measure (case_sum (\<lambda>(l, r). size l) (\<lambda>(xs, ys). size_list size xs))")
     (auto simp: less_Suc_eq_le size_sorted_members)

declare deepEqualJson.simps [simp del]

function canonicalWithin :: "(rat \<Rightarrow> jstr) \<Rightarrow> jsval \<Rightarrow> jstr evaluation"
  and canonicalItemsWithin :: "(rat \<Rightarrow> jstr) \<Rightarrow> jsval list \<Rightarrow> jstr list evaluation"
  and canonicalMembersWithin :: "(rat \<Rightarrow> jstr) \<Rightarrow> (jstr \<times> jsval) list \<Rightarrow> jstr list evaluation" where
  "canonicalWithin numtext v = bindE (consumeEvaluationBudget 1)
     (\<lambda>ok. if \<not> ok then throw (Raised (TypeErrorExn ''canonical JSON evaluation budget exceeded''))
        else (case v of
            Null \<Rightarrow> ret (js ''null'')
          | Text s \<Rightarrow> ret (json_quote s)
          | Boolean b \<Rightarrow> ret (if b then js ''true'' else js ''false'')
          | Number n \<Rightarrow>
              if \<not> is_finite n then throw (Raised (TypeErrorExn ''canonical JSON numbers must be finite''))
              else ret (numtext (fin_val n))
          | Array items \<Rightarrow> bindE (canonicalItemsWithin numtext items)
              (\<lambda>texts. ret (91 # join_commas texts @ [93]))
          | Object members \<Rightarrow> bindE (canonicalMembersWithin numtext (sort_key fst members))
              (\<lambda>texts. ret (123 # join_commas texts @ [125]))
          | _ \<Rightarrow> throw (Raised (TypeErrorExn ''value is not canonical JSON''))))"
| "canonicalItemsWithin numtext [] = ret []"
| "canonicalItemsWithin numtext (item # items) = bindE (canonicalWithin numtext item)
     (\<lambda>text. bindE (canonicalItemsWithin numtext items) (\<lambda>texts. ret (text # texts)))"
| "canonicalMembersWithin numtext [] = ret []"
| "canonicalMembersWithin numtext ((key, item) # members) = bindE (canonicalWithin numtext (Text key))
     (\<lambda>name. bindE (canonicalWithin numtext item)
     (\<lambda>text. bindE (canonicalMembersWithin numtext members) (\<lambda>texts. ret ((name @ 58 # text) # texts))))"
  by pat_completeness auto
termination
  by (relation "measure (case_sum (\<lambda>(f, v). size v)
        (case_sum (\<lambda>(f, xs). size_list size xs)
                  (\<lambda>(f, ms). size_list (size_prod (\<lambda>_. 0) size) ms)))")
     (auto simp: size_list_sort_key)

declare canonicalWithin.simps [simp del]

definition canonicalizeJsonWithinBudget :: "schema_context \<Rightarrow> jsval \<Rightarrow> jstr evaluation" where
  "canonicalizeJsonWithinBudget ctx v = canonicalWithin (we_numtext (sx_env ctx)) v"

section \<open>The keywords\<close>

text \<open>How a subschema is applied: the value, the schema and the path of the value.\<close>

type_synonym application = "jsval \<Rightarrow> jsval \<Rightarrow> jstr \<Rightarrow> unit evaluation"

definition at_index :: "jstr \<Rightarrow> nat \<Rightarrow> jstr" where
  "at_index path i = path @ bracket_index i"

definition at_member :: "jstr \<Rightarrow> jstr \<Rightarrow> jstr" where
  "at_member path name = path @ 46 # name"

definition schemaTypeMatches :: "jsval \<Rightarrow> jstr \<Rightarrow> bool" where
  "schemaTypeMatches v kind \<longleftrightarrow>
     (if kind = js ''null'' then v = Null
      else if kind = js ''boolean'' then is_boolean v
      else if kind = js ''object'' then isPlainObject v
      else if kind = js ''array'' then is_array v
      else if kind = js ''number'' then isFiniteNumber v
      else if kind = js ''integer'' then (case v of Number n \<Rightarrow> is_safe_integer n | _ \<Rightarrow> False)
      else if kind = js ''string'' then is_text v
      else False)"

definition schemaReference :: "(jstr \<times> jsval) list \<Rightarrow> jstr option" where
  "schemaReference schema = (case own schema ''$ref'' of Some (Text t) \<Rightarrow> Some t | _ \<Rightarrow> None)"

text \<open>How often every reference is being followed; a missing entry counts as zero.\<close>

type_synonym active_refs = "jstr \<Rightarrow> nat"

definition match_reference ::
  "schema_context \<Rightarrow> (active_refs \<Rightarrow> application) \<Rightarrow> active_refs \<Rightarrow> jsval \<Rightarrow> (jstr \<times> jsval) list \<Rightarrow> jstr \<Rightarrow>
   unit evaluation" where
  "match_reference ctx deeper refs v schema path =
     (case schemaReference schema of
        None \<Rightarrow> ret ()
      | Some reference \<Rightarrow>
          if refs reference \<ge> sx_maxDepth ctx then mismatch path ''maximum schema reference depth exceeded''
          else (case resolveSchemaReference (sx_env ctx) (sx_index ctx) reference of
              None \<Rightarrow> mismatch path ''schema reference does not resolve locally''
            | Some target \<Rightarrow> deeper (refs(reference := refs reference + 1)) v target path))"

definition match_type :: "jsval \<Rightarrow> (jstr \<times> jsval) list \<Rightarrow> jstr \<Rightarrow> unit evaluation" where
  "match_type v schema path =
     (case own schema ''type'' of
        None \<Rightarrow> ret ()
      | Some (Text kind) \<Rightarrow> forbid (\<not> schemaTypeMatches v kind) path ''value does not match schema type''
      | Some (Array kinds) \<Rightarrow>
          forbid (\<not> list_ex (\<lambda>k. case k of Text kind \<Rightarrow> schemaTypeMatches v kind | _ \<Rightarrow> False) kinds) path
            ''value does not match schema type''
      | Some _ \<Rightarrow> throw (Raised (TypeErrorExn ''types.some is not a function'')))"

definition match_const :: "jsval \<Rightarrow> (jstr \<times> jsval) list \<Rightarrow> jstr \<Rightarrow> unit evaluation" where
  "match_const v schema path =
     (case own schema ''const'' of
        None \<Rightarrow> ret ()
      | Some c \<Rightarrow> bindE (deepEqualJson v c)
          (\<lambda>eq. if eq then ret ()
             else thenE (fail_if_exhausted path) (mismatch path ''value does not match const'')))"

primrec in_enum :: "jstr \<Rightarrow> jsval \<Rightarrow> jsval list \<Rightarrow> bool evaluation" where
  "in_enum path v [] = ret False"
| "in_enum path v (e # es) = bindE (deepEqualJson v e)
     (\<lambda>eq. if eq then ret True else thenE (fail_if_exhausted path) (in_enum path v es))"

definition match_enum :: "jsval \<Rightarrow> (jstr \<times> jsval) list \<Rightarrow> jstr \<Rightarrow> unit evaluation" where
  "match_enum v schema path =
     (case own schema ''enum'' of
        Some (Array entries) \<Rightarrow> bindE (in_enum path v entries)
          (\<lambda>matched. forbid (\<not> matched) path ''value is not in enum'')
      | _ \<Rightarrow> ret ())"

text \<open>A keyword that holds a finite number, or a non-negative integer.\<close>

definition own_number :: "(jstr \<times> jsval) list \<Rightarrow> string \<Rightarrow> rat option" where
  "own_number schema key =
     (case own schema key of
        Some v \<Rightarrow> if isFiniteNumber v then Some (fin_val (number_of v)) else None
      | None \<Rightarrow> None)"

definition own_count :: "(jstr \<times> jsval) list \<Rightarrow> string \<Rightarrow> nat option" where
  "own_count schema key =
     (case own schema key of
        Some v \<Rightarrow> if isNonNegativeInteger v then Some (whole (fin_val (number_of v))) else None
      | None \<Rightarrow> None)"

definition fewer :: "nat \<Rightarrow> (jstr \<times> jsval) list \<Rightarrow> string \<Rightarrow> bool" where
  "fewer n schema key \<longleftrightarrow> (case own_count schema key of None \<Rightarrow> False | Some m \<Rightarrow> n < m)"

definition more :: "nat \<Rightarrow> (jstr \<times> jsval) list \<Rightarrow> string \<Rightarrow> bool" where
  "more n schema key \<longleftrightarrow> (case own_count schema key of None \<Rightarrow> False | Some m \<Rightarrow> n > m)"

definition compares :: "(jsnum \<Rightarrow> jsnum \<Rightarrow> bool) \<Rightarrow> jsnum \<Rightarrow> (jstr \<times> jsval) list \<Rightarrow> string \<Rightarrow> bool" where
  "compares P n schema key \<longleftrightarrow> (case own_number schema key of None \<Rightarrow> False | Some q \<Rightarrow> P n (Fin q))"

text \<open>
  Whether the quotient is farther than \<open>1e-12\<close> from the integer \<open>Math.round\<close> gives; an infinite
  quotient or \<open>NaN\<close> is not, since the difference is then \<open>NaN\<close>.
\<close>

definition not_multiple :: "schema_context \<Rightarrow> jsnum \<Rightarrow> jsnum \<Rightarrow> bool" where
  "not_multiple ctx n m \<longleftrightarrow>
     (case (n, m) of
        (Fin p, Fin q) \<Rightarrow>
          (case we_divide (sx_env ctx) p q of
             Fin r \<Rightarrow> \<bar>r - of_int \<lfloor>r + 1 / 2\<rfloor>\<bar> > 1 / 10 ^ 12
           | _ \<Rightarrow> False)
      | _ \<Rightarrow> False)"

definition match_number :: "schema_context \<Rightarrow> jsval \<Rightarrow> (jstr \<times> jsval) list \<Rightarrow> jstr \<Rightarrow> unit evaluation" where
  "match_number ctx v schema path =
     (case v of
        Number n \<Rightarrow>
          thenE (forbid (compares (not_multiple ctx) n schema ''multipleOf'') path ''number is not a multipleOf value'')
         (thenE (forbid (compares (<) n schema ''minimum'') path ''number is below minimum'')
         (thenE (forbid (compares (\<lambda>a b. b < a) n schema ''maximum'') path ''number is above maximum'')
         (thenE (forbid (compares (\<le>) n schema ''exclusiveMinimum'') path ''number is not above exclusiveMinimum'')
         (forbid (compares (\<lambda>a b. b \<le> a) n schema ''exclusiveMaximum'') path ''number is not below exclusiveMaximum''))))
      | _ \<Rightarrow> ret ())"

definition match_string :: "schema_context \<Rightarrow> jsval \<Rightarrow> (jstr \<times> jsval) list \<Rightarrow> jstr \<Rightarrow> unit evaluation" where
  "match_string ctx v schema path =
     (case v of
        Text s \<Rightarrow>
          thenE (forbid (fewer (length (code_points s)) schema ''minLength'') path ''string is shorter than minLength'')
         (thenE (forbid (more (length (code_points s)) schema ''maxLength'') path ''string is longer than maxLength'')
         (case own schema ''pattern'' of
            Some (Text pattern) \<Rightarrow> bindE (testSchemaRegex ctx pattern s)
              (\<lambda>(matched, exhausted).
                 if exhausted then budgetFailure path
                 else forbid (\<not> matched) path ''string does not match pattern'')
          | _ \<Rightarrow> ret ()))
      | _ \<Rightarrow> ret ())"

section \<open>Arrays\<close>

primrec match_unique :: "schema_context \<Rightarrow> jstr \<Rightarrow> jstr list \<Rightarrow> jsval list \<Rightarrow> unit evaluation" where
  "match_unique ctx path signatures [] = ret ()"
| "match_unique ctx path signatures (item # items) =
     bindE (consumeEvaluationBudget 1)
     (\<lambda>ok. if \<not> ok then budgetFailure path
        else bindE (catchE (canonicalizeJsonWithinBudget ctx item)
               (\<lambda>_. thenE (fail_if_exhausted path) (mismatch path ''array items are not valid JSON'')))
          (\<lambda>signature.
             if signature \<in> set signatures then mismatch path ''array items are not unique''
             else match_unique ctx path (signature # signatures) items))"

definition own_array :: "(jstr \<times> jsval) list \<Rightarrow> string \<Rightarrow> jsval list" where
  "own_array schema key = (case own schema key of Some (Array items) \<Rightarrow> items | _ \<Rightarrow> [])"

definition match_contains :: "application \<Rightarrow> jsval list \<Rightarrow> (jstr \<times> jsval) list \<Rightarrow> jstr \<Rightarrow> unit evaluation" where
  "match_contains sub items schema path =
     (case own schema ''contains'' of
        None \<Rightarrow> ret ()
      | Some s \<Rightarrow>
          bindE (count_valid path (map (\<lambda>(i, item). sub item s (at_index path i)) (enumerate 0 items)) 0)
            (\<lambda>matching. forbid
               (matching < (case own_count schema ''minContains'' of None \<Rightarrow> 1 | Some n \<Rightarrow> n) \<or>
                more matching schema ''maxContains'') path ''array does not satisfy contains''))"

definition match_array :: "schema_context \<Rightarrow> application \<Rightarrow> jsval \<Rightarrow> (jstr \<times> jsval) list \<Rightarrow> jstr \<Rightarrow> unit evaluation" where
  "match_array ctx sub v schema path =
     (case v of
        Array items \<Rightarrow>
          thenE (forbid (fewer (length items) schema ''minItems'') path ''array is shorter than minItems'')
         (thenE (forbid (more (length items) schema ''maxItems'') path ''array is longer than maxItems'')
         (thenE (whenE (own schema ''uniqueItems'' = Some (Boolean True)) (match_unique ctx path [] items))
         (thenE (for_all (enumerate 0 (zip items (own_array schema ''prefixItems'')))
                   (\<lambda>(i, item, s). sub item s (at_index path i)))
         (thenE (case own schema ''items'' of
                   None \<Rightarrow> ret ()
                 | Some s \<Rightarrow> for_all (drop (length (own_array schema ''prefixItems'')) (enumerate 0 items))
                     (\<lambda>(i, item). sub item s (at_index path i)))
         (match_contains sub items schema path)))))
      | _ \<Rightarrow> ret ())"

section \<open>Objects\<close>

definition match_required :: "jstr \<Rightarrow> (jstr \<times> jsval) list \<Rightarrow> string \<Rightarrow> jsval list \<Rightarrow> unit evaluation" where
  "match_required path members reason names = for_all names
     (\<lambda>name. case name of
        Text t \<Rightarrow> forbid (map_of members t = None) (at_member path t) reason
      | _ \<Rightarrow> ret ())"

definition own_object :: "(jstr \<times> jsval) list \<Rightarrow> string \<Rightarrow> (jstr \<times> jsval) list" where
  "own_object schema key = (case own schema key of Some (Object entries) \<Rightarrow> entries | _ \<Rightarrow> [])"

definition match_properties ::
  "application \<Rightarrow> (jstr \<times> jsval) list \<Rightarrow> (jstr \<times> jsval) list \<Rightarrow> jstr \<Rightarrow> unit evaluation" where
  "match_properties sub members schema path = for_all (own_object schema ''properties'')
     (\<lambda>(name, s). case map_of members name of
        None \<Rightarrow> ret ()
      | Some v \<Rightarrow> sub v s (at_member path name))"

definition match_patternProperties ::
  "schema_context \<Rightarrow> application \<Rightarrow> (jstr \<times> jsval) list \<Rightarrow> (jstr \<times> jsval) list \<Rightarrow> jstr \<Rightarrow> unit evaluation" where
  "match_patternProperties ctx sub members schema path = for_all (own_object schema ''patternProperties'')
     (\<lambda>(pattern, s). for_all members
        (\<lambda>(name, v). bindE (testSchemaRegex ctx pattern name)
           (\<lambda>(matched, exhausted).
              if exhausted then budgetFailure path
              else whenE matched (sub v s (at_member path name)))))"

primrec any_pattern :: "schema_context \<Rightarrow> jstr \<Rightarrow> jstr \<Rightarrow> (jstr \<times> jsval) list \<Rightarrow> bool evaluation" where
  "any_pattern ctx path name [] = ret False"
| "any_pattern ctx path name (p # ps) = bindE (testSchemaRegex ctx (fst p) name)
     (\<lambda>(matched, exhausted).
        if exhausted then budgetFailure path
        else if matched then ret True else any_pattern ctx path name ps)"

definition match_additional ::
  "schema_context \<Rightarrow> application \<Rightarrow> (jstr \<times> jsval) list \<Rightarrow> (jstr \<times> jsval) list \<Rightarrow> jstr \<Rightarrow> unit evaluation" where
  "match_additional ctx sub members schema path =
     (case own schema ''additionalProperties'' of
        None \<Rightarrow> ret ()
      | Some s \<Rightarrow> for_all members
          (\<lambda>(name, v).
             if name \<in> set (map fst (own_object schema ''properties'')) then ret ()
             else bindE (any_pattern ctx path name (own_object schema ''patternProperties''))
               (\<lambda>matchedPattern.
                  if matchedPattern then ret ()
                  else if s = Boolean False
                  then mismatch (at_member path name) ''additional property is not allowed''
                  else sub v s (at_member path name))))"

definition match_dependentRequired ::
  "(jstr \<times> jsval) list \<Rightarrow> (jstr \<times> jsval) list \<Rightarrow> jstr \<Rightarrow> unit evaluation" where
  "match_dependentRequired members schema path = for_all (own_object schema ''dependentRequired'')
     (\<lambda>(name, dependencies). case dependencies of
        Array names \<Rightarrow> whenE (map_of members name \<noteq> None)
          (match_required path members ''dependent property is missing'' names)
      | _ \<Rightarrow> ret ())"

definition match_object :: "schema_context \<Rightarrow> application \<Rightarrow> jsval \<Rightarrow> (jstr \<times> jsval) list \<Rightarrow> jstr \<Rightarrow> unit evaluation" where
  "match_object ctx sub v schema path =
     (case v of
        Object members \<Rightarrow>
          thenE (forbid (fewer (length members) schema ''minProperties'') path ''object has fewer than minProperties'')
         (thenE (forbid (more (length members) schema ''maxProperties'') path ''object has more than maxProperties'')
         (thenE (match_required path members ''required property is missing'' (own_array schema ''required''))
         (thenE (match_properties sub members schema path)
         (thenE (match_patternProperties ctx sub members schema path)
         (thenE (match_additional ctx sub members schema path)
         (thenE (match_dependentRequired members schema path)
         (thenE (for_all (own_object schema ''dependentSchemas'')
                  (\<lambda>(name, s). whenE (map_of members name \<noteq> None) (sub v s path)))
         (case own schema ''propertyNames'' of
            None \<Rightarrow> ret ()
          | Some s \<Rightarrow> for_all members (\<lambda>(name, _). sub (Text name) s (at_member path name))))))))))
      | _ \<Rightarrow> ret ())"

section \<open>Combinators\<close>

definition match_anyOf :: "application \<Rightarrow> jsval \<Rightarrow> (jstr \<times> jsval) list \<Rightarrow> jstr \<Rightarrow> unit evaluation" where
  "match_anyOf sub v schema path =
     (case own schema ''anyOf'' of
        Some (Array schemas) \<Rightarrow> bindE (any_valid path (map (\<lambda>s. sub v s path) schemas))
          (\<lambda>matched. forbid (\<not> matched) path ''value does not match anyOf'')
      | _ \<Rightarrow> ret ())"

definition match_oneOf :: "application \<Rightarrow> jsval \<Rightarrow> (jstr \<times> jsval) list \<Rightarrow> jstr \<Rightarrow> unit evaluation" where
  "match_oneOf sub v schema path =
     (case own schema ''oneOf'' of
        Some (Array schemas) \<Rightarrow> bindE (count_valid path (map (\<lambda>s. sub v s path) schemas) 0)
          (\<lambda>matches. forbid (matches \<noteq> 1) path ''value does not match exactly one oneOf schema'')
      | _ \<Rightarrow> ret ())"

definition match_not :: "application \<Rightarrow> jsval \<Rightarrow> (jstr \<times> jsval) list \<Rightarrow> jstr \<Rightarrow> unit evaluation" where
  "match_not sub v schema path =
     (case own schema ''not'' of
        None \<Rightarrow> ret ()
      | Some s \<Rightarrow> bindE (is_valid (sub v s path))
          (\<lambda>ok. thenE (fail_if_exhausted path) (forbid ok path ''value matches a disallowed not schema'')))"

definition match_if :: "application \<Rightarrow> jsval \<Rightarrow> (jstr \<times> jsval) list \<Rightarrow> jstr \<Rightarrow> unit evaluation" where
  "match_if sub v schema path =
     (case own schema ''if'' of
        None \<Rightarrow> ret ()
      | Some s \<Rightarrow> bindE (is_valid (sub v s path))
          (\<lambda>ok. thenE (fail_if_exhausted path)
             (case own schema (if ok then ''then'' else ''else'') of
                None \<Rightarrow> ret ()
              | Some t \<Rightarrow> sub v t path)))"

definition match_combinators :: "application \<Rightarrow> jsval \<Rightarrow> (jstr \<times> jsval) list \<Rightarrow> jstr \<Rightarrow> unit evaluation" where
  "match_combinators sub v schema path =
     thenE (for_all (own_array schema ''allOf'') (\<lambda>s. sub v s path))
    (thenE (match_anyOf sub v schema path)
    (thenE (match_oneOf sub v schema path)
    (thenE (match_not sub v schema path)
    (match_if sub v schema path))))"

section \<open>matchesSchema\<close>

definition match_keywords ::
  "schema_context \<Rightarrow> (active_refs \<Rightarrow> application) \<Rightarrow> active_refs \<Rightarrow> jsval \<Rightarrow> (jstr \<times> jsval) list \<Rightarrow> jstr \<Rightarrow>
   unit evaluation" where
  "match_keywords ctx deeper refs v schema path =
     thenE (match_reference ctx deeper refs v schema path)
    (thenE (match_type v schema path)
    (thenE (match_const v schema path)
    (thenE (match_enum v schema path)
    (thenE (match_number ctx v schema path)
    (thenE (match_string ctx v schema path)
    (thenE (match_array ctx (deeper refs) v schema path)
    (thenE (match_object ctx (deeper refs) v schema path)
    (match_combinators (deeper refs) v schema path))))))))"

text \<open>Entering a schema costs one operation.\<close>

definition entering :: "jstr \<Rightarrow> unit evaluation \<Rightarrow> unit evaluation" where
  "entering path m = bindE (consumeEvaluationBudget 1) (\<lambda>ok. if \<not> ok then budgetFailure path else m)"

text \<open>
  The first argument is the depth that is left, the maximal depth plus one less the depth of the
  code.  A value that is neither a boolean nor an object can only stand where an accepted schema
  was not checked: it has no own keyword, and \<open>hasOwn\<close> throws on \<open>null\<close>.
\<close>

primrec matchesSchema :: "schema_context \<Rightarrow> nat \<Rightarrow> active_refs \<Rightarrow> application" where
  "matchesSchema ctx 0 refs v schema path =
     entering path (mismatch path ''maximum schema evaluation depth exceeded'')"
| "matchesSchema ctx (Suc left) refs v schema path = entering path
     (case schema of
        Boolean b \<Rightarrow> forbid (\<not> b) path ''boolean schema is false''
      | Object members \<Rightarrow> match_keywords ctx (matchesSchema ctx left) refs v members path
      | Null \<Rightarrow> throw (Raised (TypeErrorExn ''Cannot convert undefined or null to object''))
      | Undefined \<Rightarrow> throw (Raised (TypeErrorExn ''Cannot convert undefined or null to object''))
      | _ \<Rightarrow> ret ())"

section \<open>Values and replies against a schema\<close>

definition evaluate_schema_on ::
  "wire_env \<Rightarrow> resolved_limits \<Rightarrow> jsval \<Rightarrow> jsval \<Rightarrow> eval_stop + unit" where
  "evaluate_schema_on env limits v schema =
     (let ctx = \<lparr>sx_env = env, sx_index = collectSchemaIndex schema, sx_maxDepth = whole (rl_maxDepth limits)\<rparr>
      in fst (matchesSchema ctx (Suc (sx_maxDepth ctx)) (\<lambda>_. 0) v schema (js ''$'')
           (createEvaluationBudget (whole (rl_maxNodes limits)))))"

definition unsatisfied :: "wire_env \<Rightarrow> jstr \<Rightarrow> jstr \<Rightarrow> 'a validated" where
  "unsatisfied env path reason =
     validationFailure env VC_invalid_content ''JSON response content does not satisfy its schema'' path reason None"

definition validateJsonValueAgainstSchema ::
  "wire_env \<Rightarrow> validation_options \<Rightarrow> jsval \<Rightarrow> jsval \<Rightarrow> jsval validated" where
  "validateJsonValueAgainstSchema env options v schema =
     (case validateJsonSchema env options schema of
        Inl x \<Rightarrow> Inl x
      | Inr (Inl e) \<Rightarrow> Inr (Inl e)
      | Inr (Inr accepted) \<Rightarrow>
          (case validateJsonValueInternal env options v (js ''$'') of
             Inl (Throws x) \<Rightarrow> Inl x
           | Inl (Issue i) \<Rightarrow>
               if ii_code i = VC_oversized
               then validationFailure env VC_oversized ''JSON response content exceeds a configured limit''
                 (ii_path i) (ii_reason i) None
               else validationFailure env VC_invalid_content ''JSON response content is invalid''
                 (ii_path i) (ii_reason i) None
           | Inr _ \<Rightarrow>
               (case resolveLimits options of
                  Inl x \<Rightarrow> Inl x
                | Inr limits \<Rightarrow>
                    if \<not> (case we_compile env accepted of None \<Rightarrow> False | Some compiled \<Rightarrow> compiled v)
                    then unsatisfied env (js ''$'') (js ''schema validation failed'')
                    else (case evaluate_schema_on env limits v accepted of
                        Inl (Raised x) \<Rightarrow> Inl x
                      | Inl (Mismatch path reason) \<Rightarrow> unsatisfied env path reason
                      | Inr _ \<Rightarrow> Inr (Inr v)))))"

definition matchesJsonSchema :: "wire_env \<Rightarrow> validation_options \<Rightarrow> jsval \<Rightarrow> jsval \<Rightarrow> js_exn + bool" where
  "matchesJsonSchema env options v schema =
     (case validateJsonValueAgainstSchema env options v schema of
        Inl x \<Rightarrow> Inl x
      | Inr (Inl _) \<Rightarrow> Inr False
      | Inr (Inr _) \<Rightarrow> Inr True)"

definition validateReplyContent ::
  "wire_env \<Rightarrow> validation_options \<Rightarrow> jsval \<Rightarrow> jsval \<Rightarrow> jsval validated" where
  "validateReplyContent env options content expectedResponse =
     (case validateContent env options content of
        Inl x \<Rightarrow> Inl x
      | Inr (Inl e) \<Rightarrow> Inr (Inl e)
      | Inr (Inr c) \<Rightarrow>
          (case validateExpectedResponse env options expectedResponse of
             Inl x \<Rightarrow> Inl x
           | Inr (Inl e) \<Rightarrow> Inr (Inl e)
           | Inr (Inr expected) \<Rightarrow>
               if property c ''type'' \<noteq> Text (js ''json'')
               then validationFailure env VC_invalid_reply ''reply content must be JSON'' (js ''$'')
                 (js ''expected response requires JSON content'') None
               else (case validateJsonValueAgainstSchema env options (property c ''value'')
                       (property expected ''schema'') of
                   Inl x \<Rightarrow> Inl x
                 | Inr (Inl e) \<Rightarrow>
                     if pe_code e = EC_oversized then Inr (Inl e)
                     else (case createProtocolError (\<lambda>q. utf8_length (we_numtext env q)) EC_invalid_reply
                         (js ''reply content does not satisfy the expected schema'')
                         (no_error_options\<lparr>eo_details := pe_details e\<rparr>) of
                       Inl x \<Rightarrow> Inl x
                     | Inr e' \<Rightarrow> Inr (Inl e'))
                 | Inr (Inr _) \<Rightarrow> Inr (Inr c))))"

end
