(* ===== verification/Schema_Conformance.thy ===== *)
theory Schema_Conformance
  imports Schema_Eval
begin

text \<open>
  What the evaluation of schemas decides: a declarative reading of schemas (\<open>conforms\<close>), triples
  for evaluations within a budget (\<open>decides\<close>, \<open>reports\<close>, \<open>yields\<close>, \<open>renders\<close>), one lemma for
  each keyword, and the properties of the whole evaluation and of the replies it accepts.
\<close>

section \<open>A declarative reading of schemas\<close>

text \<open>
  What a value must satisfy, keyword by keyword, with no budget and no state.  \<open>sub\<close> says which
  values conform to a subschema.
\<close>

definition regex_holds :: "schema_context \<Rightarrow> jstr \<Rightarrow> jstr \<Rightarrow> bool" where
  "regex_holds ctx pattern s \<longleftrightarrow> we_regex_ok (sx_env ctx) pattern \<and> we_regex_test (sx_env ctx) pattern s"

definition type_conforms :: "jsval \<Rightarrow> (jstr \<times> jsval) list \<Rightarrow> bool" where
  "type_conforms v schema \<longleftrightarrow>
     (case own schema ''type'' of
        None \<Rightarrow> True
      | Some (Text kind) \<Rightarrow> schemaTypeMatches v kind
      | Some (Array kinds) \<Rightarrow> (\<exists>k \<in> set kinds. case k of Text kind \<Rightarrow> schemaTypeMatches v kind | _ \<Rightarrow> False)
      | Some _ \<Rightarrow> False)"

definition reference_conforms ::
  "schema_context \<Rightarrow> (jsval \<Rightarrow> jsval \<Rightarrow> bool) \<Rightarrow> jsval \<Rightarrow> (jstr \<times> jsval) list \<Rightarrow> bool" where
  "reference_conforms ctx sub v schema \<longleftrightarrow>
     (case schemaReference schema of
        None \<Rightarrow> True
      | Some reference \<Rightarrow>
          (case resolveSchemaReference (sx_env ctx) (sx_index ctx) reference of
             None \<Rightarrow> False
           | Some target \<Rightarrow> sub v target))"

definition const_conforms :: "jsval \<Rightarrow> (jstr \<times> jsval) list \<Rightarrow> bool" where
  "const_conforms v schema \<longleftrightarrow>
     (case own schema ''const'' of None \<Rightarrow> True | Some c \<Rightarrow> json_norm v = json_norm c)"

definition enum_conforms :: "jsval \<Rightarrow> (jstr \<times> jsval) list \<Rightarrow> bool" where
  "enum_conforms v schema \<longleftrightarrow>
     (case own schema ''enum'' of
        Some (Array entries) \<Rightarrow> json_norm v \<in> json_norm ` set entries
      | _ \<Rightarrow> True)"

definition number_conforms :: "schema_context \<Rightarrow> jsval \<Rightarrow> (jstr \<times> jsval) list \<Rightarrow> bool" where
  "number_conforms ctx v schema \<longleftrightarrow>
     (case v of
        Number n \<Rightarrow> \<not> compares (not_multiple ctx) n schema ''multipleOf'' \<and> \<not> compares (<) n schema ''minimum'' \<and>
          \<not> compares (\<lambda>a b. b < a) n schema ''maximum'' \<and> \<not> compares (\<le>) n schema ''exclusiveMinimum'' \<and>
          \<not> compares (\<lambda>a b. b \<le> a) n schema ''exclusiveMaximum''
      | _ \<Rightarrow> True)"

definition string_conforms :: "schema_context \<Rightarrow> jsval \<Rightarrow> (jstr \<times> jsval) list \<Rightarrow> bool" where
  "string_conforms ctx v schema \<longleftrightarrow>
     (case v of
        Text s \<Rightarrow> \<not> fewer (length (code_points s)) schema ''minLength'' \<and>
          \<not> more (length (code_points s)) schema ''maxLength'' \<and>
          (case own schema ''pattern'' of Some (Text pattern) \<Rightarrow> regex_holds ctx pattern s | _ \<Rightarrow> True)
      | _ \<Rightarrow> True)"

definition contains_conforms :: "(jsval \<Rightarrow> jsval \<Rightarrow> bool) \<Rightarrow> jsval list \<Rightarrow> (jstr \<times> jsval) list \<Rightarrow> bool" where
  "contains_conforms sub items schema \<longleftrightarrow>
     (case own schema ''contains'' of
        None \<Rightarrow> True
      | Some s \<Rightarrow>
          (case own_count schema ''minContains'' of None \<Rightarrow> 1 | Some n \<Rightarrow> n) \<le> length (filter (\<lambda>item. sub item s) items) \<and>
          \<not> more (length (filter (\<lambda>item. sub item s) items)) schema ''maxContains'')"

definition array_conforms :: "(jsval \<Rightarrow> jsval \<Rightarrow> bool) \<Rightarrow> jsval \<Rightarrow> (jstr \<times> jsval) list \<Rightarrow> bool" where
  "array_conforms sub v schema \<longleftrightarrow>
     (case v of
        Array items \<Rightarrow>
          \<not> fewer (length items) schema ''minItems'' \<and> \<not> more (length items) schema ''maxItems'' \<and>
          (own schema ''uniqueItems'' = Some (Boolean True) \<longrightarrow> distinct (map json_norm items)) \<and>
          (\<forall>(item, s) \<in> set (zip items (own_array schema ''prefixItems'')). sub item s) \<and>
          (case own schema ''items'' of
             None \<Rightarrow> True
           | Some s \<Rightarrow> \<forall>item \<in> set (drop (length (own_array schema ''prefixItems'')) items). sub item s) \<and>
          contains_conforms sub items schema
      | _ \<Rightarrow> True)"

definition names_present :: "(jstr \<times> jsval) list \<Rightarrow> jsval list \<Rightarrow> bool" where
  "names_present members names \<longleftrightarrow> (\<forall>t. Text t \<in> set names \<longrightarrow> map_of members t \<noteq> None)"

text \<open>A member that neither a property nor a pattern of the schema describes.\<close>

definition additional :: "schema_context \<Rightarrow> (jstr \<times> jsval) list \<Rightarrow> jstr \<Rightarrow> bool" where
  "additional ctx schema name \<longleftrightarrow> name \<notin> fst ` set (own_object schema ''properties'') \<and>
     \<not> (\<exists>p \<in> set (own_object schema ''patternProperties''). regex_holds ctx (fst p) name)"

definition object_conforms ::
  "schema_context \<Rightarrow> (jsval \<Rightarrow> jsval \<Rightarrow> bool) \<Rightarrow> jsval \<Rightarrow> (jstr \<times> jsval) list \<Rightarrow> bool" where
  "object_conforms ctx sub v schema \<longleftrightarrow>
     (case v of
        Object members \<Rightarrow>
          \<not> fewer (length members) schema ''minProperties'' \<and> \<not> more (length members) schema ''maxProperties'' \<and>
          names_present members (own_array schema ''required'') \<and>
          (\<forall>(name, s) \<in> set (own_object schema ''properties''). \<forall>v. map_of members name = Some v \<longrightarrow> sub v s) \<and>
          (\<forall>(pattern, s) \<in> set (own_object schema ''patternProperties''). \<forall>(name, v) \<in> set members.
             regex_holds ctx pattern name \<longrightarrow> sub v s) \<and>
          (case own schema ''additionalProperties'' of
             None \<Rightarrow> True
           | Some s \<Rightarrow> \<forall>(name, v) \<in> set members. additional ctx schema name \<longrightarrow> s \<noteq> Boolean False \<and> sub v s) \<and>
          (\<forall>(name, names) \<in> set (own_object schema ''dependentRequired'').
             map_of members name \<noteq> None \<longrightarrow> (\<forall>ns. names = Array ns \<longrightarrow> names_present members ns)) \<and>
          (\<forall>(name, s) \<in> set (own_object schema ''dependentSchemas''). map_of members name \<noteq> None \<longrightarrow> sub v s) \<and>
          (case own schema ''propertyNames'' of
             None \<Rightarrow> True
           | Some s \<Rightarrow> \<forall>(name, _) \<in> set members. sub (Text name) s)
      | _ \<Rightarrow> True)"

definition combinators_conform :: "(jsval \<Rightarrow> jsval \<Rightarrow> bool) \<Rightarrow> jsval \<Rightarrow> (jstr \<times> jsval) list \<Rightarrow> bool" where
  "combinators_conform sub v schema \<longleftrightarrow>
     (\<forall>s \<in> set (own_array schema ''allOf''). sub v s) \<and>
     (case own schema ''anyOf'' of Some (Array ss) \<Rightarrow> \<exists>s \<in> set ss. sub v s | _ \<Rightarrow> True) \<and>
     (case own schema ''oneOf'' of Some (Array ss) \<Rightarrow> length (filter (sub v) ss) = 1 | _ \<Rightarrow> True) \<and>
     (case own schema ''not'' of Some s \<Rightarrow> \<not> sub v s | None \<Rightarrow> True) \<and>
     (case own schema ''if'' of
        None \<Rightarrow> True
      | Some s \<Rightarrow>
          (case own schema (if sub v s then ''then'' else ''else'') of None \<Rightarrow> True | Some t \<Rightarrow> sub v t))"

primrec conforms :: "schema_context \<Rightarrow> nat \<Rightarrow> jsval \<Rightarrow> jsval \<Rightarrow> bool" where
  "conforms ctx 0 v schema = False"
| "conforms ctx (Suc left) v schema =
     (case schema of
        Boolean b \<Rightarrow> b
      | Object ms \<Rightarrow>
          reference_conforms ctx (conforms ctx left) v ms \<and> type_conforms v ms \<and> const_conforms v ms \<and>
          enum_conforms v ms \<and> number_conforms ctx v ms \<and> string_conforms ctx v ms \<and>
          array_conforms (conforms ctx left) v ms \<and> object_conforms ctx (conforms ctx left) v ms \<and>
          combinators_conform (conforms ctx left) v ms
      | _ \<Rightarrow> True)"

section \<open>Deciding, answering and counting within the budget\<close>

abbreviation fresh :: "budget \<Rightarrow> bool" where
  "fresh b \<equiv> \<not> eb_exhausted b"

definition stops :: "bool \<Rightarrow> eval_stop \<Rightarrow> budget \<Rightarrow> bool" where
  "stops P x b \<longleftrightarrow> (case x of Mismatch _ _ \<Rightarrow> fresh b \<longrightarrow> \<not> P | Raised _ \<Rightarrow> True)"

text \<open>
  An evaluation decides a condition: it is valid only with budget left and when the condition
  holds; a mismatch means that it does not hold, or that the budget is exhausted.
\<close>

definition decides :: "bool \<Rightarrow> unit evaluation \<Rightarrow> bool" where
  "decides P m \<longleftrightarrow> hoare fresh m (\<lambda>_ b. fresh b \<and> P) (stops P)"

definition reports :: "bool \<Rightarrow> bool evaluation \<Rightarrow> bool" where
  "reports P m \<longleftrightarrow> hoare fresh m (\<lambda>a b. (a \<longrightarrow> fresh b) \<and> (fresh b \<longrightarrow> a = P)) (stops True)"

definition yields :: "'a \<Rightarrow> 'a evaluation \<Rightarrow> bool" where
  "yields a m \<longleftrightarrow> hoare fresh m (\<lambda>r b. fresh b \<and> r = a) (stops True)"

lemmas outcome_defs = decides_def reports_def yields_def hoare_def stops_def

lemma stops_mono: "stops P x b \<Longrightarrow> (Q \<Longrightarrow> P) \<Longrightarrow> stops Q x b"
  by (auto simp: stops_def split: eval_stop.splits)

lemma consumed: "hoare fresh (consumeEvaluationBudget cost) (\<lambda>a b. a = fresh b) (\<lambda>_ _. False)"
  by (simp add: hoare_def consumeEvaluationBudget_def Let_def)

lemma decides_ret: "P \<Longrightarrow> decides P (ret ())"
  by (simp add: outcome_defs ret_def)

lemma decides_mismatch: "\<not> P \<Longrightarrow> decides P (mismatch path reason)"
  by (simp add: outcome_defs mismatch_def throw_def)

lemma decides_raise: "decides P (throw (Raised x))"
  by (simp add: outcome_defs throw_def)

lemma decides_forbid: "decides (\<not> b) (forbid b path reason)"
  by (simp add: forbid_def decides_ret decides_mismatch)

lemma decides_eq: "decides P m \<Longrightarrow> P = Q \<Longrightarrow> decides Q m"
  by simp

lemma decides_then:
  assumes "decides P m" and "P \<Longrightarrow> decides Q k"
  shows "decides (P \<and> Q) (thenE m k)"
  unfolding decides_def thenE_def
proof (rule hoare_bind)
  show "hoare fresh m (\<lambda>_ b. fresh b \<and> P) (stops (P \<and> Q))"
    using assms(1) unfolding decides_def by (rule hoare_post) (auto elim: stops_mono)
  show "hoare (\<lambda>b. fresh b \<and> P) k (\<lambda>_ b. fresh b \<and> P \<and> Q) (stops (P \<and> Q))"
  proof (cases P)
    case True
    then show ?thesis using assms(2) by (simp add: decides_def)
  qed (simp add: hoare_def)
qed

lemma decides_for_all: "(\<And>x. x \<in> set xs \<Longrightarrow> decides (P x) (f x)) \<Longrightarrow> decides (\<forall>x \<in> set xs. P x) (for_all xs f)"
  by (induction xs) (auto intro: decides_ret decides_then)

lemma decides_when: "(c \<Longrightarrow> decides P m) \<Longrightarrow> decides (c \<longrightarrow> P) (whenE c m)"
  by (cases c) (simp_all add: whenE_def decides_ret)

text \<open>
  Going on after an answer, a value and a test, in a triple whose exceptional postcondition
  tolerates giving up: raising, or a mismatch with the budget exhausted.
\<close>

definition tolerant :: "(eval_stop \<Rightarrow> budget \<Rightarrow> bool) \<Rightarrow> bool" where
  "tolerant E \<longleftrightarrow> (\<forall>x b. stops True x b \<longrightarrow> E x b)"

lemma tolerant_stops [simp]: "tolerant (stops P)"
  by (auto simp: tolerant_def elim: stops_mono)

lemma exhausted_stops: "tolerant E \<Longrightarrow> \<not> fresh b \<Longrightarrow> E (Mismatch p r) b"
  by (simp add: tolerant_def stops_def)

lemma fail_if_exhausted_then:
  "thenE (fail_if_exhausted path) k b =
     (if fresh b then k b else (Inl (Mismatch path (js ''schema evaluation budget exceeded'')), b))"
  by (simp add: fail_if_exhausted_def budgetFailure_def mismatch_def exec_simps)

lemma bind_answer:
  assumes "reports P m" and "P \<Longrightarrow> hoare fresh kt Q E" and "\<not> P \<Longrightarrow> hoare fresh kf Q E" and "tolerant E"
  shows "hoare fresh (bindE m (\<lambda>a. if a then kt else thenE (fail_if_exhausted path) kf)) Q E"
proof (rule hoare_bind)
  show "hoare fresh m (\<lambda>a b. (a \<longrightarrow> fresh b) \<and> (fresh b \<longrightarrow> a = P)) E"
    using assms(1) unfolding reports_def
    by (rule hoare_post) (use assms(4) in \<open>auto simp: tolerant_def\<close>)
  show "hoare (\<lambda>b. (a \<longrightarrow> fresh b) \<and> (fresh b \<longrightarrow> a = P))
      (if a then kt else thenE (fail_if_exhausted path) kf) Q E" for a
    using assms(2,3) exhausted_stops [OF assms(4)]
    by (cases P; cases a) (auto simp: hoare_def fail_if_exhausted_then)
qed

lemma bind_checked:
  assumes "reports P m" and "hoare fresh (k P) Q E" and "tolerant E"
  shows "hoare fresh (bindE m (\<lambda>a. thenE (fail_if_exhausted path) (k a))) Q E"
proof (rule hoare_bind)
  show "hoare fresh m (\<lambda>a b. (a \<longrightarrow> fresh b) \<and> (fresh b \<longrightarrow> a = P)) E"
    using assms(1) unfolding reports_def
    by (rule hoare_post) (use assms(3) in \<open>auto simp: tolerant_def\<close>)
  show "hoare (\<lambda>b. (a \<longrightarrow> fresh b) \<and> (fresh b \<longrightarrow> a = P)) (thenE (fail_if_exhausted path) (k a)) Q E" for a
    using assms(2) exhausted_stops [OF assms(3)]
    by (auto simp: hoare_def fail_if_exhausted_then)
qed

lemma bind_value:
  assumes "yields a m" and "hoare fresh (k a) Q E" and "tolerant E"
  shows "hoare fresh (bindE m k) Q E"
proof (rule hoare_bind)
  show "hoare fresh m (\<lambda>r b. fresh b \<and> r = a) E"
    using assms(1) unfolding yields_def by (rule hoare_post) (use assms(3) in \<open>auto simp: tolerant_def\<close>)
  show "hoare (\<lambda>b. fresh b \<and> r = a) (k r) Q E" for r
    using assms(2) by (auto simp: hoare_def)
qed

lemma regex_tested: "hoare fresh (testSchemaRegex ctx pattern s)
    (\<lambda>r b. snd r = eb_exhausted b \<and> (fresh b \<longrightarrow> fst r = regex_holds ctx pattern s))
    (\<lambda>_ _. False)"
  unfolding testSchemaRegex_def
  by (rule hoare_bind [OF consumed])
     (auto simp: hoare_def schemaRegex_def regex_holds_def exec_simps)

lemma bind_test:
  assumes "hoare fresh (k (regex_holds ctx pattern s)) Q E" and "tolerant E"
  shows "hoare fresh (bindE (testSchemaRegex ctx pattern s)
     (\<lambda>(matched, exhausted). if exhausted then budgetFailure path else k matched)) Q E"
proof (rule hoare_bind)
  show "hoare fresh (testSchemaRegex ctx pattern s)
    (\<lambda>r b. snd r = eb_exhausted b \<and> (fresh b \<longrightarrow> fst r = regex_holds ctx pattern s)) E"
    by (rule hoare_post [OF regex_tested]) auto
  show "hoare (\<lambda>b. snd a = eb_exhausted b \<and> (fresh b \<longrightarrow> fst a = regex_holds ctx pattern s))
      (case a of (matched, exhausted) \<Rightarrow> if exhausted then budgetFailure path else k matched) Q E" for a
    using assms(1) exhausted_stops [OF assms(2)]
    by (cases a) (auto simp: hoare_def budgetFailure_def mismatch_def throw_def)
qed

lemma reports_is_valid: "decides P m \<Longrightarrow> reports P (is_valid m)"
  unfolding outcome_defs is_valid_def
  by (fastforce simp: exec_simps split: prod.splits sum.splits eval_stop.splits)

lemma yields_any_valid:
  "(\<And>x. x \<in> set xs \<Longrightarrow> decides (P x) (f x)) \<Longrightarrow> yields (\<exists>x \<in> set xs. P x) (any_valid path (map f xs))"
proof (induction xs)
  case (Cons x xs)
  then have ih: "yields (\<exists>x \<in> set xs. P x) (any_valid path (map f xs))" by simp
  show ?case
    unfolding yields_def list.map any_valid.simps
    by (rule bind_answer [OF reports_is_valid [OF Cons.prems]])
       (use ih in \<open>auto simp: yields_def hoare_ret\<close>)
qed (simp add: yields_def hoare_ret)

lemma yields_count_valid:
  "(\<And>x. x \<in> set xs \<Longrightarrow> decides (P x) (f x)) \<Longrightarrow>
   yields (n + length (filter P xs)) (count_valid path (map f xs) n)"
proof (induction xs arbitrary: n)
  case (Cons x xs)
  have ih: "yields (m + length (filter P xs)) (count_valid path (map f xs) m)" for m
    using Cons by simp
  show ?case
    unfolding yields_def list.map count_valid.simps
    by (rule bind_checked [OF reports_is_valid [OF Cons.prems]])
       (use ih [of n] ih [of "Suc n"] in \<open>auto simp: yields_def\<close>)
qed (simp add: yields_def hoare_ret)

section \<open>Comparison and canonical text\<close>

lemma entering_cost:
  assumes "hoare fresh k Q E" and "hoare (\<lambda>b. \<not> fresh b) kf Q E"
  shows "hoare fresh (bindE (consumeEvaluationBudget cost) (\<lambda>ok. if \<not> ok then kf else k)) Q E"
proof (rule hoare_bind)
  show "hoare fresh (consumeEvaluationBudget cost) (\<lambda>a b. a = fresh b) E"
    by (rule hoare_post [OF consumed]) auto
  show "hoare (\<lambda>b. a = fresh b) (if \<not> a then kf else k) Q E" for a
    using assms by (cases a) simp_all
qed

lemma reports_ret: "a = P \<Longrightarrow> reports P (ret a)"
  by (simp add: outcome_defs ret_def)

lemma reports_and:
  assumes "reports P m" and "P \<Longrightarrow> reports Q k"
  shows "reports (P \<and> Q) (bindE m (\<lambda>eq. if eq then k else ret False))"
  unfolding reports_def
proof (rule hoare_bind)
  show "hoare fresh m (\<lambda>a b. (a \<longrightarrow> fresh b) \<and> (fresh b \<longrightarrow> a = P)) (stops True)"
    using assms(1) by (simp add: reports_def)
  show "hoare (\<lambda>b. (a \<longrightarrow> fresh b) \<and> (fresh b \<longrightarrow> a = P)) (if a then k else ret False)
      (\<lambda>a b. (a \<longrightarrow> fresh b) \<and> (fresh b \<longrightarrow> a = (P \<and> Q))) (stops True)" for a
    using assms(2) by (cases a; cases P) (auto simp: reports_def hoare_def ret_def)
qed

lemma map_prod_lists:
  "map (map_prod id f) xs = map (map_prod id f) ys \<longleftrightarrow>
   map fst xs = map fst ys \<and> map f (map snd xs) = map f (map snd ys)"
proof (induction xs arbitrary: ys)
  case (Cons x xs)
  then show ?case by (cases ys) (auto simp: map_prod_fst_snd)
qed simp

lemma norm_object: "json_norm (Object ms) = Object (map (map_prod id json_norm) (sort_key fst ms))"
  by (simp add: sort_key_map_prod)

lemma reports_deepEqual:
  "is_json v \<Longrightarrow> reports (json_norm v = json_norm w) (deepEqualJson v w)"
  "\<forall>v \<in> set xs. is_json v \<Longrightarrow> length xs = length ys \<Longrightarrow>
     reports (map json_norm xs = map json_norm ys) (deepEqualItems xs ys)"
proof (induction v w and xs ys rule: deepEqualJson_deepEqualItems.induct)
  case (1 v w)
  have "reports (json_norm v = json_norm w) (case v of
            Number a \<Rightarrow> (case w of Number b \<Rightarrow> ret (a = b \<and> a \<noteq> NaN) | _ \<Rightarrow> ret False)
          | Array xs \<Rightarrow>
              (case w of
                 Array ys \<Rightarrow> if length xs \<noteq> length ys then ret False else deepEqualItems xs ys
               | _ \<Rightarrow> ret False)
          | Object ms \<Rightarrow>
              (case w of
                 Object ns \<Rightarrow>
                   if map fst (sort_key fst ms) \<noteq> map fst (sort_key fst ns) then ret False
                   else deepEqualItems (map snd (sort_key fst ms)) (map snd (sort_key fst ns))
               | _ \<Rightarrow> ret False)
          | _ \<Rightarrow> ret (v = w))"
  proof (cases v)
    case (Array xs)
    show ?thesis
    proof (cases w)
      case ys: (Array ys)
      show ?thesis using 1 Array ys
        by (auto intro!: reports_ret dest: map_eq_imp_length_eq)
    qed (auto simp: Array intro: reports_ret)
  next
    case (Object ms)
    show ?thesis
    proof (cases w)
      case ns: (Object ns)
      show ?thesis
      proof (cases "map fst (sort_key fst ms) = map fst (sort_key fst ns)")
        case True
        then have "length (map snd (sort_key fst ms)) = length (map snd (sort_key fst ns))"
          by (metis length_map)
        moreover have "\<forall>v \<in> set (map snd (sort_key fst ms)). is_json v"
          using 1(3) Object by auto
        ultimately have "reports (map json_norm (map snd (sort_key fst ms)) = map json_norm (map snd (sort_key fst ns)))
            (deepEqualItems (map snd (sort_key fst ms)) (map snd (sort_key fst ns)))"
          using 1(2) [OF _ Object ns] True by simp
        then show ?thesis using True by (simp add: Object ns norm_object map_prod_lists del: json_norm.simps map_map)
      qed (simp add: Object ns norm_object map_prod_lists reports_ret del: json_norm.simps map_map)
    qed (auto simp: Object intro: reports_ret)
  next
    case (Number n)
    then show ?thesis using 1(3) by (cases w) (auto intro: reports_ret)
  qed (cases w; auto intro: reports_ret)+
  then show ?case
    unfolding deepEqualJson.simps reports_def
    by (intro entering_cost) (simp_all add: hoare_ret)
next
  case (2 x xs y ys)
  then show ?case by (auto intro: reports_and)
qed (simp_all add: reports_ret)

text \<open>An evaluation renders the outcome of a pure function.\<close>

definition renders :: "js_exn + 'a \<Rightarrow> 'a evaluation \<Rightarrow> bool" where
  "renders r m \<longleftrightarrow> hoare fresh m (\<lambda>t b. fresh b \<and> r = Inr t) (\<lambda>_ b. fresh b \<longrightarrow> (\<exists>x. r = Inl x))"

lemma renders_ret: "r = Inr t \<Longrightarrow> renders r (ret t)"
  by (simp add: renders_def hoare_def ret_def)

lemma renders_throw: "r = Inl x \<Longrightarrow> renders r (throw y)"
  by (simp add: renders_def hoare_def throw_def)

lemma renders_bind:
  assumes "renders r m" and "\<And>t. r = Inr t \<Longrightarrow> renders (f t) (k t)"
  shows "renders (case r of Inl x \<Rightarrow> Inl x | Inr t \<Rightarrow> f t) (bindE m k)"
  unfolding renders_def
proof (rule hoare_bind)
  show "hoare fresh m (\<lambda>t b. fresh b \<and> r = Inr t)
      (\<lambda>_ b. fresh b \<longrightarrow> (\<exists>x. (case r of Inl x \<Rightarrow> Inl x | Inr t \<Rightarrow> f t) = Inl x))"
    using assms(1) unfolding renders_def by (rule hoare_post) auto
  show "hoare (\<lambda>b. fresh b \<and> r = Inr t) (k t) (\<lambda>u b. fresh b \<and> (case r of Inl x \<Rightarrow> Inl x | Inr t \<Rightarrow> f t) = Inr u)
      (\<lambda>_ b. fresh b \<longrightarrow> (\<exists>x. (case r of Inl x \<Rightarrow> Inl x | Inr t \<Rightarrow> f t) = Inl x))" for t
  proof (cases "r = Inr t")
    case True
    then show ?thesis using assms(2) [OF True] by (simp add: renders_def)
  qed (simp add: hoare_def)
qed

lemma canonical_within:
  "renders (canonicalizeValue numtext v) (canonicalWithin numtext v)"
  "renders (canonicalizeItems numtext items) (canonicalItemsWithin numtext items)"
  "renders (canonicalizeMembers numtext members) (canonicalMembersWithin numtext members)"
proof (induction numtext v and numtext items and numtext members
    rule: canonicalWithin_canonicalItemsWithin_canonicalMembersWithin.induct)
  case (1 numtext v)
  have "renders (canonicalizeValue numtext v) (case v of
            Null \<Rightarrow> ret (js ''null'')
          | Text s \<Rightarrow> ret (json_quote s)
          | Boolean b \<Rightarrow> ret (if b then js ''true'' else js ''false'')
          | Number n \<Rightarrow>
              if \<not> is_finite n then throw (Raised (TypeErrorExn ''canonical JSON numbers must be finite''))
              else ret (numtext (fin_val n))
          | Array items \<Rightarrow> bindE (canonicalItemsWithin numtext items)
              (\<lambda>texts. ret (91 # join_commas texts @ [93]))
          | Object members \<Rightarrow> bindE (canonicalMembersWithin numtext (sort_key fst members))
              (\<lambda>texts. ret (123 # join_commas texts @ [125]))
          | _ \<Rightarrow> throw (Raised (TypeErrorExn ''value is not canonical JSON'')))"
    using 1 by (cases v) (auto simp: canonicalizeValue.simps intro!: renders_ret renders_throw renders_bind)
  then show ?case
    unfolding canonicalWithin.simps renders_def by (rule entering_cost) (simp add: hoare_throw)
next
  case (3 numtext item items)
  then show ?case
    unfolding canonicalItemsWithin.simps canonicalizeItems.simps
    by (intro renders_bind renders_ret) auto
next
  case (5 numtext key item members)
  have "renders (case canonicalizeValue numtext (Text key) of Inl x \<Rightarrow> Inl x | Inr name \<Rightarrow>
      (case canonicalizeValue numtext item of Inl x \<Rightarrow> Inl x | Inr text \<Rightarrow>
      (case canonicalizeMembers numtext members of Inl x \<Rightarrow> Inl x
       | Inr texts \<Rightarrow> Inr ((name @ 58 # text) # texts)))) (canonicalMembersWithin numtext ((key, item) # members))"
    unfolding canonicalMembersWithin.simps by (intro renders_bind renders_ret refl 5)
  then show ?case
    unfolding canonicalizeMembers.simps member_text_def fst_conv snd_conv
    by (simp add: canonicalizeValue.simps [of _ "Text key"])
qed (simp_all add: renders_ret)

section \<open>Every keyword decides its condition\<close>

lemma decides_const: "is_json v \<Longrightarrow> decides (const_conforms v schema) (match_const v schema path)"
proof (cases "own schema ''const''")
  case (Some c)
  assume "is_json v"
  then show ?thesis
    unfolding decides_def match_const_def Some option.case
    by (intro bind_answer [OF reports_deepEqual(1)])
       (simp_all add: const_conforms_def Some hoare_ret mismatch_def hoare_throw stops_def)
qed (simp add: match_const_def const_conforms_def decides_ret)

lemma yields_enum:
  "is_json v \<Longrightarrow> yields (json_norm v \<in> json_norm ` set entries) (in_enum path v entries)"
proof (induction entries)
  case (Cons e es)
  then show ?case
    unfolding yields_def in_enum.simps
    by (intro bind_answer [OF reports_deepEqual(1)]) (auto simp: yields_def hoare_ret)
qed (simp add: yields_def hoare_ret)

lemma decides_value:
  assumes "yields a m" and "decides P (k a)"
  shows "decides P (bindE m k)"
  using assms unfolding decides_def by (intro bind_value) auto

lemma decides_enum: "is_json v \<Longrightarrow> decides (enum_conforms v schema) (match_enum v schema path)"
  unfolding match_enum_def enum_conforms_def
  by (auto split: option.split jsval.split
      intro!: decides_ret decides_value [OF yields_enum] decides_eq [OF decides_forbid])

lemma decides_type: "decides (type_conforms v schema) (match_type v schema path)"
proof (cases "own schema ''type''")
  case (Some w)
  show ?thesis
    by (cases w)
       (simp_all add: match_type_def type_conforms_def Some list_ex_iff decides_raise
          decides_eq [OF decides_forbid])
qed (simp add: match_type_def type_conforms_def decides_ret)

lemma decides_number: "decides (number_conforms ctx v schema) (match_number ctx v schema path)"
  unfolding match_number_def number_conforms_def
  by (cases v) (auto simp del: de_Morgan_conj intro!: decides_ret decides_then decides_forbid)

lemma decides_test:
  assumes "decides P (k (regex_holds ctx pattern s))"
  shows "decides P (bindE (testSchemaRegex ctx pattern s)
     (\<lambda>(matched, exhausted). if exhausted then budgetFailure path else k matched))"
  using assms unfolding decides_def by (rule bind_test) simp

lemma decides_string: "decides (string_conforms ctx v schema) (match_string ctx v schema path)"
proof (cases v)
  case (Text s)
  have "decides (case own schema ''pattern'' of Some (Text pattern) \<Rightarrow> regex_holds ctx pattern s | _ \<Rightarrow> True)
     (case own schema ''pattern'' of
            Some (Text pattern) \<Rightarrow> bindE (testSchemaRegex ctx pattern s)
              (\<lambda>(matched, exhausted).
                 if exhausted then budgetFailure path
                 else forbid (\<not> matched) path ''string does not match pattern'')
          | _ \<Rightarrow> ret ())"
    by (auto split: option.split jsval.split intro!: decides_ret decides_test decides_eq [OF decides_forbid])
  then show ?thesis
    unfolding match_string_def string_conforms_def Text jsval.case
    by (intro decides_then decides_forbid)
qed (simp_all add: match_string_def string_conforms_def decides_ret)

lemma decides_reference:
  assumes "\<And>refs' s. (\<And>t. refs' t \<le> Suc (refs t)) \<Longrightarrow> decides (sub v s) (deeper refs' v s path)"
    and "\<And>s. (\<exists>t. refs t \<ge> sx_maxDepth ctx) \<Longrightarrow> \<not> sub v s"
  shows "decides (reference_conforms ctx sub v schema) (match_reference ctx deeper refs v schema path)"
  unfolding match_reference_def reference_conforms_def
  using assms(2)
  by (auto split: option.split intro!: decides_ret decides_mismatch assms(1))

lemma decides_catch:
  assumes "renders r m" and "\<And>t. r = Inr t \<Longrightarrow> decides P (k t)" and "\<And>x. r \<noteq> Inl x"
  shows "decides P (bindE (catchE m (\<lambda>_. thenE (fail_if_exhausted path) f)) k)"
  unfolding decides_def
proof (rule hoare_bind)
  show "hoare fresh (catchE m (\<lambda>_. thenE (fail_if_exhausted path) f)) (\<lambda>t b. fresh b \<and> r = Inr t) (stops P)"
  proof (intro hoareI)
    fix b x t
    assume b: "fresh b" and run: "catchE m (\<lambda>_. thenE (fail_if_exhausted path) f) b = (Inl x, t)"
    then obtain y u where m: "m b = (Inl y, u)" "thenE (fail_if_exhausted path) f u = (Inl x, t)"
      by (auto simp: catchE_def split: prod.splits sum.splits)
    have "\<not> fresh u" using hoare_Inl [OF assms(1) [unfolded renders_def] b m(1)] assms(3) by auto
    then show "stops P x t" using m(2) by (auto simp: fail_if_exhausted_then stops_def)
  next
    fix b a t
    assume b: "fresh b" and run: "catchE m (\<lambda>_. thenE (fail_if_exhausted path) f) b = (Inr a, t)"
    show "fresh t \<and> r = Inr a"
    proof (cases "m b")
      case (Pair o' u)
      show ?thesis
      proof (cases o')
        case (Inl y)
        then have "\<not> fresh u" using hoare_Inl [OF assms(1) [unfolded renders_def] b] assms(3) Pair by auto
        then show ?thesis using run Pair Inl by (simp add: catchE_def fail_if_exhausted_then)
      next
        case (Inr c)
        then show ?thesis using run Pair hoare_Inr [OF assms(1) [unfolded renders_def] b]
          by (auto simp: catchE_def)
      qed
    qed
  qed
  show "hoare (\<lambda>b. fresh b \<and> r = Inr t) (k t) (\<lambda>_ b. fresh b \<and> P) (stops P)" for t
    using assms(2) by (cases "r = Inr t") (auto simp: decides_def hoare_def)
qed

lemma decides_unique:
  assumes "number_texts (we_numtext (sx_env ctx))"
  shows "\<forall>v \<in> set items. is_json v \<Longrightarrow> \<forall>v \<in> set seen. is_json v \<Longrightarrow>
    set signatures = (\<lambda>v. stringify (we_numtext (sx_env ctx)) (json_norm v)) ` set seen \<Longrightarrow>
    decides (distinct (map json_norm items) \<and> json_norm ` set items \<inter> json_norm ` set seen = {})
      (match_unique ctx path signatures items)"
proof (induction items arbitrary: seen signatures)
  case (Cons item items)
  let ?text = "\<lambda>v. stringify (we_numtext (sx_env ctx)) (json_norm v)"
  have rendered: "canonicalizeValue (we_numtext (sx_env ctx)) item = Inr (?text item)"
    using Cons.prems by (intro canonical_text) auto
  have same: "?text item \<in> set signatures \<longleftrightarrow> json_norm item \<in> json_norm ` set seen"
  proof -
    have "?text item = ?text v \<longleftrightarrow> json_norm item = json_norm v" if "v \<in> set seen" for v
      using that Cons.prems assms stringify_inject [of "we_numtext (sx_env ctx)" "json_norm item" "json_norm v"]
      by auto
    then show ?thesis using Cons.prems(3) by (simp add: image_iff)
  qed
  have ih: "decides (distinct (map json_norm items) \<and> json_norm ` set items \<inter> json_norm ` set (item # seen) = {})
      (match_unique ctx path (?text item # signatures) items)"
    using Cons.prems by (intro Cons.IH) auto
  have "decides (distinct (map json_norm (item # items)) \<and> json_norm ` set (item # items) \<inter> json_norm ` set seen = {})
     (bindE (catchE (canonicalizeJsonWithinBudget ctx item)
               (\<lambda>_. thenE (fail_if_exhausted path) (mismatch path ''array items are not valid JSON'')))
          (\<lambda>signature.
             if signature \<in> set signatures then mismatch path ''array items are not unique''
             else match_unique ctx path (signature # signatures) items))"
    unfolding canonicalizeJsonWithinBudget_def
  proof (rule decides_catch [OF canonical_within(1)])
    fix t
    assume "canonicalizeValue (we_numtext (sx_env ctx)) item = Inr t"
    then have t: "t = ?text item" using rendered by simp
    show "decides (distinct (map json_norm (item # items)) \<and> json_norm ` set (item # items) \<inter> json_norm ` set seen = {})
        (if t \<in> set signatures then mismatch path ''array items are not unique''
         else match_unique ctx path (t # signatures) items)"
    proof (cases "t \<in> set signatures")
      case True
      then show ?thesis using same t by (auto intro!: decides_mismatch)
    next
      case False
      then show ?thesis using same t ih by (auto elim!: decides_eq)
    qed
  qed (simp add: rendered)
  then show ?case
    unfolding match_unique.simps decides_def
    by (rule entering_cost) (simp add: budgetFailure_def mismatch_def hoare_throw stops_def)
qed (simp add: decides_ret)

lemma decides_enumerate:
  assumes "\<And>i x. x \<in> set xs \<Longrightarrow> decides (P x) (f i x)"
  shows "decides (\<forall>x \<in> set (drop k xs). P x) (for_all (drop k (enumerate n xs)) (\<lambda>(i, x). f i x))"
proof -
  have "decides (\<forall>p \<in> set (drop k (enumerate n xs)). P (snd p)) (for_all (drop k (enumerate n xs)) (\<lambda>(i, x). f i x))"
    by (rule decides_for_all) (use assms in_set_dropD set_zip_rightD in \<open>fastforce simp: enumerate_eq_zip\<close>)
  moreover have "map snd (drop k (enumerate n xs)) = drop k xs"
    by (simp add: drop_map [symmetric])
  then have "set (drop k xs) = snd ` set (drop k (enumerate n xs))"
    by (metis list.set_map)
  ultimately show ?thesis by (auto elim!: decides_eq)
qed

lemma decides_contains:
  assumes "\<And>v s path. v \<in> set items \<Longrightarrow> decides (subc v s) (sub v s path)"
  shows "decides (contains_conforms subc items schema) (match_contains sub items schema path)"
proof (cases "own schema ''contains''")
  case (Some s)
  have "yields (0 + length (filter (\<lambda>p. subc (snd p) s) (enumerate 0 items)))
      (count_valid path (map (\<lambda>(i, item). sub item s (at_index path i)) (enumerate 0 items)) 0)"
    by (rule yields_count_valid) (use assms in \<open>auto simp: enumerate_eq_zip dest: set_zip_rightD\<close>)
  moreover have "length (filter (\<lambda>p. subc (snd p) s) (enumerate n items)) = length (filter (\<lambda>v. subc v s) items)" for n
    by (induction items arbitrary: n) auto
  ultimately have n: "yields (length (filter (\<lambda>v. subc v s) items))
      (count_valid path (map (\<lambda>(i, item). sub item s (at_index path i)) (enumerate 0 items)) 0)"
    by simp
  show ?thesis
    unfolding match_contains_def contains_conforms_def Some option.case
    by (rule decides_value [OF n], rule decides_eq [OF decides_forbid]) auto
qed (simp add: match_contains_def contains_conforms_def decides_ret)

lemma decides_array:
  assumes "number_texts (we_numtext (sx_env ctx))" and "is_json v"
    and sub: "\<And>v s path. is_json v \<Longrightarrow> decides (subc v s) (sub v s path)"
  shows "decides (array_conforms subc v schema) (match_array ctx sub v schema path)"
proof (cases v)
  case (Array items)
  have items: "\<forall>v \<in> set items. is_json v" using assms(2) Array by simp
  have u: "decides (own schema ''uniqueItems'' = Some (Boolean True) \<longrightarrow> distinct (map json_norm items))
      (whenE (own schema ''uniqueItems'' = Some (Boolean True)) (match_unique ctx path [] items))"
    using decides_unique [OF assms(1) items, of "[]" "[]" path] by (auto intro!: decides_when)
  have p: "decides (\<forall>(item, s) \<in> set (zip items (own_array schema ''prefixItems'')). subc item s)
      (for_all (enumerate 0 (zip items (own_array schema ''prefixItems'')))
                   (\<lambda>(i, item, s). sub item s (at_index path i)))"
  proof -
    have "decides (case x of (item, s) \<Rightarrow> subc item s) (case x of (item, s) \<Rightarrow> sub item s (at_index path i))"
      if x: "x \<in> set (zip items (own_array schema ''prefixItems''))" for i x
    proof (cases x)
      case (Pair v s)
      then show ?thesis using items sub x set_zip_leftD by fastforce
    qed
    from decides_enumerate [OF this, where k = 0 and n = 0] show ?thesis by (simp only: drop_0)
  qed
  have i: "decides (case own schema ''items'' of
             None \<Rightarrow> True
           | Some s \<Rightarrow> \<forall>item \<in> set (drop (length (own_array schema ''prefixItems'')) items). subc item s)
         (case own schema ''items'' of
                   None \<Rightarrow> ret ()
                 | Some s \<Rightarrow> for_all (drop (length (own_array schema ''prefixItems'')) (enumerate 0 items))
                     (\<lambda>(i, item). sub item s (at_index path i)))"
    using items sub by (auto split: option.split intro!: decides_ret decides_enumerate)
  show ?thesis
    unfolding match_array_def array_conforms_def Array jsval.case
    by (intro decides_then decides_forbid u p i decides_contains) (use items sub in auto)
qed (simp_all add: match_array_def array_conforms_def decides_ret)

lemma decides_pairs:
  "(\<And>a b. (a, b) \<in> set xs \<Longrightarrow> decides (P a b) (f a b)) \<Longrightarrow>
   decides (\<forall>(a, b) \<in> set xs. P a b) (for_all xs (\<lambda>(a, b). f a b))"
  using decides_for_all [of xs "\<lambda>(a, b). P a b" "\<lambda>(a, b). f a b"] by auto

lemma decides_required:
  "decides (names_present members names) (match_required path members reason names)"
proof -
  have "decides (\<forall>k \<in> set names. case k of Text t \<Rightarrow> map_of members t \<noteq> None | _ \<Rightarrow> True)
      (match_required path members reason names)"
    unfolding match_required_def
  proof (rule decides_for_all)
    fix k
    show "decides (case k of Text t \<Rightarrow> map_of members t \<noteq> None | _ \<Rightarrow> True)
        (case k of Text t \<Rightarrow> forbid (map_of members t = None) (at_member path t) reason | _ \<Rightarrow> ret ())"
      by (cases k) (simp_all add: decides_ret decides_eq [OF decides_forbid])
  qed
  then show ?thesis
    by (rule decides_eq) (auto simp: names_present_def split: jsval.splits)
qed

lemma yields_any_pattern:
  "yields (\<exists>p \<in> set ps. regex_holds ctx (fst p) name) (any_pattern ctx path name ps)"
proof (induction ps)
  case (Cons p ps)
  then show ?case
    unfolding yields_def any_pattern.simps
    by (intro bind_test) (auto simp: yields_def hoare_ret)
qed (simp add: yields_def hoare_ret)

lemma decides_additional:
  assumes "\<And>v s path. is_json v \<Longrightarrow> decides (subc v s) (sub v s path)"
    and "\<forall>m \<in> set members. is_json (snd m)"
  shows "decides (case own schema ''additionalProperties'' of
             None \<Rightarrow> True
           | Some s \<Rightarrow> \<forall>(name, v) \<in> set members. additional ctx schema name \<longrightarrow> s \<noteq> Boolean False \<and> subc v s)
     (match_additional ctx sub members schema path)"
proof (cases "own schema ''additionalProperties''")
  case (Some s)
  show ?thesis
    unfolding match_additional_def Some option.case
  proof (rule decides_pairs)
    fix name v
    assume m: "(name, v) \<in> set members"
    show "decides (additional ctx schema name \<longrightarrow> s \<noteq> Boolean False \<and> subc v s)
       (if name \<in> set (map fst (own_object schema ''properties'')) then ret ()
        else bindE (any_pattern ctx path name (own_object schema ''patternProperties''))
          (\<lambda>matchedPattern.
             if matchedPattern then ret ()
             else if s = Boolean False
             then mismatch (at_member path name) ''additional property is not allowed''
             else sub v s (at_member path name)))"
    proof (cases "name \<in> set (map fst (own_object schema ''properties''))")
      case False
      have "decides (subc v s) (sub v s (at_member path name))"
        using m assms by fastforce
      then show ?thesis
        using False
        by (auto simp: additional_def intro!: decides_value [OF yields_any_pattern] decides_ret decides_mismatch
            elim: decides_eq)
    qed (auto simp: additional_def intro: decides_ret)
  qed
qed (simp add: match_additional_def decides_ret)

lemma decides_object:
  assumes "is_json v" and sub: "\<And>v s path. is_json v \<Longrightarrow> decides (subc v s) (sub v s path)"
  shows "decides (object_conforms ctx subc v schema) (match_object ctx sub v schema path)"
proof (cases v)
  case (Object members)
  have members: "\<forall>m \<in> set members. is_json (snd m)" using assms(1) Object by simp
  then have found: "map_of members name = Some w \<Longrightarrow> is_json w" for name w
    by (fastforce dest: map_of_SomeD)
  have p: "decides (\<forall>(name, s) \<in> set (own_object schema ''properties''). \<forall>v. map_of members name = Some v \<longrightarrow> subc v s)
      (match_properties sub members schema path)"
    unfolding match_properties_def
    by (rule decides_pairs) (auto split: option.split intro!: decides_ret sub dest: found)
  have pp: "decides (\<forall>(pattern, s) \<in> set (own_object schema ''patternProperties''). \<forall>(name, v) \<in> set members.
             regex_holds ctx pattern name \<longrightarrow> subc v s) (match_patternProperties ctx sub members schema path)"
    unfolding match_patternProperties_def
    by (intro decides_pairs decides_test decides_when sub) (use members in fastforce)
  have dr: "decides (\<forall>(name, names) \<in> set (own_object schema ''dependentRequired'').
             map_of members name \<noteq> None \<longrightarrow> (\<forall>ns. names = Array ns \<longrightarrow> names_present members ns))
      (match_dependentRequired members schema path)"
    unfolding match_dependentRequired_def
    by (rule decides_pairs)
       (auto split: jsval.split intro!: decides_ret decides_eq [OF decides_when] decides_required)
  have ds: "decides (\<forall>(name, s) \<in> set (own_object schema ''dependentSchemas''). map_of members name \<noteq> None \<longrightarrow> subc v s)
      (for_all (own_object schema ''dependentSchemas'')
         (\<lambda>(name, s). whenE (map_of members name \<noteq> None) (sub v s path)))"
    by (intro decides_pairs decides_when sub assms(1))
  have n: "decides (case own schema ''propertyNames'' of
             None \<Rightarrow> True
           | Some s \<Rightarrow> \<forall>(name, _) \<in> set members. subc (Text name) s)
      (case own schema ''propertyNames'' of
            None \<Rightarrow> ret ()
          | Some s \<Rightarrow> for_all members (\<lambda>(name, _). sub (Text name) s (at_member path name)))"
    by (auto split: option.split intro!: decides_ret decides_pairs sub)
  show ?thesis
    unfolding match_object_def object_conforms_def Object jsval.case
    by (intro decides_then decides_forbid decides_required p pp dr n decides_additional sub members)
       (use ds Object in simp_all)
qed (simp_all add: match_object_def object_conforms_def decides_ret)

lemma decides_combinators:
  assumes sub: "\<And>s path. decides (subc v s) (sub v s path)"
  shows "decides (combinators_conform subc v schema) (match_combinators sub v schema path)"
proof -
  have any: "decides (case own schema ''anyOf'' of Some (Array ss) \<Rightarrow> \<exists>s \<in> set ss. subc v s | _ \<Rightarrow> True)
      (match_anyOf sub v schema path)"
    unfolding match_anyOf_def
    by (auto split: option.split jsval.split
        intro!: decides_ret decides_value [OF yields_any_valid [OF sub]] decides_eq [OF decides_forbid])
  have one: "decides (case own schema ''oneOf'' of Some (Array ss) \<Rightarrow> length (filter (subc v) ss) = 1 | _ \<Rightarrow> True)
      (match_oneOf sub v schema path)"
    unfolding match_oneOf_def
    by (auto split: option.split jsval.split
        intro!: decides_ret decides_value [OF yields_count_valid [OF sub]] decides_eq [OF decides_forbid])
  have no: "decides (case own schema ''not'' of Some s \<Rightarrow> \<not> subc v s | None \<Rightarrow> True) (match_not sub v schema path)"
  proof (cases "own schema ''not''")
    case (Some s)
    show ?thesis
      unfolding match_not_def Some option.case decides_def
      by (rule bind_checked [OF reports_is_valid [OF sub]])
         (use decides_forbid in \<open>simp_all add: decides_def\<close>)
  qed (simp add: match_not_def decides_ret)
  have cond: "decides (case own schema ''if'' of
        None \<Rightarrow> True
      | Some s \<Rightarrow>
          (case own schema (if subc v s then ''then'' else ''else'') of None \<Rightarrow> True | Some t \<Rightarrow> subc v t))
      (match_if sub v schema path)"
  proof (cases "own schema ''if''")
    case (Some s)
    have "decides (case own schema k of None \<Rightarrow> True | Some t \<Rightarrow> subc v t)
        (case own schema k of None \<Rightarrow> ret () | Some t \<Rightarrow> sub v t path)" for k
      by (auto split: option.split intro!: decides_ret sub)
    then show ?thesis
      unfolding match_if_def Some option.case decides_def
      by (intro bind_checked [OF reports_is_valid [OF sub]]) simp_all
  qed (simp add: match_if_def decides_ret)
  show ?thesis
    unfolding match_combinators_def combinators_conform_def
    by (intro decides_then decides_for_all sub any one no cond)
qed

section \<open>The evaluation decides conformance\<close>

lemma entering_decides: "decides P m \<Longrightarrow> decides P (entering path m)"
  unfolding entering_def decides_def
  by (rule entering_cost) (simp_all add: budgetFailure_def mismatch_def hoare_throw stops_def)

lemma matchesSchema_decides:
  assumes "number_texts (we_numtext (sx_env ctx))"
  shows "is_json v \<Longrightarrow> (\<And>r. refs r + left \<le> Suc (sx_maxDepth ctx)) \<Longrightarrow>
    decides (conforms ctx left v schema) (matchesSchema ctx left refs v schema path)"
proof (induction left arbitrary: refs v schema path)
  case 0
  then show ?case by (simp add: entering_decides decides_mismatch)
next
  case (Suc left)
  have deeper: "decides (conforms ctx left w s) (matchesSchema ctx left refs' w s p)"
    if "is_json w" and "\<And>t. refs' t \<le> Suc (refs t)" for w s p refs'
  proof (rule Suc.IH [OF that(1)])
    fix r
    show "refs' r + left \<le> Suc (sx_maxDepth ctx)" using that(2) [of r] Suc.prems(2) [of r] by simp
  qed
  have sub: "decides (conforms ctx left w s) (matchesSchema ctx left refs w s p)" if "is_json w" for w s p
    by (rule deeper [OF that]) simp
  have last_level: "\<not> conforms ctx left v s" if "\<exists>t. refs t \<ge> sx_maxDepth ctx" for s
  proof -
    from that obtain t where "refs t \<ge> sx_maxDepth ctx" by blast
    then have "left = 0" using Suc.prems(2) [of t] by simp
    then show ?thesis by simp
  qed
  show ?case
  proof (cases schema)
    case (Object ms)
    show ?thesis
      unfolding matchesSchema.simps conforms.simps Object jsval.case match_keywords_def
      by (intro entering_decides decides_then decides_reference decides_type decides_const decides_enum
            decides_number decides_string decides_array decides_object decides_combinators assms deeper sub
            last_level Suc.prems(1))
  qed (simp_all add: entering_decides decides_ret decides_raise decides_forbid [of "\<not> b" for b, simplified])
qed

declare matchesSchema.simps [simp del] conforms.simps [simp del]

section \<open>Accepted values and replies\<close>

definition context_of :: "wire_env \<Rightarrow> resolved_limits \<Rightarrow> jsval \<Rightarrow> schema_context" where
  "context_of env limits schema =
     \<lparr>sx_env = env, sx_index = collectSchemaIndex schema, sx_maxDepth = whole (rl_maxDepth limits)\<rparr>"

definition satisfies :: "wire_env \<Rightarrow> resolved_limits \<Rightarrow> jsval \<Rightarrow> jsval \<Rightarrow> bool" where
  "satisfies env limits v schema \<longleftrightarrow> fits env limits 9007199254740991 v \<and>
     (\<exists>test. we_compile env schema = Some test \<and> test v) \<and>
     conforms (context_of env limits schema) (Suc (whole (rl_maxDepth limits))) v schema"

lemma property_own: "property v key =
   (case v of Object members \<Rightarrow> (case own members key of None \<Rightarrow> Undefined | Some w \<Rightarrow> w) | _ \<Rightarrow> Undefined)"
  by (cases v) (simp_all add: own_def)

lemma evaluated_conforms:
  assumes "number_texts (we_numtext env)" and "is_json v"
    and "evaluate_schema_on env limits v schema = Inr u"
  shows "conforms (context_of env limits schema) (Suc (whole (rl_maxDepth limits))) v schema"
proof -
  let ?ctx = "context_of env limits schema"
  let ?m = "matchesSchema ?ctx (Suc (whole (rl_maxDepth limits))) (\<lambda>_. 0) v schema (js ''$'')"
  let ?b = "createEvaluationBudget (whole (rl_maxNodes limits))"
  have "decides (conforms ?ctx (Suc (whole (rl_maxDepth limits))) v schema) ?m"
    by (rule matchesSchema_decides) (simp_all add: context_of_def assms)
  moreover have "fst (?m ?b) = Inr u"
    using assms(3) by (simp add: evaluate_schema_on_def Let_def context_of_def)
  then obtain t where "?m ?b = (Inr u, t)" by (cases "?m ?b") simp
  moreover have "fresh ?b" by (simp add: createEvaluationBudget_def)
  ultimately show ?thesis unfolding decides_def by (blast dest: hoare_Inr)
qed

lemma value_accepted:
  assumes "number_texts (we_numtext env)"
    and "validateJsonValueAgainstSchema env options v schema = Inr (Inr w)"
  obtains limits where "w = v" "resolveLimits options = Inr limits"
    "validateJsonSchema env options schema = Inr (Inr schema)" "satisfies env limits v schema"
proof -
  obtain s where s: "validateJsonSchema env options schema = Inr (Inr s)"
    using assms(2) by (auto simp: validateJsonValueAgainstSchema_def split: sum.splits)
  then have same: "s = schema" by (rule validateJsonSchema_ok)
  obtain u where u: "validateJsonValueInternal env options v (js ''$'') = Inr u"
    using assms(2) s by (auto simp: validateJsonValueAgainstSchema_def split: sum.splits stop.splits if_splits)
  obtain limits where l: "resolveLimits options = Inr limits"
    using assms(2) s u by (auto simp: validateJsonValueAgainstSchema_def split: sum.splits)
  have fit: "fits env limits 9007199254740991 v"
    using u json_value_fits [OF assms(1) l] by simp
  have c: "\<exists>test. we_compile env schema = Some test \<and> test v"
    using assms(2) s u l same
    by (auto simp: validateJsonValueAgainstSchema_def unsatisfied_def split: if_splits option.splits)
  have run: "evaluate_schema_on env limits v schema = Inr () \<and> w = v"
    using assms(2) s u l same c
    by (auto simp: validateJsonValueAgainstSchema_def unsatisfied_def split: if_splits sum.splits eval_stop.splits)
  then have "satisfies env limits v schema"
    using fit c evaluated_conforms [OF assms(1)] by (auto simp: satisfies_def fits_def)
  with that l run s same show thesis by blast
qed

lemma reply_accepted:
  assumes "number_texts (we_numtext env)"
    and "validateReplyContent env options content expected = Inr (Inr c)"
  shows "c = content \<and> (\<exists>cs es v schema limits. content = Object cs \<and> expected = Object es \<and>
     own cs ''type'' = Some (Text (js ''json'')) \<and> own cs ''value'' = Some v \<and> own es ''schema'' = Some schema \<and>
     resolveLimits options = Inr limits \<and> validateJsonSchema env options schema = Inr (Inr schema) \<and>
     satisfies env limits v schema)"
proof -
  obtain c' where c': "validateContent env options content = Inr (Inr c')"
    using assms(2) by (auto simp: validateReplyContent_def split: sum.splits)
  then have c: "c' = content" "validateTypedContentInternal env options content (js ''$'') = Inr ()"
    by (auto simp: validateContent_def outcome_of_def bindC_def split: sum.splits stop.splits)
  obtain e where e': "validateExpectedResponse env options expected = Inr (Inr e)"
    using assms(2) c' by (auto simp: validateReplyContent_def split: sum.splits)
  then have e: "e = expected" "validateExpectedResponseInternal env options expected (js ''$'') = Inr ()"
    by (auto simp: validateExpectedResponse_def outcome_of_def bindC_def split: sum.splits stop.splits)
  obtain es schema where es: "expected = Object es" "own es ''schema'' = Some schema"
    using e(2) by (auto simp: validateExpectedResponseInternal_def split: jsval.splits if_splits option.splits)
  have t: "property content ''type'' = Text (js ''json'')"
    using assms(2) c' e' c(1) by (auto simp: validateReplyContent_def split: if_splits)
  then obtain cs where cs: "content = Object cs" "own cs ''type'' = Some (Text (js ''json''))"
    by (auto simp: property_own split: jsval.splits option.splits)
  then obtain v where v: "own cs ''value'' = Some v"
    using c(2) by (auto simp: validateTypedContentInternal_def split: option.splits)
  have p: "property content ''value'' = v" "property expected ''schema'' = schema"
    by (simp_all add: property_own cs es v)
  have r: "(case validateJsonValueAgainstSchema env options v schema of
             Inl x \<Rightarrow> Inl x
           | Inr (Inl e) \<Rightarrow>
               if pe_code e = EC_oversized then Inr (Inl e)
               else (case createProtocolError (\<lambda>q. utf8_length (we_numtext env q)) EC_invalid_reply
                   (js ''reply content does not satisfy the expected schema'')
                   (no_error_options\<lparr>eo_details := pe_details e\<rparr>) of
                 Inl x \<Rightarrow> Inl x
               | Inr e' \<Rightarrow> Inr (Inl e'))
           | Inr (Inr _) \<Rightarrow> Inr (Inr content)) = Inr (Inr c)"
    using assms(2) unfolding validateReplyContent_def c' e' c(1) e(1) sum.case p
    by (simp only: t not_True_eq_False if_False simp_thms)
  obtain w where w: "validateJsonValueAgainstSchema env options v schema = Inr (Inr w)"
    using r by (cases "validateJsonValueAgainstSchema env options v schema")
      (simp_all split: sum.splits if_splits)
  with r have "c = content" by simp
  then show ?thesis using cs es v value_accepted [OF assms(1) w] by metis
qed

section \<open>Properties\<close>

text \<open>C9: For a JSON value the evaluation of a schema is exact whenever the budget lasts: it answers
  valid only for a value that conforms to the schema and with budget left, and a mismatch found with
  budget left is a value that does not conform.  An exhausted budget is never a valid verdict.\<close>

theorem schema_evaluation_decides_conformance:
  assumes "number_texts (we_numtext (sx_env ctx))" and "is_json v" and "\<not> eb_exhausted b"
    and "matchesSchema ctx (Suc (sx_maxDepth ctx)) (\<lambda>_. 0) v schema path b = (r, t)"
  shows "(\<forall>u. r = Inr u \<longrightarrow> \<not> eb_exhausted t \<and> conforms ctx (Suc (sx_maxDepth ctx)) v schema) \<and>
    (\<forall>p reason. r = Inl (Mismatch p reason) \<and> \<not> eb_exhausted t \<longrightarrow>
       \<not> conforms ctx (Suc (sx_maxDepth ctx)) v schema)"
proof -
  have d: "decides (conforms ctx (Suc (sx_maxDepth ctx)) v schema)
      (matchesSchema ctx (Suc (sx_maxDepth ctx)) (\<lambda>_. 0) v schema path)"
    by (rule matchesSchema_decides [OF assms(1,2)]) simp
  show ?thesis
    using hoare_Inr [OF d [unfolded decides_def] assms(3)] hoare_Inl [OF d [unfolded decides_def] assms(3)] assms(4)
    by (auto simp: stops_def)
qed

definition minimum_schema :: jsval where
  "minimum_schema = Object [(js ''minimum'', Number (Fin 1))]"

definition minimum_context :: schema_context where
  "minimum_context = context_of sample_wire_env
     \<lparr>rl_maxEnvelopeBytes = 1048576, rl_maxSchemaBytes = 65536, rl_maxDepth = 128, rl_maxNodes = 200000,
      rl_maxRequestTtlMs = 3600000, rl_maxControlTtlMs = 30000\<rparr> minimum_schema"

lemmas run_keywords =
  entering_def consumeEvaluationBudget_def match_keywords_def match_reference_def schemaReference_def match_type_def
  match_const_def match_enum_def match_number_def match_string_def match_array_def match_object_def
  match_combinators_def match_anyOf_def match_oneOf_def match_not_def match_if_def forbid_def mismatch_def
  own_array_def compares_def own_number_def own_def

lemma minimum_run:
  "matchesSchema ctx (Suc n) refs (Number (Fin q)) minimum_schema path (createEvaluationBudget (Suc k)) =
     (if q < 1 then Inl (Mismatch path (js ''number is below minimum'')) else Inr (),
      \<lparr>eb_maxOperations = Suc k, eb_operations = 1, eb_exhausted = False\<rparr>)"
  by (simp add: matchesSchema.simps minimum_schema_def run_keywords createEvaluationBudget_def js_def exec_simps)

theorem schema_evaluation_decides_conformance_witness:
  "conforms minimum_context (Suc (sx_maxDepth minimum_context)) (Number (Fin 5)) minimum_schema \<and>
   \<not> conforms minimum_context (Suc (sx_maxDepth minimum_context)) (Number (Fin 0)) minimum_schema"
proof
  have e: "number_texts (we_numtext (sx_env minimum_context))"
    by (simp add: minimum_context_def context_of_def sample_wire_env_def sample_number_texts)
  have b: "\<not> eb_exhausted (createEvaluationBudget (Suc 9))" by (simp add: createEvaluationBudget_def)
  note run = minimum_run [where k = 9]
  show "conforms minimum_context (Suc (sx_maxDepth minimum_context)) (Number (Fin 5)) minimum_schema"
    using schema_evaluation_decides_conformance [OF e _ b run, of 5] by simp
  show "\<not> conforms minimum_context (Suc (sx_maxDepth minimum_context)) (Number (Fin 0)) minimum_schema"
    using schema_evaluation_decides_conformance [OF e _ b run, of 0] by simp
qed

text \<open>C10: A reply that is accepted against the expected response of its request is the given
  content: a JSON content whose value fits the limits, is accepted by the schema compiler, and
  conforms to the accepted schema of that expected response.\<close>

theorem accepted_reply_conforms:
  assumes "number_texts (we_numtext env)"
    and "validateReplyContent env options content expected = Inr (Inr c)"
  shows "c = content \<and> (\<exists>cs es v schema limits. content = Object cs \<and> expected = Object es \<and>
     own cs ''type'' = Some (Text (js ''json'')) \<and> own cs ''value'' = Some v \<and> own es ''schema'' = Some schema \<and>
     resolveLimits options = Inr limits \<and> validateJsonSchema env options schema = Inr (Inr schema) \<and>
     satisfies env limits v schema)"
  by (rule reply_accepted [OF assms])

definition sample_content :: jsval where
  "sample_content = Object [(js ''type'', Text (js ''json'')), (js ''value'', Number (Fin 5))]"

definition sample_expected :: jsval where
  "sample_expected = Object [(js ''contentType'', Text (js ''json'')), (js ''schema'', minimum_schema)]"

lemma minimum_measured:
  "measureJsonBytes sample_wire_env default_options minimum_schema 65536 =
     Inr (Measured 15)"
  "measureJsonBytes sample_wire_env default_options (Number (Fin 5)) max_safe_integer =
     Inr (Measured 3)"
  by (simp_all add: measureJsonBytes_def default_depth measure_in_def whole_def minimum_schema_def sample_wire_env_def
      measure_json.simps js_def jsonStringByteLength_def addMeasuredBytes_def Let_def max_safe_integer_def sample_numtext_def decimal.simps is_high_def)

lemma minimum_accepted: "validateJsonSchema sample_wire_env default_options minimum_schema = Inr (Inr minimum_schema)"
proof -
  let ?ms = "[(js ''minimum'', Number (Fin 1))]"
  have c: "schema_children ?ms = []" "combinator_children ?ms = []"
    by (simp_all add: schema_children_def combinator_children_def single_child_def mapped_children_def
      listed_children_def SCHEMA_CHILD_KEYWORDS_def SCHEMA_MAP_KEYWORDS_def COMBINATOR_KEYWORDS_def own_def js_def)
  have g: "schema_guards env ?ms path = Inr ()" for env path
    by (simp add: schema_guards_def checks_Inr unsupported_def schema_anchor_def schema_vocabulary_def
      validateSchemaKeywordType_def count_keywords_def number_keywords_def contains_counts_def
      required_keywords_def schema_pattern_def schema_map_def SCHEMA_MAP_KEYWORDS_def if_own_Inr
      has_own_def own_def js_def)
  have f: "schema_version ?ms path = Inr ()" "own_references ?ms path = Inr []" for path
    by (simp_all add: schema_version_def own_references_def bindC_def addSchemaReference_def if_own_def own_def js_def)
  have "validateSchemaShape env minimum_schema path = Inr []" for env path
    unfolding minimum_schema_def by (subst validateSchemaShape.simps) (simp add: f g c bindC_def)
  moreover have "we_compile sample_wire_env minimum_schema \<noteq> None" "isSchemaValue minimum_schema"
    by (simp_all add: sample_wire_env_def isSchemaValue_def minimum_schema_def)
  ultimately show ?thesis
    by (simp add: validateJsonSchema_def default_limits minimum_measured bindC_def outcome_of_def
        validateSchemaReferences_def checks.simps)
qed

theorem accepted_reply_conforms_witness:
  "validateReplyContent sample_wire_env default_options sample_content sample_expected = Inr (Inr sample_content) \<and>
   (\<exists>limits. satisfies sample_wire_env limits (Number (Fin 5)) minimum_schema)"
proof
  have v: "validateJsonValueInternal sample_wire_env default_options (Number (Fin 5)) path = Inr ()" for path
    by (simp add: validateJsonValueInternal_def minimum_measured no_throw_def bindC_def)
  have content: "validateContent sample_wire_env default_options sample_content = Inr (Inr sample_content)"
    by (simp add: validateContent_def validateTypedContentInternal_def sample_content_def own_def js_def v
        bindC_def outcome_of_def reissue_def)
  have expected: "validateExpectedResponse sample_wire_env default_options sample_expected = Inr (Inr sample_expected)"
    by (simp add: validateExpectedResponse_def validateExpectedResponseInternal_def sample_expected_def own_def
        js_def minimum_accepted bindC_def outcome_of_def)
  have parts: "property sample_content ''type'' = Text (js ''json'')"
    "property sample_content ''value'' = Number (Fin 5)" "property sample_expected ''schema'' = minimum_schema"
    by (simp_all add: property_own sample_content_def sample_expected_def own_def js_def)
  have run: "evaluate_schema_on sample_wire_env
      \<lparr>rl_maxEnvelopeBytes = 1048576, rl_maxSchemaBytes = 65536, rl_maxDepth = 128, rl_maxNodes = 200000,
       rl_maxRequestTtlMs = 3600000, rl_maxControlTtlMs = 30000\<rparr> (Number (Fin 5)) minimum_schema = Inr ()"
    using minimum_run [where k = 199999 and q = 5]
    by (simp add: evaluate_schema_on_def Let_def whole_def)
  have compiled: "we_compile sample_wire_env minimum_schema = Some (\<lambda>_. True)"
    by (simp add: sample_wire_env_def)
  have "validateJsonValueAgainstSchema sample_wire_env default_options (Number (Fin 5)) minimum_schema =
      Inr (Inr (Number (Fin 5)))"
    by (simp add: validateJsonValueAgainstSchema_def minimum_accepted v default_limits run compiled)
  then show reply: "validateReplyContent sample_wire_env default_options sample_content sample_expected =
      Inr (Inr sample_content)"
    by (simp add: validateReplyContent_def content expected parts)
  have "number_texts (we_numtext sample_wire_env)"
    by (simp add: sample_wire_env_def sample_number_texts)
  from accepted_reply_conforms [OF this reply]
  show "\<exists>limits. satisfies sample_wire_env limits (Number (Fin 5)) minimum_schema"
    by (auto simp: sample_content_def sample_expected_def own_def js_def)
qed

end
