(* ===== verification/Fingerprint.thy ===== *)
theory Fingerprint
  imports Envelope
begin

text \<open>
  The canonical request projection and its fingerprint (\<open>src/protocol/validation.ts\<close>:
  \<open>fingerprintData\<close> to \<open>validationError\<close>), and the deduplication store of \<open>src/router/dedupe.ts\<close>
  with this validator plugged in.  SHA-256 is a field of the environment; that two different
  canonical texts may have the same digest stays a case of every statement.
\<close>

section \<open>The projection\<close>

definition FINGERPRINT_FIELDS :: "string list" where
  "FINGERPRINT_FIELDS = [''protocolVersion'', ''operation'', ''operationId'', ''requestId'', ''sender'',
     ''recipientRuntimeId'', ''roomId'', ''createdAt'', ''expiresAt'', ''traceId'', ''parentOperationId'', ''payload'']"

text \<open>The own properties of a list of names, in that order.\<close>

definition listed :: "(string \<Rightarrow> jsval option) \<Rightarrow> string list \<Rightarrow> (jstr \<times> jsval) list" where
  "listed f keys = concat (map (\<lambda>k. case f k of None \<Rightarrow> [] | Some v \<Rightarrow> [(js k, v)]) keys)"

definition sender_projection :: "jsval \<Rightarrow> jsval" where
  "sender_projection v =
     Object (case v of Object sender \<Rightarrow> listed (own sender) [''sessionId'', ''runtimeId''] | _ \<Rightarrow> [])"

definition projected :: "(jstr \<times> jsval) list \<Rightarrow> string \<Rightarrow> jsval option" where
  "projected candidate key =
     (if key = ''sender'' then map_option sender_projection (own candidate key) else own candidate key)"

definition fingerprintData :: "(jstr \<times> jsval) list \<Rightarrow> jsval" where
  "fingerprintData candidate = Object (listed (projected candidate) FINGERPRINT_FIELDS)"

record canonical_projection =
  cp_envelope :: "(jstr \<times> jsval) list"
  cp_canonical :: jstr
  cp_fingerprint :: jstr

fun message_of :: "js_exn \<Rightarrow> string" where
  "message_of (RangeErrorExn m) = m"
| "message_of (TypeErrorExn m) = m"
| "message_of (ErrorExn m) = m"

definition members_of :: "jsval \<Rightarrow> (jstr \<times> jsval) list" where
  "members_of v = (case v of Object members \<Rightarrow> members | _ \<Rightarrow> [])"

definition validatedRequestProjection ::
  "wire_env \<Rightarrow> validation_options \<Rightarrow> jsval \<Rightarrow> canonical_projection validated" where
  "validatedRequestProjection env options v = bindV (validateEnvelope env options v)
     (\<lambda>envelope. case canonicalizeJson (we_numtext env) (fingerprintData (members_of envelope)) of
        Inl x \<Rightarrow> validationFailure env VC_malformed ''request fingerprint cannot be computed'' (js ''$'')
          (js (message_of x)) None
      | Inr canonical \<Rightarrow> Inr (Inr \<lparr>cp_envelope = members_of envelope, cp_canonical = canonical,
          cp_fingerprint = we_sha256 env canonical\<rparr>))"

text \<open>The forms that throw, and the ones that only answer a part.\<close>

definition or_throw :: "'a validated \<Rightarrow> dedupe_exn + 'a" where
  "or_throw r = (case r of
     Inl x \<Rightarrow> Inl (Js x) | Inr (Inl e) \<Rightarrow> Inl (ProtocolValidationError e) | Inr (Inr a) \<Rightarrow> Inr a)"

definition canonicalRequestData :: "wire_env \<Rightarrow> validation_options \<Rightarrow> jsval \<Rightarrow> dedupe_exn + jstr" where
  "canonicalRequestData env options v =
     map_sum id cp_canonical (or_throw (validatedRequestProjection env options v))"

definition canonicalRequestFingerprint :: "wire_env \<Rightarrow> validation_options \<Rightarrow> jsval \<Rightarrow> dedupe_exn + jstr" where
  "canonicalRequestFingerprint env options v =
     map_sum id cp_fingerprint (or_throw (validatedRequestProjection env options v))"

definition tryRequestFingerprint :: "wire_env \<Rightarrow> validation_options \<Rightarrow> jsval \<Rightarrow> jstr validated" where
  "tryRequestFingerprint env options v =
     bindV (validatedRequestProjection env options v) (\<lambda>p. Inr (Inr (cp_fingerprint p)))"

definition assertValidEnvelope :: "wire_env \<Rightarrow> validation_options \<Rightarrow> jsval \<Rightarrow> dedupe_exn + jsval" where
  "assertValidEnvelope env options v = or_throw (validateEnvelope env options v)"

definition validationError :: "wire_env \<Rightarrow> validation_options \<Rightarrow> jsval \<Rightarrow> js_exn + protocol_error option" where
  "validationError env options v =
     (case validateEnvelope env options v of
        Inl x \<Rightarrow> Inl x | Inr (Inl e) \<Rightarrow> Inr (Some e) | Inr (Inr _) \<Rightarrow> Inr None)"

text \<open>The forms that \<open>dedupe.ts\<close> exports.\<close>

definition requireProjection :: "wire_env \<Rightarrow> jsval \<Rightarrow> dedupe_exn + canonical_projection" where
  "requireProjection env operation = or_throw (validatedRequestProjection env default_options operation)"

definition canonicalizeOperation :: "wire_env \<Rightarrow> jsval \<Rightarrow> dedupe_exn + jstr" where
  "canonicalizeOperation env operation = map_sum id cp_canonical (requireProjection env operation)"

definition fingerprintOperation :: "wire_env \<Rightarrow> jsval \<Rightarrow> dedupe_exn + jstr" where
  "fingerprintOperation env operation = map_sum id cp_fingerprint (requireProjection env operation)"

section \<open>The store with this validator\<close>

fun text_of :: "jsval \<Rightarrow> jstr" where
  "text_of (Text t) = t"
| "text_of _ = []"

text \<open>What \<open>normalizedOperation\<close> reads of a projection made at a given time.\<close>

definition project_at :: "wire_env \<Rightarrow> jsval \<Rightarrow> jsnum \<Rightarrow> dedupe_exn + (protocol_error + projection)" where
  "project_at env operation now =
     (case validatedRequestProjection env (default_options\<lparr>vo_now := Some (Now_number now)\<rparr>) operation of
        Inl x \<Rightarrow> Inl (Js x)
      | Inr (Inl e) \<Rightarrow> Inr (Inl e)
      | Inr (Inr p) \<Rightarrow>
          (let envelope = Object (cp_envelope p)
           in Inr (Inr \<lparr>pr_operationId = text_of (property envelope ''operationId''),
                pr_senderRuntimeId = text_of (property (property envelope ''sender'') ''runtimeId''),
                pr_expiresAt = text_of (property envelope ''expiresAt''),
                pr_fingerprint = cp_fingerprint p\<rparr>)))"

definition wire_dedupe_env :: "wire_env \<Rightarrow> clock \<Rightarrow> ('r \<Rightarrow> jsval) \<Rightarrow> 'r dedupe_env" where
  "wire_dedupe_env env now view =
     \<lparr>de_now = now, de_parse = parseUtcTimestamp env, de_validate = project_at env, de_view = view\<rparr>"

section \<open>What a fingerprint identifies\<close>

text \<open>Two requests agree in every immutable field, up to the order of object members.\<close>

definition same_request :: "(jstr \<times> jsval) list \<Rightarrow> (jstr \<times> jsval) list \<Rightarrow> bool" where
  "same_request ms ns \<longleftrightarrow> (\<forall>key \<in> set FINGERPRINT_FIELDS.
     map_option json_norm (projected ms key) = map_option json_norm (projected ns key))"

definition canonical_request :: "wire_env \<Rightarrow> (jstr \<times> jsval) list \<Rightarrow> jstr" where
  "canonical_request env ms = stringify (we_numtext env) (json_norm (fingerprintData ms))"

definition digest_collision :: "wire_env \<Rightarrow> jstr \<Rightarrow> jstr \<Rightarrow> bool" where
  "digest_collision env x y \<longleftrightarrow> x \<noteq> y \<and> we_sha256 env x = we_sha256 env y"

lemma in_listed: "(js k, v) \<in> set (listed f keys) \<longleftrightarrow> k \<in> set keys \<and> f k = Some v"
  by (auto simp: listed_def split: option.splits)

lemma listed_norm: "map (map_prod id json_norm) (listed f keys) = listed (\<lambda>k. map_option json_norm (f k)) keys"
  by (induction keys) (auto simp: listed_def split: option.split)

lemma sorted_listed:
  "sort_key fst (listed f keys) = sort_key fst (listed g keys) \<longleftrightarrow> (\<forall>k \<in> set keys. f k = g k)"
proof
  assume "sort_key fst (listed f keys) = sort_key fst (listed g keys)"
  then have "set (listed f keys) = set (listed g keys)" by (metis set_sort)
  then have "f k = Some v \<longleftrightarrow> g k = Some v" if "k \<in> set keys" for k v
    using that in_listed by blast
  then show "\<forall>k \<in> set keys. f k = g k" by (metis not_Some_eq)
next
  assume "\<forall>k \<in> set keys. f k = g k"
  then have "listed f keys = listed g keys" unfolding listed_def by (induction keys) auto
  then show "sort_key fst (listed f keys) = sort_key fst (listed g keys)" by simp
qed

lemma same_data: "json_norm (fingerprintData ms) = json_norm (fingerprintData ns) \<longleftrightarrow> same_request ms ns"
  by (simp add: fingerprintData_def listed_norm sorted_listed same_request_def)

lemma projection_ok:
  assumes "validatedRequestProjection env options v = Inr (Inr p)"
  shows "v = Object (cp_envelope p) \<and> is_json (fingerprintData (cp_envelope p)) \<and>
    cp_canonical p = canonical_request env (cp_envelope p) \<and> cp_fingerprint p = we_sha256 env (cp_canonical p)"
proof -
  obtain envelope where e: "validateEnvelope env options v = Inr (Inr envelope)"
    using assms by (auto simp: validatedRequestProjection_def bindV_def split: sum.splits)
  then have v: "envelope = v" "\<exists>members. v = Object members"
    by (auto simp: validateEnvelope_def check_envelope_def bindV_def malformed_envelope_def
        split: sum.splits jsval.splits)
  then obtain ms where ms: "v = Object ms" by blast
  obtain t where t: "canonicalizeJson (we_numtext env) (fingerprintData ms) = Inr t"
      "p = \<lparr>cp_envelope = ms, cp_canonical = t, cp_fingerprint = we_sha256 env t\<rparr>"
    using assms e v(1) ms by (auto simp: validatedRequestProjection_def bindV_def members_of_def split: sum.splits)
  have j: "is_json (fingerprintData ms)"
    using t(1) canonical_error(1) [of "fingerprintData ms" "we_numtext env"]
    by (cases "is_json (fingerprintData ms)") (auto simp: canonicalizeJson_def)
  then show ?thesis
    using t ms canonical_text(1) [OF j, of "we_numtext env"]
    by (simp add: canonicalizeJson_def canonical_request_def)
qed

lemma canonical_request_inject:
  assumes "number_texts (we_numtext env)" and "is_json (fingerprintData ms)" "is_json (fingerprintData ns)"
  shows "canonical_request env ms = canonical_request env ns \<longleftrightarrow> same_request ms ns"
  using stringify_inject [OF assms(1), of "json_norm (fingerprintData ms)" "json_norm (fingerprintData ns)"] assms(2,3)
  unfolding canonical_request_def same_data [symmetric] by auto

lemma equal_fingerprints:
  assumes "number_texts (we_numtext env)"
    and "validatedRequestProjection env options v = Inr (Inr p)"
    and "validatedRequestProjection env options' w = Inr (Inr q)"
  shows "cp_fingerprint p = cp_fingerprint q \<longleftrightarrow> same_request (cp_envelope p) (cp_envelope q) \<or>
    digest_collision env (cp_canonical p) (cp_canonical q)"
  using projection_ok [OF assms(2)] projection_ok [OF assms(3)]
    canonical_request_inject [OF assms(1), of "cp_envelope p" "cp_envelope q"]
  by (auto simp: digest_collision_def)

section \<open>Where stored records come from\<close>

text \<open>
  The keys and fingerprints in a store.  No method brings in others than those of the operation
  it was given.
\<close>

definition tags :: "('r, 't) dedupe_store \<Rightarrow> (jstr \<times> jstr) set" where
  "tags s = (\<lambda>(k, r). (k, no_fingerprint r)) ` set (ds_records s)"

definition sourced :: "(jstr \<times> jstr) set \<Rightarrow> ('r, 't) dedupe_store \<Rightarrow> ('r, 't) dedupe_store \<Rightarrow> bool" where
  "sourced P s t \<longleftrightarrow> tags t \<subseteq> tags s \<union> P"

definition sources :: "'r dedupe_env \<Rightarrow> jsval \<Rightarrow> (jstr \<times> jstr) set" where
  "sources env operation =
     {(no_key n, no_fingerprint n) | n now grace. normalizedOperation env operation now grace = Inr n}"

interpretation sourced: step_contract "sourced P" for P
  by unfold_locales (auto simp: sourced_def)

lemma sourced_shrinking: "obeys no_new_record m \<Longrightarrow> obeys (sourced P) m"
  by (erule obeys_mono) (auto simp: no_new_record_def sourced_def tags_def)

lemma sourced_more: "obeys (sourced P) m \<Longrightarrow> P \<subseteq> Q \<Longrightarrow> obeys (sourced Q) m"
  by (erule obeys_mono) (auto simp: sourced_def)

lemma sourced_bind:
  assumes "obeys (sourced P) m" and "\<And>s a t. m s = (Inr a, t) \<Longrightarrow> obeys (sourced P) (k a)"
  shows "obeys (sourced P) (bindE m k)"
proof (rule obeysI)
  fix s
  obtain x t where m: "m s = (x, t)" by fastforce
  have st: "sourced P s t" by (rule obeys_result [OF assms(1) m])
  show "sourced P s (snd (bindE m k s))"
  proof (cases x)
    case (Inr a)
    then have "sourced P t (snd (k a t))" using assms(2) m by (blast intro: obeysD)
    then show ?thesis using Inr m sourced.trans [OF st] by (simp add: bindE_Inr)
  qed (use m st in \<open>simp add: bindE_Inl\<close>)
qed

lemma sourced_store: "(key, no_fingerprint r) \<in> P \<Longrightarrow> obeys (sourced P) (store_record key r)"
  by (rule obeysI)
     (auto simp: store_record_def exec_simps sourced_def tags_def dest!: subsetD [OF set_update_subset])

lemma sourced_remove: "obeys (sourced P) (removeRecord key)"
  by (rule sourced_shrinking, rule obeysI)
     (auto simp: removeRecord_def exec_simps no_new_record_def dest: subsetD [OF set_delete_subset])

lemmas sourced_basic = sourced.closure sourced_store sourced_remove
  shrinking_prune [THEN sourced_shrinking] shrinking_readNow [THEN sourced_shrinking]
  shrinking_normalize [THEN sourced_shrinking] shrinking_ensureOpen [THEN sourced_shrinking]
  shrinking_release_pending [THEN sourced_shrinking] shrinking_release [THEN sourced_shrinking]
  shrinking_busy [THEN sourced_shrinking]

lemma sourced_schedule: "(key, no_fingerprint r) \<in> P \<Longrightarrow> obeys (sourced P) (schedule env key r)"
  unfolding schedule_def by (intro sourced_basic) simp

text \<open>A record that was found already belongs to the store.\<close>

lemma sourced_found:
  assumes "\<And>r. obeys (sourced (insert (key, no_fingerprint r) P)) (f (Some r))"
    and "obeys (sourced P) (f None)"
  shows "obeys (sourced P) (bindE (find_record key) f)"
proof (rule find_record_bind)
  fix s :: "('a, 'b) dedupe_store"
  show "sourced P s (snd (f (map_of (ds_records s) key) s))"
  proof (cases "map_of (ds_records s) key")
    case (Some r)
    then have "(key, no_fingerprint r) \<in> tags s" by (force simp: tags_def dest: map_of_SomeD)
    then show ?thesis using obeysD [OF assms(1), of r s] Some by (auto simp: sourced_def)
  qed (use obeysD [OF assms(2)] in simp)
qed

lemma fresh_record_fingerprint [simp]: "no_fingerprint (fresh_record n) = no_fingerprint n"
  by (simp add: fresh_record_def normalized.defs)

lemma sourced_reserve_normalized:
  "(no_key n, no_fingerprint n) \<in> P \<Longrightarrow> obeys (sourced P) (reserve_normalized env n)"
  unfolding reserve_normalized_def Let_def
  by (rule sourced_found) (auto intro!: sourced_basic sourced_schedule)

lemma normalize_source:
  "normalize env operation s = (Inr n, t) \<Longrightarrow> (no_key n, no_fingerprint n) \<in> sources env operation"
proof -
  assume "normalize env operation s = (Inr n, t)"
  then obtain now u grace where "(case normalizedOperation env operation now grace of
      Inl x \<Rightarrow> throw x | Inr n \<Rightarrow> ret n) u = (Inr n, t)"
    by (auto simp: normalize_def bindE_eq_Inr throw_def split: if_splits)
  then have "normalizedOperation env operation now grace = Inr n"
    by (auto simp: throw_def ret_def split: sum.splits)
  then show ?thesis by (auto simp: sources_def)
qed

lemma sourced_reserve: "obeys (sourced (sources env operation)) (reserve env operation)"
  unfolding reserve_def
  by (intro sourced_basic sourced_bind sourced_reserve_normalized) (rule normalize_source)

lemma sourced_commitRecord:
  "(key, no_fingerprint r) \<in> P \<Longrightarrow> obeys (sourced P) (commitRecord key r result taskReference)"
  unfolding commitRecord_def Let_def by (intro sourced_basic) simp

lemma sourced_commit_reservation: "obeys (sourced P) (commit_reservation env v result taskReference)"
  unfolding commit_reservation_def commit_found_def
  by (intro sourced_basic sourced_found) (simp_all add: sourced_basic sourced_commitRecord)

lemma sourced_commit_operation:
  "obeys (sourced (sources env operation)) (commit_operation env operation result taskReference)"
  unfolding commit_operation_def
  by (intro sourced_basic sourced_reserve)
     (auto simp: sourced_commit_reservation sourced_basic split: decision_kind.split option.split)

lemma target_of_Op: "target_of (Op operation) = Op x \<Longrightarrow> x = operation"
  by (simp add: target_of_def split: if_splits)

lemma sourced_commit: "obeys (sourced (case t of Op operation \<Rightarrow> sources env operation | Res _ \<Rightarrow> {}))
    (commit env t result taskReference)"
proof (cases t)
  case (Op operation)
  then have "target_of t = Op operation \<or> (\<exists>v. target_of t = Res v)" by (simp add: target_of_def)
  then show ?thesis using Op sourced_commit_reservation sourced_commit_operation by (auto simp: commit_def)
qed (simp add: commit_def sourced_commit_reservation)

lemma sourced_admit: "obeys (sourced (sources env operation)) (admit env operation arguments)"
  unfolding admit_def commit_def
  by (auto simp: sourced_reserve sourced_basic sourced_commit_operation sourced_commit_reservation
      split: option.split target.split dest: target_of_Op)

lemma sourced_execute: "obeys (sourced (sources env operation)) (execute env operation producer taskReference)"
  unfolding execute_def commit_def
  by (intro sourced_basic sourced_reserve)
     (auto simp: sourced_commit_reservation sourced_basic split: decision_kind.split option.split sum.split
       intro!: sourced_basic)

lemma sourced_timer: "obeys (sourced P) (timer_fires env key)"
  unfolding timer_fires_def
  by (rule sourced_found) (auto intro!: sourced_basic sourced_schedule)

lemma sourced_reads:
  "obeys (sourced P) (inspect env operation)" "obeys (sourced P) (getRecord env operation)" "obeys (sourced P) (size_of env)"
  unfolding inspect_def getRecord_def size_of_def find_record_def by (intro sourced_basic)+

text \<open>The operation that a call may store.\<close>

fun call_operation :: "('r, 't) call \<Rightarrow> jsval option" where
  "call_operation (Reserve operation) = Some operation"
| "call_operation (Commit (Op operation) _ _) = Some operation"
| "call_operation (Admit operation _) = Some operation"
| "call_operation (Execute operation _ _) = Some operation"
| "call_operation _ = None"

definition call_sources :: "'r dedupe_env \<Rightarrow> ('r, 't) call \<Rightarrow> (jstr \<times> jstr) set" where
  "call_sources env c = (case call_operation c of None \<Rightarrow> {} | Some operation \<Rightarrow> sources env operation)"

lemmas sourced_calls = sourced_reads sourced_reserve sourced_admit sourced_execute sourced_timer
  shrinking_release [THEN sourced_shrinking] shrinking_busy [THEN sourced_shrinking]
  shrinking_prune [THEN sourced_shrinking]

lemma sourced_discards:
  "obeys (sourced P) (prune_at nowMs)" "obeys (sourced P) clear" "obeys (sourced P) close"
  by (rule sourced_shrinking, rule obeysI,
      auto simp: prune_at_def clear_def close_def exec_simps no_new_record_def)+

lemma sourced_call_step: "sourced (call_sources env c) s (call_step env c s)"
proof (cases c)
  case (Commit target result taskReference)
  then show ?thesis
    using obeysD [OF sourced_commit [of env target result taskReference], of s]
    by (cases target) (simp_all add: call_sources_def)
qed (simp_all add: call_sources_def obeysD sourced_calls sourced_discards)

lemma sourced_history: "sourced (\<Union>c \<in> set calls. call_sources env c) s (history env calls s)"
  unfolding history_def
proof (induction calls arbitrary: s)
  case (Cons c calls)
  show ?case
    using sourced_call_step [of env c s] Cons.IH [of "call_step env c s"] by (auto simp: sourced_def)
qed (simp add: sourced.refl)

lemma replayed_from_store:
  assumes "reserve env operation s = (Inr d, t)" and "dd_kind d \<in> {DK_replay, DK_pending}"
  shows "tags s \<inter> sources env operation \<noteq> {}"
proof -
  obtain a x b where a: "ensureOpen s = (Inr (), a)" "prune env a = (Inr x, b)"
      "(if \<not> isDedupeOperation (operationName operation) then ret (ignoredDecision (operationName operation))
        else bindE (normalize env operation) (reserve_normalized env)) b = (Inr d, t)"
    using assms(1) by (auto simp: reserve_def thenE_def bindE_eq_Inr)
  then obtain n w where n: "normalize env operation b = (Inr n, w)" "reserve_normalized env n w = (Inr d, t)"
    using assms(2) by (auto simp: ret_def ignoredDecision_def blank_decision_def bindE_eq_Inr split: if_splits)
  have "no_new_record s w"
    using shrinking.trans shrinking_result [OF a(1) shrinking_ensureOpen] shrinking_result [OF a(2) shrinking_prune]
      shrinking_result [OF n(1) shrinking_normalize] by blast
  moreover obtain r where r: "map_of (ds_records w) (no_key n) = Some r" "no_fingerprint r = no_fingerprint n"
  proof (cases "map_of (ds_records w) (no_key n)")
    case None
    then have "dd_kind d = DK_new"
      using reserve_normalized_new [of w n env] n(2) by (auto simp: newDecision_def identify_def blank_decision_def)
    with assms(2) show thesis by simp
  next
    case (Some r)
    then show thesis
      using that assms(2) n(2) reserve_normalized_found [of w n r env]
      by (auto simp: existingDecision_def identify_def blank_decision_def split: if_splits)
  qed
  ultimately have "(no_key n, no_fingerprint n) \<in> tags s"
    by (force simp: no_new_record_def tags_def dest: map_of_SomeD)
  with normalize_source [OF n(1)] show ?thesis by blast
qed

lemma wire_sources:
  assumes "(k, f) \<in> sources (wire_dedupe_env env now view) operation"
  shows "\<exists>options p. validatedRequestProjection env options operation = Inr (Inr p) \<and> cp_fingerprint p = f"
proof -
  let ?E = "wire_dedupe_env env now view"
  obtain n m grace where n: "normalizedOperation ?E operation m grace = Inr n" "f = no_fingerprint n"
    using assms by (auto simp: sources_def)
  then obtain p i where p: "de_validate ?E operation i = Inr (Inr p)" "no_fingerprint n = pr_fingerprint p"
    by (auto simp: normalizedOperation_def normalized_of_def Let_def
        split: if_splits jsval.splits sum.splits option.splits)
  then obtain q where "validatedRequestProjection env (default_options\<lparr>vo_now := Some (Now_number i)\<rparr>) operation =
      Inr (Inr q)" "pr_fingerprint p = cp_fingerprint q"
    by (auto simp: wire_dedupe_env_def project_at_def Let_def split: sum.splits)
  then show ?thesis using n(2) p(2) by auto
qed

section \<open>Properties\<close>

text \<open>C13: Two accepted requests have the same fingerprint exactly when they agree in every immutable
  field, up to the order of object members, or when the digests of two different canonical texts
  collide.  Binding credentials and other unknown fields never matter.\<close>

theorem fingerprint_identifies_request:
  assumes "number_texts (we_numtext env)"
    and "validatedRequestProjection env options v = Inr (Inr p)"
    and "validatedRequestProjection env options' w = Inr (Inr q)"
  shows "v = Object (cp_envelope p) \<and> w = Object (cp_envelope q) \<and>
    (cp_fingerprint p = cp_fingerprint q \<longleftrightarrow> same_request (cp_envelope p) (cp_envelope q) \<or>
       digest_collision env (cp_canonical p) (cp_canonical q))"
  using equal_fingerprints [OF assms] projection_ok [OF assms(2)] projection_ok [OF assms(3)] by blast

text \<open>C12: A store that validates with the wire validator answers replay or pending only for a request
  that agrees in every immutable field with one that an earlier call was given, unless the digests
  of two different canonical texts collide.\<close>

theorem replay_only_for_the_same_request:
  assumes "number_texts (we_numtext env)" and "ds_records s = []"
    and "reserve (wire_dedupe_env env now view) (Object ns)
      (history (wire_dedupe_env env now view) calls s) = (Inr d, t)"
    and "dd_kind d \<in> {DK_replay, DK_pending}"
  shows "\<exists>c \<in> set calls. \<exists>ms. call_operation c = Some (Object ms) \<and>
    (same_request ms ns \<or> digest_collision env (canonical_request env ms) (canonical_request env ns))"
proof -
  let ?E = "wire_dedupe_env env now view"
  obtain k f where f: "(k, f) \<in> tags (history ?E calls s)" "(k, f) \<in> sources ?E (Object ns)"
    using replayed_from_store [OF assms(3,4)] by auto
  have "tags s = {}" using assms(2) by (simp add: tags_def)
  then obtain c where c: "c \<in> set calls" "(k, f) \<in> call_sources ?E c"
    using f(1) sourced_history [where env = ?E and calls = calls and s = s] by (auto simp: sourced_def)
  then obtain v where v: "call_operation c = Some v" "(k, f) \<in> sources ?E v"
    by (auto simp: call_sources_def split: option.splits)
  obtain o1 p where p: "validatedRequestProjection env o1 v = Inr (Inr p)" "cp_fingerprint p = f"
    using wire_sources [OF v(2)] by blast
  obtain o2 q where q: "validatedRequestProjection env o2 (Object ns) = Inr (Inr q)" "cp_fingerprint q = f"
    using wire_sources [OF f(2)] by blast
  have "same_request (cp_envelope p) (cp_envelope q) \<or> digest_collision env (cp_canonical p) (cp_canonical q)"
    using equal_fingerprints [OF assms(1) p(1) q(1)] p(2) q(2) by simp
  then show ?thesis
    using c(1) v(1) projection_ok [OF p(1)] projection_ok [OF q(1)] by auto
qed

section \<open>An accepted notification, with and without a credential\<close>

definition credential_members :: "(jstr \<times> jsval) list" where
  "credential_members = sample_members @ [text_member ''token'' (js ''x'')]"

lemma credential_own: "k \<noteq> ''token'' \<Longrightarrow> own credential_members k = own sample_members k"
  by (auto simp: own_def credential_members_def text_member_def map_add_def split: option.split)

lemma credential_fits: "fits dated_env sample_limits (whole 1048576) (Object credential_members)"
proof -
  have j: "is_json (Object credential_members)" "node_count (Object credential_members) \<le> 200000"
    by (simp_all add: credential_members_def sample_members_def text_member_def)
  have size: "text_size \<lparr>mc_maxBytes = 0, mc_maxDepth = 0, mc_maxNodes = 0, mc_numtext = sample_numtext\<rparr>
      (Object credential_members) \<le> 1000"
    by (simp add: text_size_object text_size_text sample_number_texts credential_members_def sample_members_def
        text_member_def sample_id_def sample_created_def sample_expires_def js_def jsonStringByteLength_def)
  have "json_depth (Object credential_members) \<le> Suc (Suc (Suc 0))"
    by (simp add: object_depth credential_members_def sample_members_def text_member_def del: json_depth.simps(7))
  then show ?thesis
    using j size
    by (simp add: fits_def text_size_def sample_limits_def whole_def dated_env_def sample_wire_env_def)
qed

lemma credential_envelope_ok:
  "envelope_ok dated_env options sample_limits 0 Op_message_notify (Object credential_members)"
proof -
  have same: "parties_ok credential_members = parties_ok sample_members"
    "ids_ok Op_message_notify credential_members = ids_ok Op_message_notify sample_members"
    "deadline_ok dated_env sample_limits 0 Op_message_notify credential_members =
     deadline_ok dated_env sample_limits 0 Op_message_notify sample_members"
    by (simp_all add: parties_ok_def ids_ok_def deadline_ok_def own_is_def envelope_time_def has_own_def credential_own)
  have "rl_maxEnvelopeBytes sample_limits = 1048576" by (simp add: sample_limits_def)
  then show ?thesis
    using sample_envelope_ok credential_fits
    by (auto simp: envelope_ok_def same credential_own payload_ok_def)
qed

lemma sample_any_options:
  "envelope_ok dated_env options sample_limits 0 Op_message_notify (Object sample_members)"
  using sample_envelope_ok by (simp add: envelope_ok_def payload_ok_def)

definition at_zero :: validation_options where
  "at_zero = default_options\<lparr>vo_now := Some (Now_number (Fin 0))\<rparr>"

lemma zero_facts: "number_texts (we_numtext dated_env)" "resolveLimits at_zero = Inr sample_limits"
  "resolveNow dated_env (vo_now at_zero) = Inr 0"
proof -
  have "vo_limits at_zero = vo_limits default_options" "vo_maxEnvelopeBytes at_zero = vo_maxEnvelopeBytes default_options"
    "vo_maxSchemaBytes at_zero = vo_maxSchemaBytes default_options" "vo_maxDepth at_zero = vo_maxDepth default_options"
    "vo_maxNodes at_zero = vo_maxNodes default_options"
    by (simp_all add: at_zero_def)
  then have "resolveLimits at_zero = resolveLimits default_options"
    unfolding resolveLimits_def depth_limit_def node_limit_def by (simp only:)
  then show "resolveLimits at_zero = Inr sample_limits" by (simp add: default_limits sample_limits_def)
qed (simp_all add: dated_env_def sample_wire_env_def sample_number_texts at_zero_def resolveNow_def max_safe_integer_def)

lemma projected_sample:
  assumes "envelope_ok dated_env at_zero sample_limits 0 Op_message_notify (Object ms)"
    and "is_json (fingerprintData ms)"
  shows "validatedRequestProjection dated_env at_zero (Object ms) = Inr (Inr
    \<lparr>cp_envelope = ms, cp_canonical = canonical_request dated_env ms,
     cp_fingerprint = canonical_request dated_env ms\<rparr>)"
proof -
  have "validateEnvelope dated_env at_zero (Object ms) = Inr (Inr (Object ms))"
    using assms(1) by (auto simp: validateEnvelope_def bindV_ok envelope_checked [OF zero_facts])
  moreover have "we_sha256 dated_env t = t" for t by (simp add: dated_env_def sample_wire_env_def)
  ultimately show ?thesis
    using canonical_text(1) [OF assms(2), of "we_numtext dated_env"]
    by (simp add: validatedRequestProjection_def bindV_def members_of_def canonicalizeJson_def canonical_request_def)
qed

lemma sample_data_json: "is_json (fingerprintData sample_members)" "is_json (fingerprintData credential_members)"
  by (simp_all add: fingerprintData_def listed_def FINGERPRINT_FIELDS_def projected_def credential_own sample_own
      sender_projection_def) (simp_all add: own_def text_member_def)

theorem fingerprint_identifies_request_witness:
  "validatedRequestProjection dated_env at_zero (Object credential_members) \<noteq>
     validatedRequestProjection dated_env at_zero (Object sample_members) \<and>
   tryRequestFingerprint dated_env at_zero (Object credential_members) =
     tryRequestFingerprint dated_env at_zero (Object sample_members)"
proof -
  note p = projected_sample [OF sample_any_options sample_data_json(1)]
    projected_sample [OF credential_envelope_ok sample_data_json(2)]
  have "same_request credential_members sample_members"
    by (simp add: same_request_def FINGERPRINT_FIELDS_def projected_def credential_own)
  then have "canonical_request dated_env credential_members = canonical_request dated_env sample_members"
    using fingerprint_identifies_request [OF zero_facts(1) p(2) p(1)] by simp
  moreover have "credential_members \<noteq> sample_members" by (simp add: credential_members_def)
  ultimately show ?thesis by (simp add: p tryRequestFingerprint_def bindV_def)
qed

definition zero_dedupe :: "nat dedupe_env" where
  "zero_dedupe = wire_dedupe_env dated_env (\<lambda>_. Fin 0) (\<lambda>_. Null)"

definition sample_normalized :: "(jstr \<times> jsval) list \<Rightarrow> normalized" where
  "sample_normalized ms = \<lparr>no_operation = js ''message.notify'', no_operationId = sample_id,
     no_senderRuntimeId = js ''r'', no_expiresAt = sample_expires @ [90], no_expiresAtMs = 1000,
     no_retainedUntil = 601000, no_key = makeDedupeKey (js ''r'') sample_id,
     no_fingerprint = canonical_request dated_env ms\<rparr>"

lemma sample_property:
  assumes "\<And>k. k \<noteq> ''token'' \<Longrightarrow> own ms k = own sample_members k"
  shows "property (Object ms) ''operation'' = Text (js ''message.notify'')"
    "property (Object ms) ''operationId'' = Text sample_id"
    "property (property (Object ms) ''sender'') ''runtimeId'' = Text (js ''r'')"
    "property (Object ms) ''expiresAt'' = Text (sample_expires @ [90])"
    "property (Object ms) ''senderRuntimeId'' = Undefined"
  using assms [unfolded own_def] sample_own [unfolded own_def]
  by (simp_all add: text_member_def) (simp add: sample_members_def text_member_def)

lemma sample_normalizes:
  assumes "\<And>k. k \<noteq> ''token'' \<Longrightarrow> own ms k = own sample_members k"
    and "envelope_ok dated_env at_zero sample_limits 0 Op_message_notify (Object ms)"
    and "is_json (fingerprintData ms)"
  shows "normalizedOperation zero_dedupe (Object ms) (Fin 0) 600000 = Inr (sample_normalized ms)"
proof -
  have p: "project_at dated_env (Object ms) (Fin 0) = Inr (Inr \<lparr>pr_operationId = sample_id,
      pr_senderRuntimeId = js ''r'', pr_expiresAt = sample_expires @ [90],
      pr_fingerprint = canonical_request dated_env ms\<rparr>)"
    using projected_sample [OF assms(2,3)] sample_property [OF assms(1)]
    by (simp add: project_at_def at_zero_def [symmetric] Let_def del: property.simps)
  show ?thesis
    using sample_property [OF assms(1)]
    by (simp add: normalizedOperation_def zero_dedupe_def wire_dedupe_env_def p isRecord_def Let_def
        DEDUPE_OPERATION_NAMES_def normalized_of_def sample_time sample_normalized_def del: property.simps)
qed

definition empty_store :: "(nat, nat) dedupe_store" where
  "empty_store = \<lparr>ds_records = [], ds_retentionGraceMs = 600000, ds_closed = False, ds_reads = 1\<rparr>"

lemma zero_now [simp]: "de_now zero_dedupe i = Fin 0"
  by (simp add: zero_dedupe_def wire_dedupe_env_def)

lemma zero_normalize:
  assumes "\<And>k. k \<noteq> ''token'' \<Longrightarrow> own ms k = own sample_members k"
    and "envelope_ok dated_env at_zero sample_limits 0 Op_message_notify (Object ms)"
    and "is_json (fingerprintData ms)"
  shows "ds_retentionGraceMs s = 600000 \<Longrightarrow>
     normalize zero_dedupe (Object ms) s = (Inr (sample_normalized ms), s\<lparr>ds_reads := Suc (ds_reads s)\<rparr>)"
    "isDedupeOperation (operationName (Object ms))"
  using sample_normalizes [OF assms] sample_property(1) [OF assms(1)]
  by (simp_all add: normalize_def exec_simps readNow_apply isDedupeOperation_def operationName_def isRecord_def
      DEDUPE_OPERATION_NAMES_def del: property.simps)

lemmas zero_runs = zero_normalize [OF refl sample_any_options sample_data_json(1)]
  zero_normalize [OF credential_own credential_envelope_ok sample_data_json(2)]

lemma zero_history:
  "history zero_dedupe [Reserve (Object sample_members)] empty_store =
     empty_store\<lparr>ds_reads := 4, ds_records := [(makeDedupeKey (js ''r'') sample_id,
       (fresh_record (sample_normalized sample_members))\<lparr>sr_timer := Some (Fin 601000)\<rparr>)]\<rparr>"
  by (simp add: history_def reserve_def reserve_normalized_def thenE_def bindE_apply getE_def ret_def modE_def
      throw_def readNow_apply ensureOpen_def prune_def prune_at_def find_record_def store_record_def schedule_def
      Let_def zero_runs empty_store_def sample_normalized_def fresh_record_def normalized.defs MAX_TIMER_DELAY_MS_def)

theorem replay_only_for_the_same_request_witness:
  "\<exists>d t. reserve zero_dedupe (Object credential_members)
      (history zero_dedupe [Reserve (Object sample_members)] empty_store) = (Inr d, t) \<and>
     dd_kind d = DK_pending \<and> same_request sample_members credential_members"
proof -
  have "same_request credential_members sample_members"
    by (simp add: same_request_def FINGERPRINT_FIELDS_def projected_def credential_own)
  then have "canonical_request dated_env credential_members = canonical_request dated_env sample_members"
    using canonical_request_inject [OF zero_facts(1) sample_data_json(2,1)] by simp
  then have "\<exists>d t. reserve zero_dedupe (Object credential_members)
      (history zero_dedupe [Reserve (Object sample_members)] empty_store) = (Inr d, t) \<and> dd_kind d = DK_pending"
    unfolding zero_history
    by (simp add: reserve_def reserve_normalized_def thenE_def bindE_apply getE_def ret_def modE_def
      throw_def readNow_apply ensureOpen_def prune_def prune_at_def find_record_def
      Let_def zero_runs empty_store_def sample_normalized_def fresh_record_def normalized.defs
      existingDecision_def identify_def blank_decision_def)
  then obtain d t where run: "reserve zero_dedupe (Object credential_members)
      (history zero_dedupe [Reserve (Object sample_members)] empty_store) = (Inr d, t)" "dd_kind d = DK_pending"
    by blast
  have "ds_records empty_store = []" by (simp add: empty_store_def)
  from replay_only_for_the_same_request [OF zero_facts(1) this run(1) [unfolded zero_dedupe_def]] run(2)
  have "same_request sample_members credential_members \<or>
      digest_collision dated_env (canonical_request dated_env sample_members) (canonical_request dated_env credential_members)"
    by simp
  then have "same_request sample_members credential_members"
    by (simp add: digest_collision_def dated_env_def sample_wire_env_def)
  with run show ?thesis by blast
qed

end
