(* ===== verification/Spec2Isabelle.thy ===== *)
theory Spec2Isabelle
  imports Protocol_Errors Task_State Frame_Codec Dedupe Task_Store Routing_Policy Routing_Invariant Routing_Queue Rooms Identity Naming Lookup Lease Json_Text Config Wire_Values Schema_Shape Envelope Schema_Eval Schema_Conformance Fingerprint
begin

text \<open>
  A verification development for pi-to-pi, a peer-to-peer protocol with which coding agents
  that run on one machine find each other in a room, send requests and share the state of the
  tasks they accept.

  Parts and theories, in the order of the code:

  \<^item> \<open>Prelude\<close>: JavaScript numbers, strings and untyped values, exceptions, the execution monad
    of the stateful classes and the locale of step contracts.
  \<^item> \<open>Protocol_Errors\<close> (\<open>src/protocol/errors.ts\<close>): construction of wire-safe error values.
  \<^item> \<open>Task_State\<close> (\<open>src/protocol/task-state.ts\<close>): the task life cycle.
  \<^item> \<open>Frame_Codec\<close> (\<open>src/transport/frame-codec.ts\<close>): length-prefixed frames over a byte stream.
  \<^item> \<open>Dedupe\<close> (\<open>src/router/dedupe.ts\<close>): at-most-once execution of mutating operations.
\<close>

end
